(* ===== verification/Ctl_Prelude.thy ===== *)
theory Ctl_Prelude
  imports Main "HOL-Library.List_Lexorder" "HOL-Library.Char_ord" "HOL-Library.Code_Target_Numeral"
begin

text \<open>
  Shared ground of the development: the named collections of simplification facts the
  component theories extend, the type of fallible results, and the model of the Rust
  collections that \<^verbatim>\<open>glasir-control\<close> uses.

  A \<^verbatim>\<open>HashMap<K, Vec<V>>\<close> is an association list with one entry per key
  (\<open>hmap\<close>); its order stands for the unspecified iteration order of the hash map, so a
  fact that must not depend on that order is stated for every order. A
  \<^verbatim>\<open>BTreeSet\<close> is a finite set, written out in ascending order
  (\<open>sorted_list_of_set\<close>) where the code iterates over it.
\<close>

named_theorems rust_str \<open>facts on the string operations of the standard library\<close>
named_theorems hmap_simps \<open>facts on look-ups in hash maps\<close>
named_theorems rights_facts \<open>what a rights file says, line by line\<close>

text \<open>A fallible computation: \<open>Inl\<close> is Rust's \<open>Err\<close>, \<open>Inr\<close> its \<open>Ok\<close>.\<close>

type_synonym ('e, 'a) result = "'e + 'a"

definition is_ok :: "('e, 'a) result \<Rightarrow> bool" where
  "is_ok r = (case r of Inl _ \<Rightarrow> False | Inr _ \<Rightarrow> True)"

lemma is_ok_simps [simp]: "is_ok (Inr x)" "\<not> is_ok (Inl e)"
  by (simp_all add: is_ok_def)

lemma is_ok_ex: "is_ok r \<longleftrightarrow> (\<exists>x. r = Inr x)"
  by (cases r) auto

text \<open>\<^verbatim>\<open>opt.ok_or(e)\<close>\<close>

definition ok_or :: "'e \<Rightarrow> 'a option \<Rightarrow> ('e, 'a) result" where
  "ok_or e x = (case x of None \<Rightarrow> Inl e | Some a \<Rightarrow> Inr a)"

lemma ok_or_simps [simp]: "ok_or e None = Inl e" "ok_or e (Some a) = Inr a"
  by (simp_all add: ok_or_def)

lemma map_filter_append: "List.map_filter f (xs @ ys) = List.map_filter f xs @ List.map_filter f ys"
  by (simp add: List.map_filter_def)

subsection \<open>Hash maps\<close>

type_synonym ('k, 'v) hmap = "('k \<times> 'v) list"

text \<open>\<^verbatim>\<open>map.entry(k).or_default().extend(vs)\<close>\<close>

fun hm_extend :: "'k \<Rightarrow> 'v list \<Rightarrow> ('k, 'v list) hmap \<Rightarrow> ('k, 'v list) hmap" where
  "hm_extend k vs [] = [(k, vs)]"
| "hm_extend k vs ((k', ws) # m) =
     (if k = k' then (k', ws @ vs) # m else (k', ws) # hm_extend k vs m)"

text \<open>\<^verbatim>\<open>map.get(k).cloned().unwrap_or_default()\<close>\<close>

definition hm_vals :: "('k, 'v list) hmap \<Rightarrow> 'k \<Rightarrow> 'v list" where
  "hm_vals m k = (case map_of m k of None \<Rightarrow> [] | Some vs \<Rightarrow> vs)"

definition hm_ok :: "('k, 'v) hmap \<Rightarrow> bool" where
  "hm_ok m \<longleftrightarrow> distinct (map fst m)"

lemma map_of_hm_extend [hmap_simps]:
  "map_of (hm_extend k vs m) k' =
     (if k' = k then Some (hm_vals m k @ vs) else map_of m k')"
  by (induction m) (auto simp: hm_vals_def)

lemma keys_hm_extend [hmap_simps]:
  "fst ` set (hm_extend k vs m) = insert k (fst ` set m)"
proof (induction m)
  case (Cons p m)
  then show ?case by (cases p) auto
qed simp

lemma hm_ok_Nil [simp]: "hm_ok []"
  by (simp add: hm_ok_def)

lemma hm_ok_extend: "hm_ok m \<Longrightarrow> hm_ok (hm_extend k vs m)"
  unfolding hm_ok_def
proof (induction m)
  case (Cons p m)
  have "fst ` set (hm_extend k vs m) = insert k (fst ` set m)" by (rule keys_hm_extend)
  with Cons show ?case by (cases p) auto
qed simp

lemma hm_vals_extend [hmap_simps]:
  "hm_vals (hm_extend k vs m) k' = (if k' = k then hm_vals m k @ vs else hm_vals m k')"
  by (simp add: hm_vals_def map_of_hm_extend)

lemma hm_vals_Nil [simp]: "hm_vals [] k = []"
  by (simp add: hm_vals_def)

lemma hm_vals_Some: "map_of m k = Some vs \<Longrightarrow> hm_vals m k = vs"
  by (simp add: hm_vals_def)

lemma hm_map_of_perm:
  assumes "hm_ok m" and "set m = set m'" and "hm_ok m'"
  shows "map_of m = map_of m'"
  using assms by (auto simp: hm_ok_def map_of_inject_set)

text \<open>A look-up that must hold some value among the listed ones.\<close>

definition hm_has :: "('k, 'v list) hmap \<Rightarrow> 'k \<Rightarrow> 'v \<Rightarrow> bool" where
  "hm_has m k v = (case map_of m k of None \<Rightarrow> False | Some vs \<Rightarrow> v \<in> set vs)"

lemma hm_has_vals: "hm_has m k v \<longleftrightarrow> v \<in> set (hm_vals m k)"
  by (simp add: hm_has_def hm_vals_def split: option.split)

lemma hm_has_set: "hm_ok m \<Longrightarrow> hm_has m a v \<longleftrightarrow> (\<exists>vs. (a, vs) \<in> set m \<and> v \<in> set vs)"
proof -
  assume "hm_ok m"
  then have "map_of m a = Some vs \<longleftrightarrow> (a, vs) \<in> set m" for vs
    by (simp add: hm_ok_def map_of_eq_Some_iff)
  moreover have "hm_has m a v \<longleftrightarrow> (\<exists>vs. map_of m a = Some vs \<and> v \<in> set vs)"
    by (simp add: hm_has_def split: option.split)
  ultimately show ?thesis by simp
qed

subsection \<open>Lists\<close>

lemma set_sort_dedup [simp]: "set (remdups_adj (sort xs)) = set xs"
  by simp

lemma sorted_distinct_dedup: "sorted xs \<Longrightarrow> distinct (remdups_adj (xs :: 'a::linorder list))"
  by (induction xs rule: remdups_adj.induct) (auto dest: order.antisym)

lemma sorted_dedup_strict: "sorted_wrt (<) (remdups_adj (sort (xs :: 'a::linorder list)))"
  by (simp add: strict_sorted_iff sorted_distinct_dedup sorted_remdups_adj)

lemma sort_dedup_set_eq:
  "set xs = set ys \<Longrightarrow> remdups_adj (sort xs) = remdups_adj (sort (ys :: 'a::linorder list))"
  using strict_sorted_equal [OF sorted_dedup_strict [of xs] sorted_dedup_strict [of ys]] by simp

lemma fold_invariant:
  "\<lbrakk>P s; \<And>x s. x \<in> set xs \<Longrightarrow> P s \<Longrightarrow> P (f x s)\<rbrakk> \<Longrightarrow> P (fold f xs s)"
  by (induction xs arbitrary: s) auto

end
