(* ===== verification/Rust_Text.thy ===== *)
theory Rust_Text
  imports Ctl_Prelude
begin

text \<open>
  The string operations of Rust's standard library that the program calls. A
  \<^verbatim>\<open>String\<close> or \<^verbatim>\<open>&str\<close> is its UTF-8 byte sequence, one
  \<open>char\<close> per byte, so that \<open>length\<close> is \<^verbatim>\<open>len()\<close> and the order of
  \<^verbatim>\<open>Ord for str\<close> is the lexicographic order of the bytes. A byte buffer
  \<^verbatim>\<open>[u8]\<close> has the same type. Operations on characters rather than bytes
  (\<open>trim\<close>, \<open>is_control\<close>) go through \<open>uchars\<close>, which groups a byte sequence
  into its UTF-8 characters.
\<close>

abbreviation tab :: char where "tab \<equiv> CHR 0x09"
abbreviation nl :: char where "nl \<equiv> CHR 0x0A"
abbreviation cr :: char where "cr \<equiv> CHR 0x0D"
abbreviation crlf :: string where "crlf \<equiv> [cr, nl]"
abbreviation quote_char :: char where "quote_char \<equiv> CHR 0x22"
abbreviation backslash :: char where "backslash \<equiv> CHR 0x5C"

definition byte :: "char \<Rightarrow> nat" where
  "byte c = of_char c"

lemma byte_less [simp]: "byte c < 256"
proof -
  have "of_char c mod 256 = (of_char c :: nat)" by (cases c) simp
  then show ?thesis by (metis byte_def mod_less_divisor zero_less_numeral)
qed

subsection \<open>Bytes\<close>

definition is_ascii_digit :: "char \<Rightarrow> bool" where
  "is_ascii_digit c \<longleftrightarrow> 48 \<le> byte c \<and> byte c \<le> 57"

definition is_ascii_upper :: "char \<Rightarrow> bool" where
  "is_ascii_upper c \<longleftrightarrow> 65 \<le> byte c \<and> byte c \<le> 90"

definition is_ascii_lower :: "char \<Rightarrow> bool" where
  "is_ascii_lower c \<longleftrightarrow> 97 \<le> byte c \<and> byte c \<le> 122"

definition is_ascii_alphanumeric :: "char \<Rightarrow> bool" where
  "is_ascii_alphanumeric c \<longleftrightarrow> is_ascii_digit c \<or> is_ascii_upper c \<or> is_ascii_lower c"

definition is_ascii_hexdigit :: "char \<Rightarrow> bool" where
  "is_ascii_hexdigit c \<longleftrightarrow> is_ascii_digit c \<or> (65 \<le> byte c \<and> byte c \<le> 70) \<or>
     (97 \<le> byte c \<and> byte c \<le> 102)"

lemmas ascii_class_defs =
  is_ascii_digit_def is_ascii_upper_def is_ascii_lower_def is_ascii_alphanumeric_def
  is_ascii_hexdigit_def

definition lower_char :: "char \<Rightarrow> char" where
  "lower_char c = (if is_ascii_upper c then char_of (byte c + 32) else c)"

definition to_ascii_lowercase :: "string \<Rightarrow> string" where
  "to_ascii_lowercase = map lower_char"

definition eq_ignore_ascii_case :: "string \<Rightarrow> string \<Rightarrow> bool" where
  "eq_ignore_ascii_case a b \<longleftrightarrow> to_ascii_lowercase a = to_ascii_lowercase b"

lemma length_to_ascii_lowercase [simp]: "length (to_ascii_lowercase s) = length s"
  by (simp add: to_ascii_lowercase_def)

lemma lower_char_idem [simp]: "lower_char (lower_char c) = lower_char c"
  by (auto simp: lower_char_def is_ascii_upper_def byte_def)

lemma to_ascii_lowercase_idem [simp]: "to_ascii_lowercase (to_ascii_lowercase s) = to_ascii_lowercase s"
  by (simp add: to_ascii_lowercase_def)

subsection \<open>UTF-8 characters\<close>

text \<open>A continuation byte has the bit pattern \<open>10xxxxxx\<close>.\<close>

fun is_cont :: "char \<Rightarrow> bool" where
  "is_cont (Char b0 b1 b2 b3 b4 b5 b6 b7) \<longleftrightarrow> b7 \<and> \<not> b6"

declare length_dropWhile_le [termination_simp]

fun uchars :: "string \<Rightarrow> string list" where
  "uchars [] = []"
| "uchars (c # cs) = (c # takeWhile is_cont cs) # uchars (dropWhile is_cont cs)"

lemma concat_uchars [simp]: "concat (uchars s) = s"
  by (induction s rule: uchars.induct) auto

definition is_group :: "string \<Rightarrow> bool" where
  "is_group g \<longleftrightarrow> g \<noteq> [] \<and> list_all is_cont (tl g)"

definition grouped :: "string list \<Rightarrow> bool" where
  "grouped gs \<longleftrightarrow> list_all is_group gs \<and> list_all (\<lambda>g. \<not> is_cont (hd g)) (tl gs)"

lemma takeWhile_cont_group:
  "list_all is_cont cs \<Longrightarrow> s = [] \<or> \<not> is_cont (hd s) \<Longrightarrow> takeWhile is_cont (cs @ s) = cs"
  by (induction cs) (cases s, auto)

lemma dropWhile_cont_group:
  "list_all is_cont cs \<Longrightarrow> s = [] \<or> \<not> is_cont (hd s) \<Longrightarrow> dropWhile is_cont (cs @ s) = s"
  by (induction cs) (cases s, auto)

lemma uchars_group_append:
  assumes "is_group g" and "s = [] \<or> \<not> is_cont (hd s)"
  shows "uchars (g @ s) = g # uchars s"
proof -
  obtain c cs where g: "g = c # cs" using assms(1) by (cases g) (auto simp: is_group_def)
  then have cs: "list_all is_cont cs" using assms(1) by (simp add: is_group_def)
  show ?thesis
    using takeWhile_cont_group [OF cs assms(2)] dropWhile_cont_group [OF cs assms(2)] g by simp
qed

lemma uchars_concat: "grouped gs \<Longrightarrow> uchars (concat gs) = gs"
proof (induction gs)
  case (Cons g gs)
  have hd: "concat gs = [] \<or> \<not> is_cont (hd (concat gs))"
    using Cons.prems by (cases gs) (auto simp: grouped_def is_group_def neq_Nil_conv)
  have "grouped gs" using Cons.prems by (cases gs) (auto simp: grouped_def)
  with Cons.IH uchars_group_append [OF _ hd, of g] Cons.prems show ?case
    by (simp add: grouped_def)
qed simp

lemma grouped_uchars: "grouped (uchars s)"
proof (induction s rule: uchars.induct)
  case (2 c cs)
  have "list_all is_cont (takeWhile is_cont cs)"
    by (auto simp: list_all_iff dest: set_takeWhileD)
  moreover have "list_all (\<lambda>g. \<not> is_cont (hd g)) (uchars (dropWhile is_cont cs))"
  proof (cases "dropWhile is_cont cs")
    case (Cons d ds)
    then have "\<not> is_cont d" by (metis hd_dropWhile list.distinct(1) list.sel(1))
    with 2 Cons show ?thesis by (simp add: grouped_def)
  next
    case Nil
    show ?thesis unfolding Nil by simp
  qed
  ultimately show ?case using 2 by (auto simp: grouped_def is_group_def)
qed (simp add: grouped_def)

lemma grouped_dropWhile: "grouped gs \<Longrightarrow> grouped (dropWhile P gs)"
proof (induction gs)
  case (Cons g gs)
  then show ?case by (cases gs) (auto simp: grouped_def)
qed (simp add: grouped_def)

lemma grouped_append1: "grouped (xs @ ys) \<Longrightarrow> grouped xs"
  by (cases xs) (auto simp: grouped_def)

lemma uchars_append:
  assumes "\<not> is_cont c"
  shows "uchars (xs @ c # ys) = uchars xs @ uchars (c # ys)"
proof -
  have "grouped (uchars xs @ uchars (c # ys))"
    using grouped_uchars [of xs] grouped_uchars [of "c # ys"] assms
    by (cases "uchars xs") (auto simp: grouped_def)
  then have "uchars (concat (uchars xs @ uchars (c # ys))) = uchars xs @ uchars (c # ys)"
    by (rule uchars_concat)
  then show ?thesis by (simp del: uchars.simps)
qed

definition ascii :: "string \<Rightarrow> bool" where
  "ascii s \<longleftrightarrow> list_all (\<lambda>c. byte c < 128) s"

lemma ascii_not_cont: "byte c < 128 \<Longrightarrow> \<not> is_cont c"
  by (cases c) (auto simp: byte_def of_char_Char split: if_splits)

lemma uchars_ascii: "ascii s \<Longrightarrow> uchars s = map (\<lambda>c. [c]) s"
proof (induction s)
  case (Cons c cs)
  have "takeWhile is_cont cs = [] \<and> dropWhile is_cont cs = cs"
    using Cons.prems by (cases cs) (auto simp: ascii_def ascii_not_cont)
  with Cons show ?case by (simp add: ascii_def)
qed simp

subsection \<open>White space and trimming\<close>

text \<open>The UTF-8 encodings of the characters with the Unicode property \<open>White_Space\<close>.\<close>

definition whitespace_chars :: "string list" where
  "whitespace_chars =
     [[CHR 0x20], [CHR 0x09], [CHR 0x0A], [CHR 0x0D], [CHR 0x0B], [CHR 0x0C],
      [CHR 0xC2, CHR 0x85], [CHR 0xC2, CHR 0xA0], [CHR 0xE1, CHR 0x9A, CHR 0x80],
      [CHR 0xE2, CHR 0x80, CHR 0x80], [CHR 0xE2, CHR 0x80, CHR 0x81],
      [CHR 0xE2, CHR 0x80, CHR 0x82], [CHR 0xE2, CHR 0x80, CHR 0x83],
      [CHR 0xE2, CHR 0x80, CHR 0x84], [CHR 0xE2, CHR 0x80, CHR 0x85],
      [CHR 0xE2, CHR 0x80, CHR 0x86], [CHR 0xE2, CHR 0x80, CHR 0x87],
      [CHR 0xE2, CHR 0x80, CHR 0x88], [CHR 0xE2, CHR 0x80, CHR 0x89],
      [CHR 0xE2, CHR 0x80, CHR 0x8A], [CHR 0xE2, CHR 0x80, CHR 0xA8],
      [CHR 0xE2, CHR 0x80, CHR 0xA9], [CHR 0xE2, CHR 0x80, CHR 0xAF],
      [CHR 0xE2, CHR 0x81, CHR 0x9F], [CHR 0xE3, CHR 0x80, CHR 0x80]]"

definition is_whitespace :: "string \<Rightarrow> bool" where
  "is_whitespace g \<longleftrightarrow> List.member whitespace_chars g"

definition trim_start :: "string \<Rightarrow> string" where
  "trim_start s = concat (dropWhile is_whitespace (uchars s))"

definition trim_end :: "string \<Rightarrow> string" where
  "trim_end s = concat (rev (dropWhile is_whitespace (rev (uchars s))))"

definition trim :: "string \<Rightarrow> string" where
  "trim s = trim_end (trim_start s)"

lemma dropWhile_rev_commute:
  "dropWhile P (rev (dropWhile P (rev xs))) = rev (dropWhile P (rev (dropWhile P xs)))"
proof (induction xs)
  case (Cons x xs)
  show ?case
  proof (cases "\<forall>y\<in>set xs. P y")
    case True
    then have d: "dropWhile P xs = []" by (simp only: dropWhile_eq_Nil_conv)
    have e: "dropWhile P (rev xs @ [x]) = dropWhile P [x]"
      using True by (intro dropWhile_append2) auto
    show ?thesis by (simp only: rev.simps dropWhile.simps d e) (simp add: d e)
  next
    case False
    then obtain y where y: "y \<in> set (rev xs)" "\<not> P y" by auto
    have "dropWhile P (rev xs @ [x]) = dropWhile P (rev xs) @ [x]"
      using y by (rule dropWhile_append1)
    with Cons.IH show ?thesis by simp
  qed
qed simp

lemma uchars_trim_start: "uchars (trim_start s) = dropWhile is_whitespace (uchars s)"
  by (simp add: trim_start_def uchars_concat grouped_dropWhile grouped_uchars)

lemma grouped_dropWhile_rev: "grouped gs \<Longrightarrow> grouped (rev (dropWhile P (rev gs)))"
  by (metis grouped_append1 rev_append rev_rev_ident takeWhile_dropWhile_id)

lemma uchars_trim_end: "uchars (trim_end s) = rev (dropWhile is_whitespace (rev (uchars s)))"
  by (simp add: trim_end_def uchars_concat grouped_dropWhile_rev grouped_uchars)

lemma trim_eq: "trim s = concat (rev (dropWhile is_whitespace (rev (dropWhile is_whitespace (uchars s)))))"
  by (simp add: trim_def trim_end_def uchars_trim_start)

lemma trim_trim_end [rust_str]: "trim (trim_end s) = trim s"
  by (simp add: trim_eq uchars_trim_end dropWhile_rev_commute)

lemma trim_idem [rust_str]: "trim (trim s) = trim s"
  by (simp add: trim_def trim_end_def trim_start_def uchars_trim_end uchars_trim_start
      dropWhile_rev_commute [symmetric] uchars_concat grouped_dropWhile grouped_dropWhile_rev
      grouped_uchars)

lemma set_trim_start: "set (trim_start s) \<subseteq> set s"
proof -
  have "set (trim_start s) \<subseteq> set (concat (uchars s))"
    unfolding trim_start_def set_concat by (auto dest: set_dropWhileD)
  then show ?thesis by simp
qed

lemma set_trim_end: "set (trim_end s) \<subseteq> set s"
proof -
  have "set (trim_end s) \<subseteq> set (concat (uchars s))"
    unfolding trim_end_def set_concat by (auto dest!: set_dropWhileD)
  then show ?thesis by simp
qed

lemma set_trim: "set (trim s) \<subseteq> set s"
  using set_trim_end [of "trim_start s"] set_trim_start [of s] by (auto simp: trim_def)

lemma is_whitespace_cr [simp]: "is_whitespace [cr]"
  by (simp add: is_whitespace_def whitespace_chars_def)

lemma trim_append_cr: "trim (s @ [cr]) = trim s"
proof -
  have "uchars (s @ [cr]) = uchars s @ [[cr]]"
    using uchars_append [of cr s "[]"] by simp
  then have "trim_end (s @ [cr]) = trim_end s" by (simp add: trim_end_def)
  then show ?thesis by (metis trim_trim_end)
qed

definition ws_byte :: "char \<Rightarrow> bool" where
  "ws_byte c \<longleftrightarrow> is_whitespace [c]"

lemma ws_byte_iff: "ws_byte c \<longleftrightarrow> byte c \<in> {9, 10, 11, 12, 13, 32}"
proof -
  have "ws_byte c \<longleftrightarrow> c \<in> {CHR 0x20, CHR 0x09, CHR 0x0A, CHR 0x0D, CHR 0x0B, CHR 0x0C}"
    by (simp add: ws_byte_def is_whitespace_def whitespace_chars_def)
  also have "\<dots> \<longleftrightarrow> byte c \<in> {9, 10, 11, 12, 13, 32}"
    by (cases c) (auto simp: byte_def of_char_Char split: if_splits)
  finally show ?thesis .
qed

lemma trim_plain:
  assumes "ascii s" and "s \<noteq> [] \<Longrightarrow> \<not> ws_byte (hd s)" and "s \<noteq> [] \<Longrightarrow> \<not> ws_byte (last s)"
  shows "trim s = s"
proof (cases s)
  case (Cons c cs)
  obtain ds d where d: "s = ds @ [d]" using Cons by (metis list.distinct(1) rev_exhaust)
  have u: "uchars s = map (\<lambda>c. [c]) s" by (rule uchars_ascii [OF assms(1)])
  have "dropWhile is_whitespace (uchars s) = uchars s"
    using assms(2) Cons u by (simp add: ws_byte_def)
  moreover have "dropWhile is_whitespace (rev (uchars s)) = rev (uchars s)"
    using assms(3) d u by (simp add: ws_byte_def)
  ultimately show ?thesis by (simp add: trim_eq)
qed (simp add: trim_eq)

subsection \<open>Lines and separators\<close>

fun split_on :: "char \<Rightarrow> string \<Rightarrow> string list" where
  "split_on c [] = [[]]"
| "split_on c (x # xs) =
     (if x = c then [] # split_on c xs
      else (case split_on c xs of [] \<Rightarrow> [[x]] | y # ys \<Rightarrow> (x # y) # ys))"

definition strip_cr :: "string \<Rightarrow> string" where
  "strip_cr l = (if l \<noteq> [] \<and> last l = cr then butlast l else l)"

text \<open>
  \<^verbatim>\<open>str::lines\<close>: the pieces ended by a line feed, without it and without one
  carriage return before it, and the rest if it is not empty.
\<close>

definition lines :: "string \<Rightarrow> string list" where
  "lines s = (let ps = split_on nl s in
     map strip_cr (butlast ps) @ (if last ps = [] then [] else [last ps]))"

lemma split_on_nonempty [simp]: "split_on c s \<noteq> []"
  by (induction s) (auto split: list.splits)

lemma split_on_append_sep: "split_on c (xs @ c # ys) = split_on c xs @ split_on c ys"
proof (induction xs)
  case (Cons x xs)
  then show ?case by (cases "split_on c xs") auto
qed simp

lemma split_on_plain [rust_str]: "c \<notin> set xs \<Longrightarrow> split_on c xs = [xs]"
  by (induction xs) auto

lemma split_on_no_sep: "p \<in> set (split_on c s) \<Longrightarrow> c \<notin> set p"
proof (induction s arbitrary: p)
  case (Cons x xs)
  then show ?case
    by (cases "split_on c xs") (auto split: if_splits)
qed auto

lemma set_split_on: "p \<in> set (split_on c s) \<Longrightarrow> set p \<subseteq> set s"
proof (induction s arbitrary: p)
  case (Cons x xs)
  then show ?case
    by (cases "split_on c xs") (auto split: if_splits; blast)+
qed auto

lemma split_on_join: "c \<notin> set x \<Longrightarrow> split_on c (x @ c # s) = x # split_on c s"
  by (simp add: split_on_append_sep split_on_plain)

lemma lines_Nil [simp]: "lines [] = []"
  by (simp add: lines_def)

lemma lines_line: "nl \<notin> set l \<Longrightarrow> lines (l @ nl # s) = strip_cr l # lines s"
  by (simp add: lines_def split_on_join Let_def)

lemma lines_rest: "nl \<notin> set l \<Longrightarrow> l \<noteq> [] \<Longrightarrow> lines l = [l]"
  by (simp add: lines_def split_on_plain)

lemma set_strip_cr: "set (strip_cr l) \<subseteq> set l"
  by (auto simp: strip_cr_def dest: in_set_butlastD)

lemma lines_no_nl: "l \<in> set (lines s) \<Longrightarrow> nl \<notin> set l"
  using split_on_no_sep [of _ nl s] set_strip_cr
  by (fastforce simp: lines_def Let_def split: if_splits dest: in_set_butlastD)

lemma trim_strip_cr [rust_str]: "trim (strip_cr l) = trim l"
  by (metis strip_cr_def append_butlast_last_id trim_append_cr)

text \<open>Lines written one by one are read back, up to a carriage return at their end.\<close>

definition unlines :: "string list \<Rightarrow> string" where
  "unlines ls = concat (map (\<lambda>l. l @ [nl]) ls)"

lemma unlines_simps [simp]: "unlines [] = []" "unlines (l # ls) = l @ nl # unlines ls"
  by (simp_all add: unlines_def)

lemma unlines_append: "unlines (xs @ ys) = unlines xs @ unlines ys"
  by (simp add: unlines_def)

lemma lines_unlines: "\<forall>l\<in>set ls. nl \<notin> set l \<Longrightarrow> lines (unlines ls) = map strip_cr ls"
  by (induction ls) (auto simp: lines_line)

lemma lines_unlines_append:
  "\<forall>l\<in>set ls. nl \<notin> set l \<Longrightarrow> lines (unlines ls @ s) = map strip_cr ls @ lines s"
  by (induction ls) (auto simp: lines_line)

text \<open>The pieces of a list separated by \<open>c\<close>, each trimmed, the empty ones dropped.\<close>

definition pieces :: "char \<Rightarrow> string \<Rightarrow> string list" where
  "pieces c s = filter (\<lambda>p. p \<noteq> []) (map trim (split_on c s))"

abbreviation csv :: "string \<Rightarrow> string list" where
  "csv \<equiv> pieces CHR '',''"

lemma pieces_Nil [simp]: "pieces c [] = []"
  by (simp add: pieces_def trim_eq)

lemma set_pieces: "p \<in> set (pieces c s) \<Longrightarrow> set p \<subseteq> set s"
proof -
  assume "p \<in> set (pieces c s)"
  then obtain q where q: "q \<in> set (split_on c s)" "p = trim q" by (auto simp: pieces_def)
  from set_trim [of q] set_split_on [OF q(1)] q(2) show ?thesis by blast
qed

lemma pieces_trimmed: "p \<in> set (pieces c s) \<Longrightarrow> trim p = p \<and> p \<noteq> []"
  by (auto simp: pieces_def trim_idem)

lemma pieces_no_sep: "p \<in> set (pieces c s) \<Longrightarrow> c \<notin> set p"
  using split_on_no_sep set_trim by (fastforce simp: pieces_def)

lemma pieces_cons:
  "c \<notin> set x \<Longrightarrow> trim x = x \<Longrightarrow> x \<noteq> [] \<Longrightarrow> pieces c (x @ c # s) = x # pieces c s"
  by (simp add: pieces_def split_on_join)

lemma pieces_single: "c \<notin> set x \<Longrightarrow> trim x = x \<Longrightarrow> x \<noteq> [] \<Longrightarrow> pieces c x = [x]"
  by (simp add: pieces_def split_on_plain)

text \<open>\<^verbatim>\<open>parts.join(sep)\<close>\<close>

fun join :: "string \<Rightarrow> string list \<Rightarrow> string" where
  "join sep [] = []"
| "join sep [x] = x"
| "join sep (x # y # xs) = x @ sep @ join sep (y # xs)"

lemma join_Cons: "xs \<noteq> [] \<Longrightarrow> join sep (x # xs) = x @ sep @ join sep xs"
  by (cases xs) simp_all

lemma set_join: "c \<in> set (join sep xs) \<Longrightarrow> c \<in> set sep \<or> (\<exists>x\<in>set xs. c \<in> set x)"
  by (induction sep xs rule: join.induct) auto

lemma split_on_join_sep:
  "xs \<noteq> [] \<Longrightarrow> \<forall>x\<in>set xs. c \<notin> set x \<Longrightarrow> split_on c (join [c] xs) = xs"
  by (induction "[c]" xs rule: join.induct) (simp_all add: split_on_plain split_on_join)

lemma pieces_join:
  "\<forall>x\<in>set xs. c \<notin> set x \<and> trim x = x \<and> x \<noteq> [] \<Longrightarrow> pieces c (join [c] xs) = xs"
proof (cases "xs = []")
  case False
  assume x: "\<forall>x\<in>set xs. c \<notin> set x \<and> trim x = x \<and> x \<noteq> []"
  then have "map trim xs = xs" "filter (\<lambda>p. p \<noteq> []) xs = xs" by (auto intro: map_idI)
  with x False show ?thesis by (simp add: pieces_def split_on_join_sep)
qed simp

end
