(* ===== verification/Rust_Num.thy ===== *)
theory Rust_Num
  imports Rust_Text
begin

text \<open>
  Numbers and substrings of the standard library: decimal and hexadecimal output, the
  parsing of unsigned integers with their overflow check, prefix and substring search,
  and the UTF-8 validation of \<^verbatim>\<open>str::from_utf8\<close> with its lossy variant.
\<close>

subsection \<open>Decimal numbers\<close>

definition digit_char :: "nat \<Rightarrow> char" where
  "digit_char n = char_of (48 + n)"

fun dec_str :: "nat \<Rightarrow> string" where
  "dec_str n = (if n < 10 then [digit_char n] else dec_str (n div 10) @ [digit_char (n mod 10)])"

declare dec_str.simps [simp del]

definition digit_val :: "char \<Rightarrow> nat" where
  "digit_val c = byte c - 48"

definition digits_val :: "string \<Rightarrow> nat" where
  "digits_val s = foldl (\<lambda>n c. 10 * n + digit_val c) 0 s"

text \<open>
  \<^verbatim>\<open>s.parse::<uN>()\<close> with \<open>bound = 2 ^ N\<close>: an optional plus sign, at least one
  digit, nothing else, and a value that fits.
\<close>

definition parse_uint :: "nat \<Rightarrow> string \<Rightarrow> nat option" where
  "parse_uint bound s =
     (let ds = (case s of c # cs \<Rightarrow> if c = CHR ''+'' then cs else s | [] \<Rightarrow> [])
      in if ds \<noteq> [] \<and> list_all is_ascii_digit ds \<and> digits_val ds < bound
         then Some (digits_val ds) else None)"

abbreviation parse_u64 :: "string \<Rightarrow> nat option" where "parse_u64 \<equiv> parse_uint (2 ^ 64)"
abbreviation parse_u16 :: "string \<Rightarrow> nat option" where "parse_u16 \<equiv> parse_uint (2 ^ 16)"

text \<open>\<^verbatim>\<open>usize\<close> is taken at 64 bits, as on every platform the program is released for.\<close>

abbreviation parse_usize :: "string \<Rightarrow> nat option" where "parse_usize \<equiv> parse_uint (2 ^ 64)"

lemma byte_digit_char [simp]: "n < 10 \<Longrightarrow> byte (digit_char n) = 48 + n"
  by (simp add: byte_def digit_char_def)

lemma digit_char_digit: "n < 10 \<Longrightarrow> is_ascii_digit (digit_char n)"
  by (simp add: is_ascii_digit_def)

lemma dec_str_digits: "list_all is_ascii_digit (dec_str n)"
proof (induction n rule: dec_str.induct)
  case (1 n)
  then show ?case by (subst dec_str.simps) (simp add: digit_char_digit)
qed

lemma dec_str_nonempty [simp]: "dec_str n \<noteq> []"
  by (subst dec_str.simps) simp

lemma digits_val_snoc: "digits_val (s @ [c]) = 10 * digits_val s + digit_val c"
  by (simp add: digits_val_def)

lemma digits_val_dec_str [simp]: "digits_val (dec_str n) = n"
proof (induction n rule: dec_str.induct)
  case (1 n)
  show ?case
  proof (cases "n < 10")
    case True
    then show ?thesis by (subst dec_str.simps) (simp add: digits_val_def digit_val_def)
  next
    case False
    with 1 show ?thesis
      by (subst dec_str.simps) (simp add: digits_val_snoc digit_val_def)
  qed
qed

lemma parse_uint_dec_str: "n < bound \<Longrightarrow> parse_uint bound (dec_str n) = Some n"
proof -
  assume n: "n < bound"
  obtain d ds where d: "dec_str n = d # ds" by (cases "dec_str n") auto
  then have "is_ascii_digit d" using dec_str_digits [of n] by simp
  then have "d \<noteq> CHR ''+''" by (auto simp: is_ascii_digit_def byte_def)
  with n d show ?thesis
    using dec_str_digits [of n] digits_val_dec_str [of n]
    by (simp add: parse_uint_def)
qed

lemma parse_uint_bound: "parse_uint bound s = Some n \<Longrightarrow> n < bound"
  by (auto simp: parse_uint_def Let_def split: if_splits)

lemma dec_str_inject: "dec_str m = dec_str n \<longleftrightarrow> m = n"
  by (metis digits_val_dec_str)

subsection \<open>Hexadecimal digits\<close>

definition hex_char :: "nat \<Rightarrow> char" where
  "hex_char n = (if n < 10 then char_of (48 + n) else char_of (87 + n))"

text \<open>\<^verbatim>\<open>{b:02x}\<close>\<close>

definition hex_byte :: "char \<Rightarrow> string" where
  "hex_byte c = [hex_char (byte c div 16), hex_char (byte c mod 16)]"

text \<open>\<^verbatim>\<open>{byte:02X}\<close>\<close>

definition hex_char_upper :: "nat \<Rightarrow> char" where
  "hex_char_upper n = (if n < 10 then char_of (48 + n) else char_of (55 + n))"

text \<open>\<^verbatim>\<open>char::to_digit(16)\<close>\<close>

definition hex_digit_val :: "char \<Rightarrow> nat option" where
  "hex_digit_val c =
     (if is_ascii_digit c then Some (byte c - 48)
      else if 65 \<le> byte c \<and> byte c \<le> 70 then Some (byte c - 55)
      else if 97 \<le> byte c \<and> byte c \<le> 102 then Some (byte c - 87)
      else None)"

lemma byte_hex_char: "n < 16 \<Longrightarrow> byte (hex_char n) = (if n < 10 then 48 + n else 87 + n)"
  by (auto simp: hex_char_def byte_def)

lemma hex_digit_val_hex_char [simp]: "n < 16 \<Longrightarrow> hex_digit_val (hex_char n) = Some n"
  by (auto simp: hex_digit_val_def byte_hex_char is_ascii_digit_def)

lemma byte_hex_char_upper: "n < 16 \<Longrightarrow> byte (hex_char_upper n) = (if n < 10 then 48 + n else 55 + n)"
  by (auto simp: hex_char_upper_def byte_def)

lemma hex_digit_val_hex_char_upper [simp]: "n < 16 \<Longrightarrow> hex_digit_val (hex_char_upper n) = Some n"
  by (auto simp: hex_digit_val_def byte_hex_char_upper is_ascii_digit_def)

lemma hex_digit_val_less: "hex_digit_val c = Some n \<Longrightarrow> n < 16"
  by (auto simp: hex_digit_val_def is_ascii_digit_def split: if_splits)

lemma hex_char_lower: "n < 16 \<Longrightarrow> is_ascii_hexdigit (hex_char n) \<and> lower_char (hex_char n) = hex_char n"
  by (auto simp: is_ascii_hexdigit_def is_ascii_digit_def byte_hex_char lower_char_def is_ascii_upper_def)

definition hex_str :: "string \<Rightarrow> string" where
  "hex_str bs = concat (map hex_byte bs)"

lemma byte_div16 [simp]: "byte c div 16 < 16"
  using byte_less [of c] by (simp add: less_mult_imp_div_less)

lemma length_hex_str [simp]: "length (hex_str bs) = 2 * length bs"
  by (induction bs) (simp_all add: hex_str_def hex_byte_def)

lemma hex_str_hexdigits: "list_all is_ascii_hexdigit (hex_str bs)"
  by (induction bs) (simp_all add: hex_str_def hex_byte_def hex_char_lower)

lemma hex_str_lower: "to_ascii_lowercase (hex_str bs) = hex_str bs"
  by (induction bs) (simp_all add: hex_str_def hex_byte_def hex_char_lower to_ascii_lowercase_def)

lemma hex_char_inject: "m < 16 \<Longrightarrow> n < 16 \<Longrightarrow> hex_char m = hex_char n \<longleftrightarrow> m = n"
  by (metis hex_digit_val_hex_char option.inject)

lemma byte_inject: "byte c = byte d \<longleftrightarrow> c = d"
  by (simp add: byte_def)

lemma hex_byte_inject: "hex_byte c = hex_byte d \<longleftrightarrow> c = d"
proof -
  have "byte c = byte d" if "byte c div 16 = byte d div 16" "byte c mod 16 = byte d mod 16"
    using that by (metis div_mult_mod_eq)
  then show ?thesis
    by (auto simp: hex_byte_def hex_char_inject) (use byte_inject in blast)
qed

lemma hex_str_inject: "hex_str a = hex_str b \<Longrightarrow> a = b"
proof (induction a arbitrary: b)
  case Nil
  then show ?case by (cases b) (simp_all add: hex_str_def hex_byte_def)
next
  case (Cons x a)
  then obtain y b' where b: "b = y # b'" by (cases b) (simp_all add: hex_str_def hex_byte_def)
  with Cons.prems have "hex_byte x = hex_byte y \<and> hex_str a = hex_str b'"
    by (simp add: hex_str_def hex_byte_def)
  with Cons.IH b show ?case by (simp add: hex_byte_inject)
qed

subsection \<open>Prefixes and substrings\<close>

definition starts_with :: "string \<Rightarrow> string \<Rightarrow> bool" where
  "starts_with p s \<longleftrightarrow> take (length p) s = p"

definition strip_prefix :: "string \<Rightarrow> string \<Rightarrow> string option" where
  "strip_prefix p s = (if starts_with p s then Some (drop (length p) s) else None)"

definition strip_suffix :: "string \<Rightarrow> string \<Rightarrow> string option" where
  "strip_suffix p s = (if starts_with (rev p) (rev s) then Some (take (length s - length p) s) else None)"

fun find_str :: "string \<Rightarrow> string \<Rightarrow> nat option" where
  "find_str p [] = (if p = [] then Some 0 else None)"
| "find_str p (c # cs) = (if starts_with p (c # cs) then Some 0 else map_option Suc (find_str p cs))"

definition contains_str :: "string \<Rightarrow> string \<Rightarrow> bool" where
  "contains_str p s \<longleftrightarrow> find_str p s \<noteq> None"

fun find_char :: "(char \<Rightarrow> bool) \<Rightarrow> string \<Rightarrow> nat option" where
  "find_char P [] = None"
| "find_char P (c # cs) = (if P c then Some 0 else map_option Suc (find_char P cs))"

definition split_once :: "char \<Rightarrow> string \<Rightarrow> (string \<times> string) option" where
  "split_once c s =
     (case find_char (\<lambda>x. x = c) s of None \<Rightarrow> None | Some i \<Rightarrow> Some (take i s, drop (Suc i) s))"

definition rsplit_once :: "char \<Rightarrow> string \<Rightarrow> (string \<times> string) option" where
  "rsplit_once c s =
     (case find_char (\<lambda>x. x = c) (rev s) of None \<Rightarrow> None
      | Some i \<Rightarrow> Some (take (length s - Suc i) s, drop (length s - i) s))"

lemma starts_with_append [simp]: "starts_with p (p @ s)"
  by (simp add: starts_with_def)

lemma starts_with_iff: "starts_with p s \<longleftrightarrow> (\<exists>r. s = p @ r)"
  unfolding starts_with_def by (metis append_eq_conv_conj append_take_drop_id)

lemma strip_prefix_append [simp]: "strip_prefix p (p @ s) = Some s"
  by (simp add: strip_prefix_def)

lemma strip_prefix_Some: "strip_prefix p s = Some r \<longleftrightarrow> s = p @ r"
  by (auto simp: strip_prefix_def starts_with_iff)

lemma find_char_None: "find_char P s = None \<longleftrightarrow> (\<forall>c\<in>set s. \<not> P c)"
  by (induction s) auto

lemma find_char_Some: "find_char P s = Some i \<Longrightarrow> i < length s \<and> P (s ! i) \<and> (\<forall>c\<in>set (take i s). \<not> P c)"
  by (induction s arbitrary: i) (auto split: if_splits)

lemma find_char_append: "\<forall>c\<in>set a. \<not> P c \<Longrightarrow> P x \<Longrightarrow> find_char P (a @ x # b) = Some (length a)"
  by (induction a) auto

lemma split_once_None: "split_once c s = None \<longleftrightarrow> c \<notin> set s"
  using find_char_None [of "\<lambda>x. x = c" s] by (auto simp: split_once_def split: option.splits)

lemma split_once_append:
  assumes "c \<notin> set a"
  shows "split_once c (a @ c # b) = Some (a, b)"
proof -
  have "find_char (\<lambda>x. x = c) (a @ c # b) = Some (length a)"
    using assms by (intro find_char_append) auto
  then show ?thesis by (simp add: split_once_def)
qed

lemma split_once_Some: "split_once c s = Some (a, b) \<Longrightarrow> s = a @ c # b \<and> c \<notin> set a"
  by (auto simp: split_once_def split: option.splits dest!: find_char_Some)
     (metis id_take_nth_drop)

lemma contains_str_iff: "contains_str p s \<longleftrightarrow> (\<exists>a b. s = a @ p @ b)"
proof (induction s)
  case Nil
  then show ?case by (simp add: contains_str_def)
next
  case (Cons c cs)
  have "contains_str p (c # cs) \<longleftrightarrow> starts_with p (c # cs) \<or> contains_str p cs"
    by (simp add: contains_str_def)
  also have "\<dots> \<longleftrightarrow> (\<exists>a b. c # cs = a @ p @ b)"
    unfolding Cons.IH starts_with_iff by (metis append_Cons append_Nil list.sel(3) tl_append2)
  finally show ?case .
qed

subsection \<open>UTF-8 validation\<close>

text \<open>
  The well-formed sequences by their first byte: the number of continuation bytes and the
  range of the first of them; the others range over \<open>80\<close> to \<open>BF\<close> (hexadecimal).
\<close>

definition utf8_shape :: "nat \<Rightarrow> (nat \<times> nat \<times> nat) option" where
  "utf8_shape b =
     (if b < 0x80 then Some (0, 0x80, 0xBF)
      else if 0xC2 \<le> b \<and> b \<le> 0xDF then Some (1, 0x80, 0xBF)
      else if b = 0xE0 then Some (2, 0xA0, 0xBF)
      else if b = 0xED then Some (2, 0x80, 0x9F)
      else if 0xE1 \<le> b \<and> b \<le> 0xEF then Some (2, 0x80, 0xBF)
      else if b = 0xF0 then Some (3, 0x90, 0xBF)
      else if 0xF1 \<le> b \<and> b \<le> 0xF3 then Some (3, 0x80, 0xBF)
      else if b = 0xF4 then Some (3, 0x80, 0x8F)
      else None)"

text \<open>How many of the \<open>n\<close> continuation bytes that must follow are there.\<close>

fun cont_match :: "nat \<Rightarrow> nat \<Rightarrow> nat \<Rightarrow> string \<Rightarrow> nat" where
  "cont_match 0 lo hi s = 0"
| "cont_match (Suc n) lo hi [] = 0"
| "cont_match (Suc n) lo hi (c # cs) =
     (if lo \<le> byte c \<and> byte c \<le> hi then Suc (cont_match n 0x80 0xBF cs) else 0)"

text \<open>The same by arithmetic on the counter, for evaluation.\<close>

lemma cont_match_code [code]:
  "cont_match n lo hi s = (if n = 0 then 0 else (case s of [] \<Rightarrow> 0
     | c # cs \<Rightarrow> if lo \<le> byte c \<and> byte c \<le> hi then 1 + cont_match (n - 1) 0x80 0xBF cs else 0))"
proof (cases n)
  case (Suc m)
  show ?thesis by (cases s) (simp_all add: Suc)
qed simp

fun utf8_valid :: "string \<Rightarrow> bool" where
  "utf8_valid [] = True"
| "utf8_valid (c # cs) =
     (case utf8_shape (byte c) of None \<Rightarrow> False
      | Some (n, lo, hi) \<Rightarrow> cont_match n lo hi cs = n \<and> utf8_valid (drop n cs))"

text \<open>
  \<^verbatim>\<open>String::from_utf8_lossy\<close>: each maximal ill-formed part becomes U+FFFD.
\<close>

fun from_utf8_lossy :: "string \<Rightarrow> string" where
  "from_utf8_lossy [] = []"
| "from_utf8_lossy (c # cs) =
     (case utf8_shape (byte c) of
        None \<Rightarrow> [CHR 0xEF, CHR 0xBF, CHR 0xBD] @ from_utf8_lossy cs
      | Some (n, lo, hi) \<Rightarrow>
          (let m = cont_match n lo hi cs in
           (if m = n then c # take n cs else [CHR 0xEF, CHR 0xBF, CHR 0xBD])
             @ from_utf8_lossy (drop m cs)))"

lemma from_utf8_lossy_valid: "utf8_valid s \<Longrightarrow> from_utf8_lossy s = s"
  by (induction s rule: utf8_valid.induct) (auto simp: Let_def split: option.splits)

lemma ascii_utf8_valid: "ascii s \<Longrightarrow> utf8_valid s"
  by (induction s) (auto simp: ascii_def utf8_shape_def)

end
