(* ===== verification/Security.thy ===== *)
theory Security
  imports Rust_Num "HOL-Library.Word"
begin

unbundle bit_operations_syntax

text \<open>
  \<^verbatim>\<open>src/security.rs\<close> (all but the rate limiter, which is in
  \<open>Rate_Limit\<close>): the constant-time comparison, percent-decoding, the three name
  validators and the request-smuggling check on header lists. The one other place that
  percent-codes, \<^verbatim>\<open>percent_encode\<close> of \<^verbatim>\<open>src/sync.rs\<close>, is here
  too, beside its inverse.
\<close>

subsection \<open>Constant-time comparison\<close>

type_synonym u8 = "8 word"

definition byte_word :: "char \<Rightarrow> u8" where
  "byte_word c = of_nat (byte c)"

definition word_char :: "u8 \<Rightarrow> char" where
  "word_char w = char_of (unat w)"

lemma word_char_byte_word [simp]: "word_char (byte_word c) = c"
proof -
  have "unat (of_nat (byte c) :: u8) = byte c" by (simp add: unat_of_nat)
  then show ?thesis by (simp add: word_char_def byte_word_def byte_def)
qed

lemma byte_word_word_char [simp]: "byte_word (word_char w) = w"
proof -
  have "unat w < 256" using unsigned_less [of w] by simp
  then have "unat w mod 256 = unat w" by simp
  then show ?thesis by (simp add: word_char_def byte_word_def byte_def)
qed

lemma byte_word_inject: "byte_word c = byte_word d \<longleftrightarrow> c = d"
  by (metis word_char_byte_word)

text \<open>
  The loop \<open>diff |= x ^ y\<close> over the zipped bytes: the difference is accumulated and
  compared once, so no early exit depends on the contents.
\<close>

definition ct_diff :: "string \<Rightarrow> string \<Rightarrow> u8 \<Rightarrow> u8" where
  "ct_diff a b d = fold (\<lambda>(x, y) diff. diff OR (byte_word x XOR byte_word y)) (zip a b) d"

definition constant_time_eq :: "string \<Rightarrow> string \<Rightarrow> bool" where
  "constant_time_eq a b \<longleftrightarrow> (if length a \<noteq> length b then False else ct_diff a b 0 = 0)"

definition constant_time_eq_str :: "string \<Rightarrow> string \<Rightarrow> bool" where
  "constant_time_eq_str a b \<longleftrightarrow> constant_time_eq a b"

lemma xor_zero_iff: "x XOR y = 0 \<longleftrightarrow> x = (y :: u8)"
proof
  assume "x XOR y = 0"
  then have "(x XOR y) XOR y = 0 XOR y" by simp
  then show "x = y" by (simp add: xor.assoc)
qed simp

lemma ct_diff_zero:
  "length a = length b \<Longrightarrow> ct_diff a b d = 0 \<longleftrightarrow> d = 0 \<and> a = b"
proof (induction a b arbitrary: d rule: list_induct2)
  case (Cons x xs y ys)
  have "ct_diff (x # xs) (y # ys) d = ct_diff xs ys (d OR (byte_word x XOR byte_word y))"
    by (simp add: ct_diff_def)
  then show ?case
    using Cons.IH by (auto simp: byte_word_inject or_eq_0_iff xor_zero_iff)
qed (simp add: ct_diff_def)

lemma constant_time_eq_iff [simp]: "constant_time_eq a b \<longleftrightarrow> a = b"
  by (auto simp: constant_time_eq_def ct_diff_zero)

lemma constant_time_eq_str_iff [simp]: "constant_time_eq_str a b \<longleftrightarrow> a = b"
  by (simp add: constant_time_eq_str_def)

subsection \<open>Percent-coding\<close>

text \<open>
  The index loop of \<^verbatim>\<open>url_decode\<close> on the suffix still to be read: a percent
  sign needs two more bytes (\<open>i + 2 < len\<close>), both hexadecimal digits.
\<close>

fun url_decode_bytes :: "string \<Rightarrow> string option" where
  "url_decode_bytes [] = Some []"
| "url_decode_bytes (c # cs) =
     (if c = CHR ''%'' then
        (case cs of
           a # b # rest \<Rightarrow>
             (case (hex_digit_val a, hex_digit_val b) of
                (Some h1, Some h2) \<Rightarrow> map_option ((#) (char_of (16 * h1 + h2))) (url_decode_bytes rest)
              | _ \<Rightarrow> None)
         | _ \<Rightarrow> None)
      else map_option ((#) c) (url_decode_bytes cs))"

definition url_decode :: "string \<Rightarrow> string option" where
  "url_decode s = (case url_decode_bytes s of None \<Rightarrow> None
     | Some out \<Rightarrow> if utf8_valid out then Some out else None)"

definition unreserved :: "char \<Rightarrow> bool" where
  "unreserved c \<longleftrightarrow> is_ascii_alphanumeric c \<or> c \<in> set ''-_.~''"

definition percent_encode :: "string \<Rightarrow> string" where
  "percent_encode s = concat (map (\<lambda>c. if unreserved c then [c]
     else [CHR ''%'', hex_char_upper (byte c div 16), hex_char_upper (byte c mod 16)]) s)"

lemma url_decode_bytes_encode: "url_decode_bytes (percent_encode s @ t) = map_option ((@) s) (url_decode_bytes t)"
proof (induction s)
  case Nil
  then show ?case by (cases "url_decode_bytes t") (simp_all add: percent_encode_def)
next
  case (Cons c s)
  have dec: "char_of (byte c) = c" by (simp add: byte_def)
  have "url_decode_bytes (percent_encode (c # s) @ t)
      = map_option ((#) c) (url_decode_bytes (percent_encode s @ t))"
  proof (cases "unreserved c")
    case True
    then have "c \<noteq> CHR ''%''" by (auto simp: unreserved_def ascii_class_defs byte_def)
    with True show ?thesis by (simp add: percent_encode_def)
  next
    case False
    then show ?thesis by (simp add: percent_encode_def dec)
  qed
  with Cons.IH show ?case by (simp add: option.map_comp o_def)
qed

lemma url_decode_encode: "utf8_valid s \<Longrightarrow> url_decode (percent_encode s) = Some s"
  using url_decode_bytes_encode [of s "[]"] by (simp add: url_decode_def)

lemma url_decode_bytes_plain: "CHR ''%'' \<notin> set s \<Longrightarrow> url_decode_bytes s = Some s"
  by (induction s) auto

lemma url_decode_plain: "CHR ''%'' \<notin> set s \<Longrightarrow> utf8_valid s \<Longrightarrow> url_decode s = Some s"
  by (simp add: url_decode_def url_decode_bytes_plain)

lemma url_decode_valid: "url_decode s = Some t \<Longrightarrow> utf8_valid t"
  by (auto simp: url_decode_def split: option.splits if_splits)

subsection \<open>Names\<close>

text \<open>
  The classes of characters are ASCII, so testing every byte is testing every character:
  no byte of a longer UTF-8 sequence is in them.
\<close>

definition is_valid_revision :: "string \<Rightarrow> bool" where
  "is_valid_revision r \<longleftrightarrow> length r \<le> 200 \<and> \<not> starts_with ''-'' r \<and>
     list_all (\<lambda>b. is_ascii_alphanumeric b \<or> b \<in> set ''./_-~^'') r"

definition is_valid_principal :: "string \<Rightarrow> bool" where
  "is_valid_principal name \<longleftrightarrow>
     (if name = [] \<or> length name > 256 then False
      else if hd name \<in> set ''.-@'' \<or> contains_str ''..'' name then False
      else list_all (\<lambda>c. is_ascii_alphanumeric c \<or> c \<in> set ''_-.@+'') name)"

definition is_valid_identifier :: "string \<Rightarrow> bool" where
  "is_valid_identifier name \<longleftrightarrow>
     (if name = [] \<or> length name > 128 then False
      else if starts_with ''.'' name \<or> starts_with ''-'' name \<or> contains_str ''..'' name then False
      else list_all (\<lambda>c. is_ascii_alphanumeric c \<or> c = CHR ''_'' \<or> c = CHR ''-'') name)"

definition ident_char :: "char \<Rightarrow> bool" where
  "ident_char c \<longleftrightarrow> is_ascii_alphanumeric c \<or> c = CHR ''_'' \<or> c = CHR ''-''"

definition principal_char :: "char \<Rightarrow> bool" where
  "principal_char c \<longleftrightarrow> is_ascii_alphanumeric c \<or> c \<in> set ''_-.@+''"

lemma ident_char_ascii: "ident_char c \<Longrightarrow> byte c < 128"
  by (auto simp: ident_char_def ascii_class_defs byte_def)

lemma ident_char_principal: "ident_char c \<Longrightarrow> principal_char c"
  by (auto simp: ident_char_def principal_char_def)

lemma principal_char_plain:
  "principal_char c \<Longrightarrow> byte c < 128 \<and> \<not> ws_byte c \<and> c \<notin> {tab, nl, cr, CHR '','', CHR '':'', CHR ''/'', CHR ''%'', CHR ''#'', quote_char, backslash}"
  by (auto simp: principal_char_def ascii_class_defs ws_byte_iff byte_def)

lemma identifier_chars: "is_valid_identifier s \<Longrightarrow> s \<noteq> [] \<and> length s \<le> 128 \<and> list_all ident_char s"
  by (auto simp: is_valid_identifier_def ident_char_def list_all_iff split: if_splits)

lemma principal_chars: "is_valid_principal s \<Longrightarrow> s \<noteq> [] \<and> length s \<le> 256 \<and> list_all principal_char s"
  by (auto simp: is_valid_principal_def principal_char_def list_all_iff split: if_splits)

lemma identifier_principal_chars: "is_valid_identifier s \<Longrightarrow> s \<noteq> [] \<and> list_all principal_char s"
  using identifier_chars [of s] by (auto simp: list_all_iff ident_char_principal)

text \<open>What a name must not contain, and that it survives trimming and splitting.\<close>

definition plain_name :: "string \<Rightarrow> bool" where
  "plain_name s \<longleftrightarrow> s \<noteq> [] \<and> list_all principal_char s"

lemma plain_name_identifier: "is_valid_identifier s \<Longrightarrow> plain_name s"
  using identifier_principal_chars by (simp add: plain_name_def)

lemma plain_name_principal: "is_valid_principal s \<Longrightarrow> plain_name s"
  using principal_chars by (simp add: plain_name_def)

lemma plain_name_ascii: "plain_name s \<Longrightarrow> ascii s"
  by (auto simp: plain_name_def ascii_def list_all_iff dest: principal_char_plain)

lemma plain_name_notin:
  assumes "plain_name s" and "c \<in> {tab, nl, cr, CHR '','', CHR '':'', CHR ''/'', CHR ''%'', CHR ''#'', quote_char, backslash}"
  shows "c \<notin> set s"
  using assms principal_char_plain [of c] by (auto simp: plain_name_def list_all_iff)

lemma plain_name_trim [simp]: "plain_name s \<Longrightarrow> trim s = s"
proof (rule trim_plain)
  assume s: "plain_name s"
  then show "ascii s" by (rule plain_name_ascii)
  from s have "\<forall>c\<in>set s. \<not> ws_byte c"
    by (auto simp: plain_name_def list_all_iff dest: principal_char_plain)
  then show "\<not> ws_byte (hd s)" "\<not> ws_byte (last s)" if "s \<noteq> []" using that by auto
qed

lemma plain_name_csv [simp]: "plain_name s \<Longrightarrow> csv s = [s]"
  by (rule pieces_single) (auto simp: plain_name_notin plain_name_def)

lemma plain_name_utf8: "plain_name s \<Longrightarrow> utf8_valid s"
  by (simp add: ascii_utf8_valid plain_name_ascii)

lemma identifier_no_dot: "is_valid_identifier s \<Longrightarrow> CHR ''.'' \<notin> set s"
  using identifier_chars [of s] by (auto simp: list_all_iff ident_char_def ascii_class_defs byte_def)

lemma revision_safe:
  "is_valid_revision r \<Longrightarrow> \<not> starts_with ''-'' r \<and> length r \<le> 200 \<and>
     (\<forall>c\<in>set r. 32 < byte c \<and> byte c < 127 \<and> c \<notin> set '' ;|&$`<>()*?=!#'')"
  by (auto simp: is_valid_revision_def list_all_iff ascii_class_defs byte_def)

subsection \<open>Request smuggling\<close>

type_synonym headers = "(string \<times> string) list"

datatype smuggling_error = MalformedContentLength | MultipleContentLength | ContentLengthAndTransferEncoding

text \<open>The loop over the headers, with the running counter and flag as accumulators.\<close>

fun smuggling_loop :: "headers \<Rightarrow> nat \<Rightarrow> bool \<Rightarrow> (smuggling_error, nat \<times> bool) result" where
  "smuggling_loop [] cl te = Inr (cl, te)"
| "smuggling_loop ((k, v) # hs) cl te =
     (let lower = to_ascii_lowercase k in
      if lower = ''content-length'' then
        (if trim v = [] \<or> \<not> list_all is_ascii_digit (trim v) then Inl MalformedContentLength
         else smuggling_loop hs (cl + 1) te)
      else if lower = ''transfer-encoding'' then smuggling_loop hs cl True
      else smuggling_loop hs cl te)"

definition validate_http_smuggling :: "headers \<Rightarrow> (smuggling_error, unit) result" where
  "validate_http_smuggling hs =
     (case smuggling_loop hs 0 False of
        Inl e \<Rightarrow> Inl e
      | Inr (cl_count, has_te) \<Rightarrow>
          if cl_count > 1 then Inl MultipleContentLength
          else if cl_count > 0 \<and> has_te then Inl ContentLengthAndTransferEncoding
          else Inr ())"

definition named :: "string \<Rightarrow> headers \<Rightarrow> headers" where
  "named n hs = filter (\<lambda>(k, v). to_ascii_lowercase k = n) hs"

lemma named_simps [simp]:
  "named n [] = []"
  "named n ((k, v) # hs) = (if to_ascii_lowercase k = n then (k, v) # named n hs else named n hs)"
  by (simp_all add: named_def)

lemma smuggling_loop_ok:
  "smuggling_loop hs cl te = Inr (cl', te') \<longleftrightarrow>
     (\<forall>(k, v)\<in>set (named ''content-length'' hs). trim v \<noteq> [] \<and> list_all is_ascii_digit (trim v)) \<and>
     cl' = cl + length (named ''content-length'' hs) \<and>
     (te' \<longleftrightarrow> te \<or> named ''transfer-encoding'' hs \<noteq> [])"
  by (induction hs cl te rule: smuggling_loop.induct) (auto simp: Let_def)

lemma smuggling_loop_err:
  "smuggling_loop hs cl te = Inl e \<Longrightarrow>
     \<not> (\<forall>(k, v)\<in>set (named ''content-length'' hs). trim v \<noteq> [] \<and> list_all is_ascii_digit (trim v))"
  by (induction hs cl te rule: smuggling_loop.induct) (auto simp: Let_def split: if_splits)

lemma smuggling_ok:
  "validate_http_smuggling hs = Inr () \<longleftrightarrow>
     (\<forall>(k, v)\<in>set (named ''content-length'' hs). trim v \<noteq> [] \<and> list_all is_ascii_digit (trim v)) \<and>
     length (named ''content-length'' hs) \<le> 1 \<and>
     (named ''content-length'' hs = [] \<or> named ''transfer-encoding'' hs = [])"
proof (cases "smuggling_loop hs 0 False")
  case (Inl e)
  with smuggling_loop_err [OF Inl] show ?thesis
    by (auto simp: validate_http_smuggling_def)
next
  case (Inr p)
  obtain cl te where p: "p = (cl, te)" by (cases p)
  from Inr p smuggling_loop_ok [of hs 0 False cl te] show ?thesis
    by (auto simp: validate_http_smuggling_def)
qed

subsection \<open>Properties\<close>

lemma percent_encode_chars:
  "c \<in> set (percent_encode s) \<Longrightarrow> unreserved c \<or> c = CHR ''%''"
proof -
  assume "c \<in> set (percent_encode s)"
  then obtain d where d: "c \<in> set (if unreserved d then [d]
     else [CHR ''%'', hex_char_upper (byte d div 16), hex_char_upper (byte d mod 16)])"
    unfolding percent_encode_def set_concat set_map by blast
  have u: "unreserved (hex_char_upper n)" if "n < 16" for n
    using that by (auto simp: unreserved_def ascii_class_defs byte_hex_char_upper)
  show ?thesis using d u [of "byte d div 16"] u [of "byte d mod 16"] by (auto split: if_splits)
qed

text \<open>
  The constant-time comparison decides equality: it accepts two byte strings exactly
  when they are equal, whatever their lengths.
\<close>

theorem constant_time_eq_decides: "constant_time_eq_str a b = (a = b) \<and> constant_time_eq a b = (a = b)"
  by simp

text \<open>
  Percent-decoding undoes percent-encoding on every UTF-8 string, and the encoded form
  holds no byte that separates parts of a URL.
\<close>

theorem percent_coding_roundtrip:
  assumes "utf8_valid s"
  shows "url_decode (percent_encode s) = Some s \<and>
    (\<forall>c\<in>set (percent_encode s). c \<notin> set ''/?#&=: '' \<and> 32 < byte c \<and> byte c < 127)"
proof -
  have "c \<notin> set ''/?#&=: '' \<and> 32 < byte c \<and> byte c < 127" if "unreserved c \<or> c = CHR ''%''" for c
    using that by (auto simp: unreserved_def ascii_class_defs byte_def)
  with percent_encode_chars url_decode_encode [OF assms] show ?thesis by blast
qed

theorem percent_coding_roundtrip_witness:
  "url_decode (percent_encode ''a b/c'') = Some ''a b/c'' \<and> percent_encode ''a b/c'' = ''a%20b%2Fc''"
proof -
  have "utf8_valid ''a b/c''" "percent_encode ''a b/c'' = ''a%20b%2Fc''" by code_simp+
  with percent_coding_roundtrip [of "''a b/c''"] show ?thesis by simp
qed

text \<open>
  A tree or user name that passes validation is inert: it is a single path component
  without dots, it survives the field and list separators of every file of the program
  unchanged, it decodes to itself, and it is also a valid user name and revision.
\<close>

theorem identifier_is_inert:
  assumes "is_valid_identifier s"
  shows "trim s = s \<and> csv s = [s] \<and> url_decode s = Some s \<and> is_valid_principal s \<and> is_valid_revision s \<and>
    (\<forall>c\<in>{tab, nl, cr, CHR '','', CHR '':'', CHR ''/'', CHR ''.'', CHR ''%'', CHR ''#'', quote_char, backslash}. c \<notin> set s)"
proof -
  have p: "plain_name s" by (rule plain_name_identifier [OF assms])
  have i: "s \<noteq> []" "length s \<le> 128" "list_all ident_char s" using identifier_chars [OF assms] by simp_all
  have h: "\<not> starts_with ''-'' s" "\<not> starts_with ''.'' s" "\<not> contains_str ''..'' s"
    using assms by (simp_all add: is_valid_identifier_def split: if_splits)
  have "list_all (\<lambda>b. is_ascii_alphanumeric b \<or> b \<in> set ''./_-~^'') s"
    using i by (auto simp: list_all_iff ident_char_def)
  with i h have r: "is_valid_revision s" by (simp add: is_valid_revision_def)
  have "ident_char (hd s)" using i by (cases s) auto
  then have "hd s \<noteq> CHR ''@''" by (auto simp: ident_char_def ascii_class_defs byte_def)
  moreover have "hd s \<noteq> CHR ''.'' \<and> hd s \<noteq> CHR ''-''" using h(1,2) i(1) by (cases s) (auto simp: starts_with_def)
  moreover have "list_all (\<lambda>c. is_ascii_alphanumeric c \<or> c \<in> set ''_-.@+'') s"
    using i by (auto simp: list_all_iff ident_char_def)
  ultimately have q: "is_valid_principal s" using i h by (simp add: is_valid_principal_def)
  have "url_decode s = Some s" using p by (intro url_decode_plain plain_name_utf8 plain_name_notin) auto
  moreover have "\<forall>c\<in>{tab, nl, cr, CHR '','', CHR '':'', CHR ''/'', CHR ''%'', CHR ''#'', quote_char, backslash}. c \<notin> set s"
    using plain_name_notin [OF p] by blast
  ultimately show ?thesis using p q r identifier_no_dot [OF assms] by simp
qed

theorem identifier_is_inert_witness:
  "trim ''ledger-core_2'' = ''ledger-core_2'' \<and> url_decode ''ledger-core_2'' = Some ''ledger-core_2''"
proof -
  have "is_valid_identifier ''ledger-core_2''" by code_simp
  from identifier_is_inert [OF this] show ?thesis by blast
qed

text \<open>
  The smuggling check accepts a header list exactly when no two parties can disagree on
  where the body ends: every Content-Length is a plain decimal number, there is at most
  one, and it does not come with a Transfer-Encoding, whatever the case of the names.
\<close>

theorem smuggling_accepts_unambiguous:
  "is_ok (validate_http_smuggling hs) \<longleftrightarrow>
     (\<forall>(k, v)\<in>set (named ''content-length'' hs). trim v \<noteq> [] \<and> list_all is_ascii_digit (trim v)) \<and>
     length (named ''content-length'' hs) \<le> 1 \<and>
     (named ''content-length'' hs = [] \<or> named ''transfer-encoding'' hs = [])"
  using smuggling_ok [of hs] by (auto simp: is_ok_ex)

theorem smuggling_accepts_unambiguous_witness:
  "is_ok (validate_http_smuggling [(''Host'', ''x''), (''content-LENGTH'', '' 12 '')]) \<and>
   \<not> is_ok (validate_http_smuggling [(''Content-Length'', ''4''), (''transfer-encoding'', ''chunked'')])"
proof -
  let ?a = "[(''Host'', ''x''), (''content-LENGTH'', '' 12 '')]"
  let ?b = "[(''Content-Length'', ''4''), (''transfer-encoding'', ''chunked'')]"
  have "named ''content-length'' ?a = [(''content-LENGTH'', '' 12 '')]" "named ''transfer-encoding'' ?a = []"
    "trim '' 12 '' = ''12''" "list_all is_ascii_digit ''12''"
    "named ''content-length'' ?b \<noteq> []" "named ''transfer-encoding'' ?b \<noteq> []" by code_simp+
  then show ?thesis by (simp only: smuggling_accepts_unambiguous) simp
qed

end
