(* ===== verification/Rights.thy ===== *)
theory Rights
  imports Security
begin

text \<open>
  \<^verbatim>\<open>src/rights.rs\<close>, the policy itself: the records \<open>tree\<close> and
  \<open>rights\<close>, the parser of the rights file, and every decision taken from a parsed
  policy (\<open>may\<close>, roles, tool allowlists, administration scopes, workspaces and the
  restriction to a tenant). The later lemmas say what a parsed file means, line by line:
  each decision is a statement about the directives of the text, whatever their order.
\<close>

subsection \<open>Data\<close>

record tree =
  t_name :: string
  t_addr :: string
  t_token :: string

record rights =
  r_trees :: "tree list"
  r_grants :: "(string, string list) hmap"
  r_roles :: "(string, string list) hmap"
  r_members :: "(string, string list) hmap"
  r_role_tools :: "(string \<times> string, string list) hmap"
  r_groups :: "(string, string list) hmap"
  r_workspaces :: "(string, string list) hmap"
  r_workspace_packages :: "(string, string list) hmap"
  r_tenants :: "(string, string list) hmap"
  r_tenant_admins :: "(string, string list) hmap"

definition rights_default :: rights where
  "rights_default = \<lparr>r_trees = [], r_grants = [], r_roles = [], r_members = [], r_role_tools = [],
     r_groups = [], r_workspaces = [], r_workspace_packages = [], r_tenants = [], r_tenant_admins = []\<rparr>"

datatype admin_scope = Global | Trees "string set"

definition scope_covers :: "admin_scope \<Rightarrow> string set \<Rightarrow> bool" where
  "scope_covers scope ts = (case scope of Global \<Rightarrow> True | Trees own \<Rightarrow> ts \<noteq> {} \<and> ts \<subseteq> own)"

subsection \<open>Decisions\<close>

definition tree_named :: "rights \<Rightarrow> string \<Rightarrow> tree option" where
  "tree_named r n = find (\<lambda>t. t_name t = n) (r_trees r)"

definition roles_for :: "rights \<Rightarrow> string \<Rightarrow> string list \<Rightarrow> string list" where
  "roles_for r user groups =
     remdups_adj (sort (fold (\<lambda>g roles. case map_of (r_groups r) g of None \<Rightarrow> roles | Some m \<Rightarrow> roles @ m)
                          groups (hm_vals (r_members r) user)))"

definition may_with_groups :: "rights \<Rightarrow> string \<Rightarrow> string list \<Rightarrow> string \<Rightarrow> bool" where
  "may_with_groups r user groups t \<longleftrightarrow>
     hm_has (r_grants r) user t \<or>
     list_ex (\<lambda>role. hm_has (r_roles r) role t) (roles_for r user groups)"

definition may :: "rights \<Rightarrow> string \<Rightarrow> string \<Rightarrow> bool" where
  "may r user t \<longleftrightarrow> may_with_groups r user [] t"

definition is_admin_with_groups :: "rights \<Rightarrow> string \<Rightarrow> string list \<Rightarrow> bool" where
  "is_admin_with_groups r user groups \<longleftrightarrow> list_ex (\<lambda>role. role = ''admin'') (roles_for r user groups)"

definition admin_scope_of :: "rights \<Rightarrow> string \<Rightarrow> string list \<Rightarrow> admin_scope option" where
  "admin_scope_of r user groups =
     (if is_admin_with_groups r user groups then Some Global
      else let ts = set (concat (map (\<lambda>tenant. hm_vals (r_tenants r) tenant) (hm_vals (r_tenant_admins r) user)))
           in if ts \<noteq> {} then Some (Trees ts) else None)"

definition tenants_of :: "rights \<Rightarrow> string \<Rightarrow> string list" where
  "tenants_of r user = remdups_adj (sort (hm_vals (r_tenant_admins r) user))"

definition keep_trees :: "string set \<Rightarrow> string list \<Rightarrow> string list" where
  "keep_trees ts = filter (\<lambda>t. t \<in> ts)"

definition map_nonempty :: "('v list \<Rightarrow> 'v list) \<Rightarrow> ('k, 'v list) hmap \<Rightarrow> ('k, 'v list) hmap" where
  "map_nonempty f m = filter (\<lambda>(_, vs). vs \<noteq> []) (map (\<lambda>(k, vs). (k, f vs)) m)"

definition restricted_to :: "rights \<Rightarrow> string set \<Rightarrow> rights" where
  "restricted_to r ts =
     (let roles = map_nonempty (keep_trees ts) (r_roles r);
          only_roles = filter (\<lambda>role. map_of roles role \<noteq> None)
      in \<lparr>r_trees = filter (\<lambda>t. t_name t \<in> ts) (r_trees r),
          r_grants = map_nonempty (keep_trees ts) (r_grants r),
          r_roles = roles,
          r_members = map_nonempty only_roles (r_members r),
          r_role_tools = filter (\<lambda>((role, t), _). map_of roles role \<noteq> None \<and> t \<in> ts) (r_role_tools r),
          r_groups = map_nonempty only_roles (r_groups r),
          r_workspaces = filter (\<lambda>(_, trees). trees \<noteq> [] \<and> list_all (\<lambda>t. t \<in> ts) trees) (r_workspaces r),
          r_workspace_packages = [], r_tenants = [], r_tenant_admins = []\<rparr>)"

definition visible_workspaces :: "rights \<Rightarrow> string \<Rightarrow> string list \<Rightarrow> (string \<times> string list) list" where
  "visible_workspaces r user groups =
     sort_key fst (filter (\<lambda>(_, trees). trees \<noteq> [] \<and> list_all (may_with_groups r user groups) trees)
       (r_workspaces r))"

definition unique_workspace_for_tree :: "rights \<Rightarrow> string \<Rightarrow> string option" where
  "unique_workspace_for_tree r t =
     (let matches = remdups_adj (sort (map fst (filter (\<lambda>(_, trees). t \<in> set trees) (r_workspaces r))))
      in case matches of [w] \<Rightarrow> Some w | _ \<Rightarrow> None)"

definition may_tool_with_groups :: "rights \<Rightarrow> string \<Rightarrow> string list \<Rightarrow> string \<Rightarrow> string \<Rightarrow> bool" where
  "may_tool_with_groups r user groups t tool \<longleftrightarrow>
     (if hm_has (r_grants r) user t then True
      else list_ex (\<lambda>role.
             if \<not> hm_has (r_roles r) role t then False
             else (case map_of (r_role_tools r) (role, t) of None \<Rightarrow> True | Some tools \<Rightarrow> tool \<in> set tools))
           (roles_for r user groups))"

subsection \<open>The parser\<close>

abbreviation fields :: "string \<Rightarrow> string list" where
  "fields \<equiv> pieces tab"

definition with_at :: "string \<Rightarrow> string list" where
  "with_at s = filter (\<lambda>p. CHR ''@'' \<in> set p) (map trim (split_on CHR '','' s))"

text \<open>One line's fields; a line of any other shape is reported and skipped.\<close>

definition parse_fields :: "string list \<Rightarrow> rights \<Rightarrow> rights" where
  "parse_fields f r = (case f of
     [k, a, b, c] \<Rightarrow>
       (if k = ''tree'' then
          (if a \<noteq> [] \<and> b \<noteq> [] \<and> c \<noteq> []
           then r\<lparr>r_trees := r_trees r @ [\<lparr>t_name = a, t_addr = b, t_token = c\<rparr>]\<rparr> else r)
        else if k = ''role-tool'' then r\<lparr>r_role_tools := hm_extend (a, b) (csv c) (r_role_tools r)\<rparr>
        else r)
   | [k, a, b] \<Rightarrow>
       (if k = ''grant'' then r\<lparr>r_grants := hm_extend a (csv b) (r_grants r)\<rparr>
        else if k = ''role'' then r\<lparr>r_roles := hm_extend a (csv b) (r_roles r)\<rparr>
        else if k = ''member'' then r\<lparr>r_members := hm_extend a (csv b) (r_members r)\<rparr>
        else if k = ''group'' then r\<lparr>r_groups := hm_extend a (csv b) (r_groups r)\<rparr>
        else if k = ''workspace'' then r\<lparr>r_workspaces := hm_extend a (csv b) (r_workspaces r)\<rparr>
        else if k = ''workspace-package''
          then r\<lparr>r_workspace_packages := hm_extend a (with_at b) (r_workspace_packages r)\<rparr>
        else if k = ''tenant'' then r\<lparr>r_tenants := hm_extend a (csv b) (r_tenants r)\<rparr>
        else if k = ''tenant-admin'' then r\<lparr>r_tenant_admins := hm_extend a (csv b) (r_tenant_admins r)\<rparr>
        else r)
   | _ \<Rightarrow> r)"

definition comment_or_blank :: "string \<Rightarrow> bool" where
  "comment_or_blank l \<longleftrightarrow> l = [] \<or> starts_with ''#'' l"

definition parse_line :: "string \<Rightarrow> rights \<Rightarrow> rights" where
  "parse_line line r =
     (let l = trim line in if comment_or_blank l then r else parse_fields (fields l) r)"

definition parse :: "string \<Rightarrow> rights" where
  "parse text = fold parse_line (lines text) rights_default"

subsection \<open>What the lines of a file say\<close>

text \<open>The fields of the lines that count, in order.\<close>

definition line_directive :: "string \<Rightarrow> string list list" where
  "line_directive line = (let l = trim line in if comment_or_blank l then [] else [fields l])"

definition directives :: "string list \<Rightarrow> string list list" where
  "directives ls = concat (map line_directive ls)"

lemma directives_simps [simp]:
  "directives [] = []" "directives (l # ls) = line_directive l @ directives ls"
  by (simp_all add: directives_def)

lemma directives_append [simp]: "directives (xs @ ys) = directives xs @ directives ys"
  by (simp add: directives_def)

lemma line_directive_trim: "trim l = trim l' \<Longrightarrow> line_directive l = line_directive l'"
  by (simp add: line_directive_def)

lemma directives_trim: "map trim ls = map trim ls' \<Longrightarrow> directives ls = directives ls'"
proof (induction ls arbitrary: ls')
  case (Cons l ls)
  then obtain l' ls'' where l: "ls' = l' # ls''" "trim l = trim l'" "map trim ls = map trim ls''" by auto
  show ?case using Cons.IH [OF l(3)] line_directive_trim [OF l(2)] l(1) by simp
qed simp

lemma parse_line_directive: "parse_line l r = fold parse_fields (line_directive l) r"
  by (simp add: parse_line_def line_directive_def Let_def)

lemma fold_parse_directives: "fold parse_line ls r = fold parse_fields (directives ls) r"
  by (induction ls arbitrary: r) (simp_all add: parse_line_directive)

lemma parse_directives: "parse text = fold parse_fields (directives (lines text)) rights_default"
  by (simp add: parse_def fold_parse_directives)

text \<open>
  One line extends at most one of the maps, by the list \<open>g b\<close> its third field denotes;
  so each map of the parsed file is a fold of its own.
\<close>

definition ext3 :: "string \<Rightarrow> (string \<Rightarrow> string list) \<Rightarrow> string list \<Rightarrow>
    (string, string list) hmap \<Rightarrow> (string, string list) hmap" where
  "ext3 key g f m = (case f of [k, a, b] \<Rightarrow> if k = key then hm_extend a (g b) m else m | _ \<Rightarrow> m)"

definition ext_tools :: "string list \<Rightarrow> (string \<times> string, string list) hmap \<Rightarrow>
    (string \<times> string, string list) hmap" where
  "ext_tools f m = (case f of [k, a, b, c] \<Rightarrow> if k = ''role-tool'' then hm_extend (a, b) (csv c) m else m | _ \<Rightarrow> m)"

definition ext_tree :: "string list \<Rightarrow> tree list \<Rightarrow> tree list" where
  "ext_tree f ts = (case f of [k, a, b, c] \<Rightarrow>
       if k = ''tree'' \<and> a \<noteq> [] \<and> b \<noteq> [] \<and> c \<noteq> [] then ts @ [\<lparr>t_name = a, t_addr = b, t_token = c\<rparr>] else ts
     | _ \<Rightarrow> ts)"

lemma fields_cases [case_names three four other]:
  assumes "\<And>k a b. f = [k, a, b] \<Longrightarrow> P" and "\<And>k a b c. f = [k, a, b, c] \<Longrightarrow> P"
    and "(\<forall>k a b. f \<noteq> [k, a, b]) \<and> (\<forall>k a b c. f \<noteq> [k, a, b, c]) \<Longrightarrow> P"
  shows P
  using assms by blast

lemma parse_fields_other:
  assumes "(\<forall>k a b. f \<noteq> [k, a, b]) \<and> (\<forall>k a b c. f \<noteq> [k, a, b, c])"
  shows "parse_fields f r = r" "ext3 key g f m = m" "ext_tools f n = n" "ext_tree f ts = ts"
proof -
  consider "f = []" | a where "f = [a]" | a b where "f = [a, b]" | a b c d e g where "f = a # b # c # d # e # g"
    using assms by (metis neq_Nil_conv)
  then have all: "parse_fields f r = r \<and> ext3 key g f m = m \<and> ext_tools f n = n \<and> ext_tree f ts = ts"
    by cases (simp_all add: parse_fields_def ext3_def ext_tools_def ext_tree_def)
  then show "parse_fields f r = r" "ext3 key g f m = m" "ext_tools f n = n" "ext_tree f ts = ts" by simp_all
qed

lemma parse_fields_sel:
  "r_trees (parse_fields f r) = ext_tree f (r_trees r)" (is ?g1)
  "r_grants (parse_fields f r) = ext3 ''grant'' csv f (r_grants r)" (is ?g2)
  "r_roles (parse_fields f r) = ext3 ''role'' csv f (r_roles r)" (is ?g3)
  "r_members (parse_fields f r) = ext3 ''member'' csv f (r_members r)" (is ?g4)
  "r_role_tools (parse_fields f r) = ext_tools f (r_role_tools r)" (is ?g5)
  "r_groups (parse_fields f r) = ext3 ''group'' csv f (r_groups r)" (is ?g6)
  "r_workspaces (parse_fields f r) = ext3 ''workspace'' csv f (r_workspaces r)" (is ?g7)
  "r_workspace_packages (parse_fields f r) = ext3 ''workspace-package'' with_at f (r_workspace_packages r)" (is ?g8)
  "r_tenants (parse_fields f r) = ext3 ''tenant'' csv f (r_tenants r)" (is ?g9)
  "r_tenant_admins (parse_fields f r) = ext3 ''tenant-admin'' csv f (r_tenant_admins r)" (is ?g10)
proof -
  have "?g1 \<and> ?g2 \<and> ?g3 \<and> ?g4 \<and> ?g5 \<and> ?g6 \<and> ?g7 \<and> ?g8 \<and> ?g9 \<and> ?g10"
  proof (cases f rule: fields_cases)
    case (three k a b)
    show ?thesis by (simp add: three parse_fields_def ext3_def ext_tools_def ext_tree_def)
  next
    case (four k a b c)
    show ?thesis by (simp add: four parse_fields_def ext3_def ext_tools_def ext_tree_def)
  next
    case other
    show ?thesis by (simp add: parse_fields_other [OF other])
  qed
  then show ?g1 ?g2 ?g3 ?g4 ?g5 ?g6 ?g7 ?g8 ?g9 ?g10 by blast+
qed

lemma fold_parse_fields_sel:
  "r_trees (fold parse_fields ds r) = fold ext_tree ds (r_trees r)"
  "r_grants (fold parse_fields ds r) = fold (ext3 ''grant'' csv) ds (r_grants r)"
  "r_roles (fold parse_fields ds r) = fold (ext3 ''role'' csv) ds (r_roles r)"
  "r_members (fold parse_fields ds r) = fold (ext3 ''member'' csv) ds (r_members r)"
  "r_role_tools (fold parse_fields ds r) = fold ext_tools ds (r_role_tools r)"
  "r_groups (fold parse_fields ds r) = fold (ext3 ''group'' csv) ds (r_groups r)"
  "r_workspaces (fold parse_fields ds r) = fold (ext3 ''workspace'' csv) ds (r_workspaces r)"
  "r_workspace_packages (fold parse_fields ds r) = fold (ext3 ''workspace-package'' with_at) ds (r_workspace_packages r)"
  "r_tenants (fold parse_fields ds r) = fold (ext3 ''tenant'' csv) ds (r_tenants r)"
  "r_tenant_admins (fold parse_fields ds r) = fold (ext3 ''tenant-admin'' csv) ds (r_tenant_admins r)"
  by (induction ds arbitrary: r) (simp_all add: parse_fields_sel)

lemma ext3_has: "hm_has (ext3 key g f m) a v \<longleftrightarrow> hm_has m a v \<or> (\<exists>b. f = [key, a, b] \<and> v \<in> set (g b))"
  by (auto simp: ext3_def hm_has_vals hm_vals_extend split: list.splits if_splits)

lemma fold_ext3_has [rights_facts]:
  "hm_has (fold (ext3 key g) ds m) a v \<longleftrightarrow> hm_has m a v \<or> (\<exists>b. [key, a, b] \<in> set ds \<and> v \<in> set (g b))"
  by (induction ds arbitrary: m) (auto simp: ext3_has)

lemma ext3_other: "\<forall>f\<in>set ds. \<forall>a b. f \<noteq> [key, a, b] \<Longrightarrow> fold (ext3 key g) ds m = m"
  by (induction ds arbitrary: m) (auto simp: ext3_def split: list.splits)

lemma fold_ext3_filter:
  "(\<And>f a b. f \<in> set ds \<Longrightarrow> f = [key, a, b] \<Longrightarrow> P f) \<Longrightarrow>
     fold (ext3 key g) (filter P ds) m = fold (ext3 key g) ds m"
  by (induction ds arbitrary: m) (auto simp: ext3_def split: list.splits)

lemma fold_ext_tools_dom:
  "map_of (fold ext_tools ds m) (ro, t) \<noteq> None \<longleftrightarrow>
     map_of m (ro, t) \<noteq> None \<or> (\<exists>c. [''role-tool'', ro, t, c] \<in> set ds)"
  by (induction ds arbitrary: m) (auto simp: ext_tools_def map_of_hm_extend split: list.splits if_splits)

lemma fold_ext_tools_has [rights_facts]:
  "hm_has (fold ext_tools ds m) (ro, t) v \<longleftrightarrow>
     hm_has m (ro, t) v \<or> (\<exists>c. [''role-tool'', ro, t, c] \<in> set ds \<and> v \<in> set (csv c))"
  by (induction ds arbitrary: m)
    (auto simp: ext_tools_def hm_has_vals hm_vals_extend split: list.splits if_splits)

lemma hm_has_Nil [simp]: "\<not> hm_has [] k v"
  by (simp add: hm_has_def)

lemma rights_default_sel [simp]:
  "r_trees rights_default = []" "r_grants rights_default = []" "r_roles rights_default = []"
  "r_members rights_default = []" "r_role_tools rights_default = []" "r_groups rights_default = []"
  "r_workspaces rights_default = []" "r_workspace_packages rights_default = []"
  "r_tenants rights_default = []" "r_tenant_admins rights_default = []"
  by (simp_all add: rights_default_def)

text \<open>Decisions as statements about memberships.\<close>

lemma set_fold_groups:
  "set (fold (\<lambda>g roles. case map_of m g of None \<Rightarrow> roles | Some x \<Rightarrow> roles @ x) gs acc)
     = set acc \<union> {role. \<exists>g\<in>set gs. hm_has m g role}"
  by (induction gs arbitrary: acc) (auto simp: hm_has_def split: option.splits)

lemma set_roles_for [rights_facts]:
  "role \<in> set (roles_for r user gs) \<longleftrightarrow> hm_has (r_members r) user role \<or> (\<exists>g\<in>set gs. hm_has (r_groups r) g role)"
  by (auto simp: roles_for_def set_fold_groups hm_has_vals)

lemma may_iff [rights_facts]:
  "may_with_groups r user gs t \<longleftrightarrow>
     hm_has (r_grants r) user t \<or> (\<exists>role\<in>set (roles_for r user gs). hm_has (r_roles r) role t)"
  by (auto simp: may_with_groups_def list_ex_iff)

lemma may_tool_iff [rights_facts]:
  "may_tool_with_groups r user gs t tool \<longleftrightarrow>
     hm_has (r_grants r) user t \<or>
     (\<exists>role\<in>set (roles_for r user gs). hm_has (r_roles r) role t \<and>
        (map_of (r_role_tools r) (role, t) = None \<or> hm_has (r_role_tools r) (role, t) tool))"
proof -
  have "(case map_of (r_role_tools r) (role, t) of None \<Rightarrow> True | Some tools \<Rightarrow> tool \<in> set tools) \<longleftrightarrow>
      map_of (r_role_tools r) (role, t) = None \<or> hm_has (r_role_tools r) (role, t) tool" for role
    by (simp add: hm_has_def split: option.split)
  then show ?thesis by (auto simp: may_tool_with_groups_def list_ex_iff)
qed

lemma may_tool_may: "may_tool_with_groups r user gs t tool \<Longrightarrow> may_with_groups r user gs t"
  by (auto simp: may_tool_iff may_iff)

lemma is_admin_iff [rights_facts]: "is_admin_with_groups r user gs \<longleftrightarrow> ''admin'' \<in> set (roles_for r user gs)"
  by (auto simp: is_admin_with_groups_def list_ex_iff)

lemma roles_for_mono_groups: "set gs \<subseteq> set gs' \<Longrightarrow> set (roles_for r user gs) \<subseteq> set (roles_for r user gs')"
  by (auto simp: set_roles_for) blast

lemma may_mono_groups: "set gs \<subseteq> set gs' \<Longrightarrow> may_with_groups r user gs t \<Longrightarrow> may_with_groups r user gs' t"
  using roles_for_mono_groups [of gs gs' r user] by (auto simp: may_iff)

lemma tree_named_Some: "tree_named r n = Some t \<Longrightarrow> t \<in> set (r_trees r) \<and> t_name t = n"
  by (auto simp: tree_named_def find_Some_iff)

lemma tree_named_None: "tree_named r n = None \<longleftrightarrow> (\<forall>t\<in>set (r_trees r). t_name t \<noteq> n)"
  by (auto simp: tree_named_def find_None_iff)

subsection \<open>Hash maps of a parsed file\<close>

definition rights_ok :: "rights \<Rightarrow> bool" where
  "rights_ok r \<longleftrightarrow> hm_ok (r_grants r) \<and> hm_ok (r_roles r) \<and> hm_ok (r_members r) \<and> hm_ok (r_role_tools r) \<and>
     hm_ok (r_groups r) \<and> hm_ok (r_workspaces r) \<and> hm_ok (r_workspace_packages r) \<and>
     hm_ok (r_tenants r) \<and> hm_ok (r_tenant_admins r)"

lemma hm_ok_ext: "hm_ok m \<Longrightarrow> hm_ok (ext3 key g f m)" "hm_ok n \<Longrightarrow> hm_ok (ext_tools f n)"
  by (auto simp: ext3_def ext_tools_def hm_ok_extend split: list.splits)

lemma rights_ok_parse: "rights_ok (parse text)"
proof -
  have "rights_ok (fold parse_fields ds rights_default)" for ds
    by (rule fold_invariant) (simp_all add: rights_ok_def parse_fields_sel hm_ok_ext)
  then show ?thesis by (simp add: parse_directives)
qed

text \<open>Workspaces: sorted by name, each fully authorised.\<close>

lemma visible_workspace_iff:
  "(w, ts) \<in> set (visible_workspaces r user gs) \<longleftrightarrow>
     (w, ts) \<in> set (r_workspaces r) \<and> ts \<noteq> [] \<and> (\<forall>t\<in>set ts. may_with_groups r user gs t)"
  by (auto simp: visible_workspaces_def list_all_iff)

lemma unique_workspace_Some:
  "unique_workspace_for_tree r t = Some w \<longleftrightarrow>
     {v. \<exists>ts. (v, ts) \<in> set (r_workspaces r) \<and> t \<in> set ts} = {w}"
proof -
  define ms where "ms = remdups_adj (sort (map fst (filter (\<lambda>(_, trees). t \<in> set trees) (r_workspaces r))))"
  have s: "set ms = {v. \<exists>ts. (v, ts) \<in> set (r_workspaces r) \<and> t \<in> set ts}"
    by (force simp: ms_def)
  have d: "distinct ms" unfolding ms_def by (rule sorted_distinct_dedup) simp
  have "unique_workspace_for_tree r t = Some w \<longleftrightarrow> ms = [w]"
    by (auto simp: unique_workspace_for_tree_def ms_def [symmetric] Let_def split: list.splits)
  also have "\<dots> \<longleftrightarrow> set ms = {w}"
  proof
    assume "set ms = {w}"
    moreover have "length ms = card (set ms)" using d by (simp add: distinct_card)
    ultimately have "length ms = Suc 0" by simp
    then obtain x where "ms = [x]" by (auto simp: length_Suc_conv)
    with \<open>set ms = {w}\<close> show "ms = [w]" by simp
  qed simp
  finally show ?thesis using s by simp
qed

subsection \<open>The restriction to a tenant\<close>

lemma hm_has_map_nonempty:
  assumes "hm_ok m"
  shows "hm_has (map_nonempty (filter P) m) k v \<longleftrightarrow> hm_has m k v \<and> P v"
  using assms
proof (induction m)
  case (Cons e m)
  obtain k' vs where e: "e = (k', vs)" by (cases e)
  have "hm_ok m" "k' \<notin> fst ` set m" using Cons.prems e by (auto simp: hm_ok_def)
  then have none: "\<not> hm_has m k' v" by (simp add: hm_has_def map_of_eq_None_iff [THEN iffD2])
  have step: "map_nonempty (filter P) (e # m) =
      (if filter P vs = [] then map_nonempty (filter P) m else (k', filter P vs) # map_nonempty (filter P) m)"
    by (simp add: map_nonempty_def e)
  have IH: "hm_has (map_nonempty (filter P) m) k v \<longleftrightarrow> hm_has m k v \<and> P v" using Cons.IH \<open>hm_ok m\<close> by simp
  have cons: "hm_has ((a, ws) # n) k v \<longleftrightarrow> (if k = a then v \<in> set ws else hm_has n k v)" for a ws n
    by (simp add: hm_has_def)
  show ?case
  proof (cases "filter P vs = []")
    case True
    then have "\<not> (v \<in> set vs \<and> P v)" by (auto simp: filter_empty_conv)
    then show ?thesis unfolding step if_P [OF True] IH using none by (auto simp: e cons)
  next
    case False
    then show ?thesis unfolding step if_not_P [OF False] cons IH using none by (auto simp: e cons)
  qed
qed (simp add: map_nonempty_def hm_has_def)

lemma map_of_map_nonempty_None:
  assumes "hm_ok m" "map_of (map_nonempty (filter P) m) k = None"
  shows "\<not> hm_has (map_nonempty (filter P) m) k v"
  using assms(2) by (simp add: hm_has_def)

lemma map_of_filter_key:
  "map_of (filter (\<lambda>(k, _). Q k) m) k = (if Q k then map_of m k else None)"
  by (induction m) auto

lemma roles_restricted: "hm_ok (r_roles r) \<Longrightarrow>
    hm_has (r_roles (restricted_to r ts)) role t \<longleftrightarrow> hm_has (r_roles r) role t \<and> t \<in> ts"
  by (simp add: restricted_to_def Let_def keep_trees_def hm_has_map_nonempty)

lemma role_kept: "hm_has (r_roles (restricted_to r ts)) role t \<Longrightarrow> map_of (r_roles (restricted_to r ts)) role \<noteq> None"
  by (cases "map_of (r_roles (restricted_to r ts)) role") (simp_all add: hm_has_def)

lemma roles_for_restricted:
  assumes "rights_ok r"
  shows "role \<in> set (roles_for (restricted_to r ts) u gs) \<longleftrightarrow>
     role \<in> set (roles_for r u gs) \<and> map_of (r_roles (restricted_to r ts)) role \<noteq> None"
proof -
  have "hm_ok (r_members r)" "hm_ok (r_groups r)" using assms by (simp_all add: rights_ok_def)
  then have "hm_has (r_members (restricted_to r ts)) u role \<longleftrightarrow>
      hm_has (r_members r) u role \<and> map_of (r_roles (restricted_to r ts)) role \<noteq> None"
    "hm_has (r_groups (restricted_to r ts)) g role \<longleftrightarrow>
      hm_has (r_groups r) g role \<and> map_of (r_roles (restricted_to r ts)) role \<noteq> None" for g
    by (simp_all add: restricted_to_def Let_def hm_has_map_nonempty)
  then show ?thesis by (auto simp: set_roles_for)
qed

lemma tools_restricted:
  "map_of (r_roles (restricted_to r ts)) role \<noteq> None \<Longrightarrow> t \<in> ts \<Longrightarrow>
     map_of (r_role_tools (restricted_to r ts)) (role, t) = map_of (r_role_tools r) (role, t)"
proof -
  assume a: "map_of (r_roles (restricted_to r ts)) role \<noteq> None" "t \<in> ts"
  have "r_role_tools (restricted_to r ts) =
      filter (\<lambda>(k, _). map_of (r_roles (restricted_to r ts)) (fst k) \<noteq> None \<and> snd k \<in> ts) (r_role_tools r)"
    by (simp add: restricted_to_def Let_def case_prod_unfold)
  with a show ?thesis by (simp add: map_of_filter_key)
qed

lemma may_restricted:
  assumes "rights_ok r"
  shows "may_with_groups (restricted_to r ts) u gs t \<longleftrightarrow> t \<in> ts \<and> may_with_groups r u gs t"
proof -
  have "hm_has (r_grants (restricted_to r ts)) u t \<longleftrightarrow> hm_has (r_grants r) u t \<and> t \<in> ts"
    using assms by (simp add: restricted_to_def Let_def keep_trees_def rights_ok_def hm_has_map_nonempty)
  moreover have "hm_ok (r_roles r)" using assms by (simp add: rights_ok_def)
  ultimately show ?thesis
    unfolding may_iff using roles_for_restricted [OF assms, of _ ts u gs] roles_restricted role_kept by metis
qed

lemma may_tool_restricted:
  assumes "rights_ok r"
  shows "may_tool_with_groups (restricted_to r ts) u gs t tool \<longleftrightarrow> t \<in> ts \<and> may_tool_with_groups r u gs t tool"
proof -
  have g: "hm_has (r_grants (restricted_to r ts)) u t \<longleftrightarrow> hm_has (r_grants r) u t \<and> t \<in> ts"
    using assms by (simp add: restricted_to_def Let_def keep_trees_def rights_ok_def hm_has_map_nonempty)
  have ok: "hm_ok (r_roles r)" using assms by (simp add: rights_ok_def)
  define has where "has m role = (map_of m (role, t) = None \<or> hm_has m (role, t) tool)"
    for m :: "(string \<times> string, string list) hmap" and role
  have h: "has (r_role_tools (restricted_to r ts)) role = has (r_role_tools r) role"
    if "hm_has (r_roles (restricted_to r ts)) role t" for role
    using tools_restricted [OF role_kept [OF that]] that roles_restricted [OF ok]
    by (auto simp: has_def hm_has_def)
  show ?thesis
    unfolding may_tool_iff has_def [symmetric]
    using g h roles_for_restricted [OF assms, of _ ts u gs] roles_restricted [OF ok] role_kept by metis
qed

subsection \<open>Properties\<close>

lemma admin_scope_set:
  "admin_scope_of r u gs = (if is_admin_with_groups r u gs then Some Global
     else let ts = {t. \<exists>tenant. hm_has (r_tenant_admins r) u tenant \<and> hm_has (r_tenants r) tenant t}
          in if ts \<noteq> {} then Some (Trees ts) else None)"
proof -
  have "set (concat (map (\<lambda>tenant. hm_vals (r_tenants r) tenant) (hm_vals (r_tenant_admins r) u)))
      = {t. \<exists>tenant. hm_has (r_tenant_admins r) u tenant \<and> hm_has (r_tenants r) tenant t}"
    by (auto simp: hm_has_vals)
  then show ?thesis by (simp only: admin_scope_of_def)
qed

lemma tools_None:
  "map_of (fold ext_tools ds []) (ro, t) = None \<longleftrightarrow> (\<forall>c. [''role-tool'', ro, t, c] \<notin> set ds)"
  using fold_ext_tools_dom [of ds "[]" ro t] by (simp only: map_of.simps simp_thms) blast

text \<open>
  The meaning of a rights file does not depend on the order of its lines, nor on
  repetitions: two files with the same set of directives give every user, with every set of
  identity-provider groups, the same access, the same tools and the same administration scope.
\<close>

theorem rights_order_irrelevant:
  assumes "set (directives (lines a)) = set (directives (lines b))"
  shows "may_with_groups (parse a) u gs t = may_with_groups (parse b) u gs t \<and>
    may_tool_with_groups (parse a) u gs t tool = may_tool_with_groups (parse b) u gs t tool \<and>
    admin_scope_of (parse a) u gs = admin_scope_of (parse b) u gs \<and>
    roles_for (parse a) u gs = roles_for (parse b) u gs"
proof -
  note s = parse_directives fold_parse_fields_sel
  have has: "hm_has (r_grants (parse a)) k v = hm_has (r_grants (parse b)) k v"
    "hm_has (r_roles (parse a)) k v = hm_has (r_roles (parse b)) k v"
    "hm_has (r_members (parse a)) k v = hm_has (r_members (parse b)) k v"
    "hm_has (r_groups (parse a)) k v = hm_has (r_groups (parse b)) k v"
    "hm_has (r_tenants (parse a)) k v = hm_has (r_tenants (parse b)) k v"
    "hm_has (r_tenant_admins (parse a)) k v = hm_has (r_tenant_admins (parse b)) k v" for k v
    by (simp_all add: s fold_ext3_has assms)
  have tools: "hm_has (r_role_tools (parse a)) k v = hm_has (r_role_tools (parse b)) k v"
    "(map_of (r_role_tools (parse a)) k = None) = (map_of (r_role_tools (parse b)) k = None)" for k v
    by (cases k; simp add: s fold_ext_tools_has tools_None assms)+
  have sr: "set (roles_for (parse a) u gs) = set (roles_for (parse b) u gs)"
    by (auto simp: set_roles_for has)
  have roles: "roles_for (parse a) u gs = roles_for (parse b) u gs"
    using strict_sorted_equal [OF _ _ sr] by (simp add: roles_for_def sorted_dedup_strict)
  have "admin_scope_of (parse a) u gs = admin_scope_of (parse b) u gs"
    by (simp only: admin_scope_set is_admin_iff roles has)
  moreover have "may_with_groups (parse a) u gs t = may_with_groups (parse b) u gs t"
    by (simp only: may_iff roles has)
  moreover have "may_tool_with_groups (parse a) u gs t tool = may_tool_with_groups (parse b) u gs t tool"
    by (simp only: may_tool_iff roles has tools)
  ultimately show ?thesis using roles by blast
qed

theorem rights_order_irrelevant_witness:
  "let role = join [tab] [''role'', ''dev'', ''alpha'']; member = join [tab] [''member'', ''anna'', ''dev'']
   in may_with_groups (parse (unlines [role, member])) ''anna'' [] ''alpha'' \<and>
      may_with_groups (parse (unlines [member, role, member])) ''anna'' [] ''alpha''"
proof -
  let ?r = "join [tab] [''role'', ''dev'', ''alpha'']" and ?m = "join [tab] [''member'', ''anna'', ''dev'']"
  have "directives (lines (unlines [?r, ?m])) = [[''role'', ''dev'', ''alpha''], [''member'', ''anna'', ''dev'']]"
    "directives (lines (unlines [?m, ?r, ?m])) =
       [[''member'', ''anna'', ''dev''], [''role'', ''dev'', ''alpha''], [''member'', ''anna'', ''dev'']]"
    by code_simp+
  then have "set (directives (lines (unlines [?m, ?r, ?m]))) = set (directives (lines (unlines [?r, ?m])))" by auto
  moreover have "may_with_groups (parse (unlines [?r, ?m])) ''anna'' [] ''alpha''" by code_simp
  ultimately show ?thesis
    using rights_order_irrelevant [of "unlines [?m, ?r, ?m]" "unlines [?r, ?m]" "''anna''" "[]" "''alpha''"]
    by (simp only: Let_def)
qed

lemma sorted_wrt_visible: "sorted_wrt (<) (map fst (visible_workspaces (parse text) u gs))"
proof -
  let ?ws = "filter (\<lambda>(_, trees). trees \<noteq> [] \<and> list_all (may_with_groups (parse text) u gs) trees)
    (r_workspaces (parse text))"
  have "distinct (map fst (r_workspaces (parse text)))"
    using rights_ok_parse [of "text"] by (simp add: rights_ok_def hm_ok_def)
  then have "distinct (map fst (sort_key fst ?ws))"
    by (simp add: distinct_map_filter distinct_map inj_on_def)
  then show ?thesis by (simp add: visible_workspaces_def strict_sorted_iff)
qed

text \<open>
  C4. Access is deny by default and its only sources are the file's lines: a user reaches a
  tree exactly when a \<open>grant\<close> line names both, or a \<open>member\<close> line of the user or a
  \<open>group\<close> line of one of the user's groups names a role whose \<open>role\<close> line names the tree.
\<close>

theorem access_comes_from_lines:
  "may_with_groups (parse text) u gs t \<longleftrightarrow>
     (let ds = set (directives (lines text)) in
      (\<exists>b. [''grant'', u, b] \<in> ds \<and> t \<in> set (csv b)) \<or>
      (\<exists>role b. [''role'', role, b] \<in> ds \<and> t \<in> set (csv b) \<and>
         ((\<exists>c. [''member'', u, c] \<in> ds \<and> role \<in> set (csv c)) \<or>
          (\<exists>g\<in>set gs. \<exists>c. [''group'', g, c] \<in> ds \<and> role \<in> set (csv c)))))"
  unfolding may_iff Bex_def set_roles_for Let_def parse_directives fold_parse_fields_sel rights_default_sel fold_ext3_has
  by (simp only: hm_has_Nil simp_thms) blast

theorem access_comes_from_lines_witness:
  "may_with_groups (parse (join [tab] [''grant'', ''anna'', ''alpha, beta''])) ''anna'' [] ''beta''"
proof -
  have "directives (lines (join [tab] [''grant'', ''anna'', ''alpha, beta''])) = [[''grant'', ''anna'', ''alpha, beta'']]"
    "csv ''alpha, beta'' = [''alpha'', ''beta'']" by code_simp+
  then show ?thesis by (simp add: access_comes_from_lines Let_def)
qed

text \<open>
  C3. The view of a tenant administrator is exact: restricting a policy to a set of trees
  leaves every decision on those trees as it was, tool allowlists included, and denies
  everything on every other tree; tenants and administrators are not in the view.
\<close>

theorem restriction_is_exact:
  "(may_with_groups (restricted_to (parse text) ts) u gs t \<longleftrightarrow> t \<in> ts \<and> may_with_groups (parse text) u gs t) \<and>
   (may_tool_with_groups (restricted_to (parse text) ts) u gs t tool \<longleftrightarrow>
      t \<in> ts \<and> may_tool_with_groups (parse text) u gs t tool) \<and>
   (\<forall>x\<in>set (r_trees (restricted_to (parse text) ts)). t_name x \<in> ts) \<and>
   tenants_of (restricted_to (parse text) ts) u = []"
  using may_restricted [OF rights_ok_parse] may_tool_restricted [OF rights_ok_parse]
  by (auto simp: restricted_to_def Let_def tenants_of_def)

theorem restriction_is_exact_witness:
  "let r = parse (join [tab] [''grant'', ''anna'', ''alpha, beta''])
   in may_with_groups (restricted_to r {''beta''}) ''anna'' [] ''beta'' \<and>
      \<not> may_with_groups (restricted_to r {''beta''}) ''anna'' [] ''alpha''"
proof -
  let ?t = "join [tab] [''grant'', ''anna'', ''alpha, beta'']"
  have "may_with_groups (parse ?t) ''anna'' [] ''beta''" by code_simp
  then show ?thesis
    using restriction_is_exact [of ?t "{''beta''}" "''anna''" "[]" "''beta''"]
      restriction_is_exact [of ?t "{''beta''}" "''anna''" "[]" "''alpha''"] by (simp add: Let_def)
qed

text \<open>
  A workspace is shown only to a user who reaches every one of its trees: what is listed
  is exactly the non-empty workspaces of the file all of whose trees the user reaches, in
  ascending order of their names, each once.
\<close>

theorem workspaces_need_every_tree:
  "set (visible_workspaces (parse text) u gs) =
     {(w, ts) \<in> set (r_workspaces (parse text)). ts \<noteq> [] \<and> (\<forall>t\<in>set ts. may_with_groups (parse text) u gs t)} \<and>
   sorted_wrt (<) (map fst (visible_workspaces (parse text) u gs))"
proof (rule conjI [OF _ sorted_wrt_visible])
  show "set (visible_workspaces (parse text) u gs) =
     {(w, ts) \<in> set (r_workspaces (parse text)). ts \<noteq> [] \<and> (\<forall>t\<in>set ts. may_with_groups (parse text) u gs t)}"
    unfolding set_eq_iff by (simp only: split_paired_All visible_workspace_iff mem_Collect_eq split) simp
qed

theorem workspaces_need_every_tree_witness:
  "let text = unlines (map (join [tab]) [[''grant'', ''anna'', ''a''], [''workspace'', ''w'', ''a,b''], [''workspace'', ''v'', ''a'']])
   in set (visible_workspaces (parse text) ''anna'' []) = {(''v'', [''a''])}"
proof -
  let ?t = "unlines (map (join [tab]) [[''grant'', ''anna'', ''a''], [''workspace'', ''w'', ''a,b''], [''workspace'', ''v'', ''a'']])"
  have "r_workspaces (parse ?t) = [(''w'', [''a'', ''b'']), (''v'', [''a''])]"
    "may_with_groups (parse ?t) ''anna'' [] ''a''" "\<not> may_with_groups (parse ?t) ''anna'' [] ''b''" by code_simp+
  then have "{(w, ts) \<in> set (r_workspaces (parse ?t)). ts \<noteq> [] \<and> (\<forall>t\<in>set ts. may_with_groups (parse ?t) ''anna'' [] t)}
      = {(''v'', [''a''])}" by auto
  with workspaces_need_every_tree [of ?t "''anna''" "[]"] show ?thesis by (simp only: Let_def)
qed

end
