(* ===== verification/Rights_Edit.thy ===== *)
theory Rights_Edit
  imports Rights
begin

text \<open>
  \<^verbatim>\<open>src/rights.rs\<close>, the edits of a tenant administrator: which trees a line
  reaches (\<open>line_trees\<close>), the view of a file from inside a tenant (\<open>scoped_text\<close>)
  and the composition of an edit with the active policy (\<open>compose\<close>). The main result
  is confinement: whatever is submitted, access to a tree outside the tenant, tool
  restrictions on it, and who administers what, are the same before and after.
\<close>

subsection \<open>The operations\<close>

text \<open>The loop over the roles a \<open>member\<close> or \<open>group\<close> line names.\<close>

fun role_union :: "rights \<Rightarrow> string list \<Rightarrow> string set \<Rightarrow> string set option" where
  "role_union r [] acc = Some acc"
| "role_union r (role # rs) acc =
     (if role = ''admin'' then None
      else (case map_of (r_roles r) role of
              None \<Rightarrow> None
            | Some ts \<Rightarrow> if ts = [] then None else role_union r rs (acc \<union> set ts)))"

definition field_trees :: "string list \<Rightarrow> rights \<Rightarrow> string set option" where
  "field_trees f r =
     (let found = (case f of
        [k, a, b] \<Rightarrow>
          (if k = ''role'' \<and> a = ''admin'' then None
           else if k = ''grant'' \<or> k = ''role'' \<or> k = ''workspace'' then Some (set (csv b))
           else if k = ''member'' \<or> k = ''group''
             then role_union r (sorted_list_of_set (set (csv b))) {}
           else if k = ''workspace-package'' then map_option set (map_of (r_workspaces r) a)
           else None)
      | [k, a, b, c] \<Rightarrow> if k = ''role-tool'' \<and> a \<noteq> ''admin'' then Some {b} else None
      | _ \<Rightarrow> None)
      in case found of None \<Rightarrow> None | Some ts \<Rightarrow> if ts \<noteq> {} then Some ts else None)"

definition line_trees :: "string \<Rightarrow> rights \<Rightarrow> string set option" where
  "line_trees line r = field_trees (fields line) r"

definition inside :: "string set \<Rightarrow> string set option \<Rightarrow> bool" where
  "inside T ts \<longleftrightarrow> (case ts of None \<Rightarrow> False | Some t \<Rightarrow> t \<subseteq> T)"

definition scoped_text :: "string \<Rightarrow> string set \<Rightarrow> string" where
  "scoped_text text T =
     (let r = parse text in unlines (filter (\<lambda>l. inside T (line_trees (trim l) r)) (lines text)))"

text \<open>The active policy with the roles of the submission added, to resolve role names.\<close>

definition both_rights :: "string \<Rightarrow> string \<Rightarrow> rights" where
  "both_rights active submitted =
     (let a = parse active in
      a\<lparr>r_roles := fold (\<lambda>(role, ts). hm_extend role ts) (r_roles (parse submitted)) (r_roles a)\<rparr>)"

fun compose_active :: "rights \<Rightarrow> string set \<Rightarrow> string list \<Rightarrow> string \<Rightarrow> string" where
  "compose_active both T [] out = out"
| "compose_active both T (line # ls) out =
     compose_active both T ls
       (if \<not> inside T (line_trees (trim line) both) then (out @ line) @ [nl] else out)"

text \<open>The error carries the number of the refused line.\<close>

fun compose_submitted :: "rights \<Rightarrow> string set \<Rightarrow> nat \<Rightarrow> string list \<Rightarrow> string \<Rightarrow> (nat, string) result" where
  "compose_submitted both T n [] out = Inr out"
| "compose_submitted both T n (raw # ls) out =
     (let line = trim_end raw in
      if trim line = [] then compose_submitted both T (n + 1) ls out
      else if inside T (line_trees (trim line) both)
        then compose_submitted both T (n + 1) ls ((out @ line) @ [nl])
      else Inl (n + 1))"

definition compose :: "string \<Rightarrow> string \<Rightarrow> string set \<Rightarrow> (nat, string) result" where
  "compose active submitted T =
     (let both = both_rights active submitted in
      compose_submitted both T 0 (lines submitted) (compose_active both T (lines active) []))"

subsection \<open>Closed forms of the loops\<close>

lemma compose_active_eq:
  "compose_active both T ls out = out @ unlines (filter (\<lambda>l. \<not> inside T (line_trees (trim l) both)) ls)"
  by (induction ls arbitrary: out) auto

definition nonblank :: "string list \<Rightarrow> string list" where
  "nonblank = filter (\<lambda>l. trim l \<noteq> [])"

lemma compose_submitted_ok:
  "compose_submitted both T n ls out = Inr res \<longleftrightarrow>
     res = out @ unlines (map trim_end (nonblank ls)) \<and>
     (\<forall>l\<in>set (nonblank ls). inside T (line_trees (trim l) both))"
  by (induction ls arbitrary: n out) (auto simp: Let_def nonblank_def trim_trim_end)

lemma compose_submitted_err:
  "compose_submitted both T n ls out = Inl m \<longleftrightarrow>
     (\<exists>k < length ls. m = n + k + 1 \<and> trim (ls ! k) \<noteq> [] \<and> \<not> inside T (line_trees (trim (ls ! k)) both) \<and>
        (\<forall>l\<in>set (nonblank (take k ls)). inside T (line_trees (trim l) both)))"
proof (induction ls arbitrary: n out)
  case (Cons l ls)
  have ex: "(\<exists>k < length (l # ls). P k) \<longleftrightarrow> P 0 \<or> (\<exists>k < length ls. P (Suc k))" for P
    by (metis Ex_less_Suc2 length_Cons)
  show ?case unfolding ex using Cons.IH
    by (auto simp: Let_def nonblank_def trim_trim_end)
qed simp

text \<open>The directives of a composed file: those kept of the active one, then the submitted.\<close>

definition inside_dir :: "rights \<Rightarrow> string set \<Rightarrow> string list \<Rightarrow> bool" where
  "inside_dir r T f \<longleftrightarrow> inside T (field_trees f r)"

lemma directives_filter:
  "directives (filter (\<lambda>l. P (fields (trim l))) ls) = filter P (directives ls)"
  by (induction ls) (auto simp: line_directive_def Let_def)

lemma directives_nonblank: "directives (nonblank ls) = directives ls"
  by (induction ls) (auto simp: nonblank_def line_directive_def Let_def comment_or_blank_def)

lemma directives_map_trim_end: "directives (map trim_end ls) = directives ls"
  by (rule directives_trim) (simp add: o_def trim_trim_end)

lemma directives_map_strip_cr: "directives (map strip_cr ls) = directives ls"
  by (rule directives_trim) (simp add: o_def trim_strip_cr)

lemma set_directives: "f \<in> set (directives ls) \<Longrightarrow> \<exists>l\<in>set ls. f = fields (trim l) \<and> trim l \<noteq> []"
  by (induction ls) (auto simp: line_directive_def Let_def comment_or_blank_def split: if_splits)

lemma compose_directives:
  assumes "compose active submitted T = Inr out"
  defines "both \<equiv> both_rights active submitted"
  shows "directives (lines out) = filter (\<lambda>f. \<not> inside_dir both T f) (directives (lines active))
           @ directives (lines submitted)" (is ?eq)
    and "\<forall>f\<in>set (directives (lines submitted)). inside_dir both T f" (is ?sub)
proof -
  define kept where "kept = filter (\<lambda>l. \<not> inside T (line_trees (trim l) both)) (lines active)"
  define subs where "subs = map trim_end (nonblank (lines submitted))"
  from assms have out: "out = unlines kept @ unlines subs"
    and ok: "\<forall>l\<in>set (nonblank (lines submitted)). inside T (line_trees (trim l) both)"
    by (simp_all add: compose_def compose_active_eq compose_submitted_ok Let_def kept_def subs_def)
  have no_nl: "\<forall>l\<in>set (kept @ subs). nl \<notin> set l"
    using lines_no_nl set_trim_end by (fastforce simp: kept_def subs_def nonblank_def)
  have "lines out = map strip_cr (kept @ subs)"
    using no_nl by (simp add: out lines_unlines lines_unlines_append ball_Un)
  then have "directives (lines out) = directives kept @ directives subs"
    by (simp add: directives_map_strip_cr del: map_append)
  moreover have "directives kept = filter (\<lambda>f. \<not> inside_dir both T f) (directives (lines active))"
    unfolding kept_def inside_dir_def line_trees_def by (rule directives_filter)
  moreover have "directives subs = directives (lines submitted)"
    by (simp add: subs_def directives_map_trim_end directives_nonblank)
  ultimately show ?eq by simp
  show ?sub
  proof
    fix f assume "f \<in> set (directives (lines submitted))"
    from set_directives [OF this] obtain l where "l \<in> set (lines submitted)" "f = fields (trim l)" "trim l \<noteq> []"
      by blast
    with ok show "inside_dir both T f" by (auto simp: inside_dir_def line_trees_def nonblank_def)
  qed
qed

subsection \<open>What being inside means, directive by directive\<close>

lemma role_union_Some:
  "role_union r rs acc = Some ts \<Longrightarrow>
     ts = acc \<union> {t. \<exists>role\<in>set rs. hm_has (r_roles r) role t} \<and>
     (\<forall>role\<in>set rs. role \<noteq> ''admin'' \<and> (\<exists>t. hm_has (r_roles r) role t))"
proof (induction rs arbitrary: acc)
  case (Cons role rs)
  from Cons.prems obtain us where us: "role \<noteq> ''admin''" "map_of (r_roles r) role = Some us" "us \<noteq> []"
    "role_union r rs (acc \<union> set us) = Some ts"
    by (auto split: if_splits option.splits)
  have "hm_has (r_roles r) role t \<longleftrightarrow> t \<in> set us" for t using us by (simp add: hm_has_def)
  with Cons.IH [OF us(4)] us(1,3) show ?case by (cases us) auto
qed auto

lemma inside_dir_iff: "inside_dir r T f \<longleftrightarrow> (\<exists>ts. field_trees f r = Some ts \<and> ts \<subseteq> T)"
  by (simp add: inside_dir_def inside_def split: option.split)

lemma inside_list:
  assumes "inside_dir r T [k, a, b]" and "k \<in> {''grant'', ''role'', ''workspace''}"
  shows "set (csv b) \<subseteq> T"
  using assms by (auto simp: inside_dir_iff field_trees_def split: if_splits)

lemma inside_role: "inside_dir r T [''role'', a, b] \<Longrightarrow> a \<noteq> ''admin''"
  by (auto simp: inside_dir_iff field_trees_def)

lemma inside_member:
  assumes "inside_dir r T [k, a, b]" and k: "k \<in> {''member'', ''group''}" and role: "role \<in> set (csv b)"
  shows "role \<noteq> ''admin'' \<and> {t. hm_has (r_roles r) role t} \<subseteq> T"
proof -
  from assms(1) obtain ts where ts: "field_trees [k, a, b] r = Some ts" "ts \<subseteq> T" by (auto simp: inside_dir_iff)
  then have "role_union r (sorted_list_of_set (set (csv b))) {} = Some ts"
    using k by (auto simp: field_trees_def split: option.splits if_splits)
  from role_union_Some [OF this] role ts(2) show ?thesis by auto
qed

lemma inside_tenant: "inside_dir r T [k, a, b] \<Longrightarrow> k \<noteq> ''tenant'' \<and> k \<noteq> ''tenant-admin''"
  by (auto simp: inside_dir_iff field_trees_def)

lemma inside_four:
  "inside_dir r T [k, a, b, c] \<Longrightarrow> k = ''role-tool'' \<and> a \<noteq> ''admin'' \<and> b \<in> T"
  by (auto simp: inside_dir_iff field_trees_def split: if_splits)

lemmas inside_cases = inside_list inside_role inside_member inside_tenant inside_four

lemma fold_hm_extend_has:
  "hm_has (fold (\<lambda>(k, vs). hm_extend k vs) ms m) a v \<longleftrightarrow> hm_has m a v \<or> (\<exists>vs. (a, vs) \<in> set ms \<and> v \<in> set vs)"
  by (induction ms arbitrary: m) (auto simp: hm_has_vals hm_vals_extend split: if_splits)

lemma both_roles_has:
  "hm_has (r_roles (both_rights active submitted)) role t \<longleftrightarrow>
     hm_has (r_roles (parse active)) role t \<or> hm_has (r_roles (parse submitted)) role t"
proof -
  have "hm_ok (r_roles (parse submitted))" using rights_ok_parse by (simp add: rights_ok_def)
  then show ?thesis by (simp add: both_rights_def Let_def fold_hm_extend_has hm_has_set [of "r_roles (parse submitted)"])
qed

subsection \<open>Confinement\<close>

text \<open>
  The setting of the argument: \<open>A\<close> and \<open>S\<close> are the directives of the active and of
  the submitted text, and every submitted directive is inside the tenant's trees \<open>T\<close>.
\<close>

locale confined_edit =
  fixes both :: rights and T :: "string set" and A S :: "string list list"
  assumes both_roles: "hm_has (r_roles both) role t \<longleftrightarrow>
      (\<exists>b. [''role'', role, b] \<in> set A \<union> set S \<and> t \<in> set (csv b))"
    and submitted_inside: "f \<in> set S \<Longrightarrow> inside_dir both T f"
begin

abbreviation before :: rights where
  "before \<equiv> fold parse_fields A rights_default"

abbreviation after :: rights where
  "after \<equiv> fold parse_fields (filter (\<lambda>f. \<not> inside_dir both T f) A @ S) rights_default"

text \<open>A value no inside line of a kind lists is listed as before.\<close>

lemma ext3_outside:
  assumes "\<And>b. v \<in> set (g b) \<Longrightarrow> \<not> inside_dir both T [key, a, b]"
  shows "hm_has (fold (ext3 key g) (filter (\<lambda>f. \<not> inside_dir both T f) A @ S) []) a v
    \<longleftrightarrow> hm_has (fold (ext3 key g) A []) a v"
  unfolding fold_ext3_has using assms submitted_inside by auto

lemma grants_outside: "t \<notin> T \<Longrightarrow> hm_has (r_grants after) u t \<longleftrightarrow> hm_has (r_grants before) u t"
  unfolding fold_parse_fields_sel rights_default_sel
  by (rule ext3_outside) (use inside_list in blast)

lemma roles_outside: "t \<notin> T \<Longrightarrow> hm_has (r_roles after) role t \<longleftrightarrow> hm_has (r_roles before) role t"
  unfolding fold_parse_fields_sel rights_default_sel
  by (rule ext3_outside) (use inside_list in blast)

text \<open>A role that is the administrator's or reaches beyond the tenant.\<close>

definition outer_role :: "string \<Rightarrow> bool" where
  "outer_role role \<longleftrightarrow> role = ''admin'' \<or> (\<exists>t. t \<notin> T \<and> hm_has (r_roles before) role t)"

lemma outer_role_not_inside:
  assumes "outer_role role" and "k \<in> {''member'', ''group''}" and "role \<in> set (csv b)"
  shows "\<not> inside_dir both T [k, u, b]"
proof
  assume i: "inside_dir both T [k, u, b]"
  have "hm_has (r_roles before) role t \<Longrightarrow> hm_has (r_roles both) role t" for t
    by (auto simp: both_roles fold_parse_fields_sel fold_ext3_has)
  with inside_member [OF i assms(2,3)] assms(1) show False by (auto simp: outer_role_def)
qed

lemma members_outer:
  assumes "outer_role role"
  shows "hm_has (r_members after) u role \<longleftrightarrow> hm_has (r_members before) u role"
    and "hm_has (r_groups after) u role \<longleftrightarrow> hm_has (r_groups before) u role"
  unfolding fold_parse_fields_sel rights_default_sel
  by (rule ext3_outside, use outer_role_not_inside [OF assms] in blast)+

lemma roles_for_outer: "outer_role role \<Longrightarrow> role \<in> set (roles_for after u gs) \<longleftrightarrow> role \<in> set (roles_for before u gs)"
  by (simp only: set_roles_for members_outer)

lemma may_outside: "t \<notin> T \<Longrightarrow> may_with_groups after u gs t \<longleftrightarrow> may_with_groups before u gs t"
proof -
  assume t: "t \<notin> T"
  have "outer_role role" if "hm_has (r_roles before) role t" for role
    using that t by (auto simp: outer_role_def)
  then show ?thesis unfolding may_iff using roles_for_outer roles_outside [OF t] grants_outside [OF t] by blast
qed

lemma tools_outside:
  assumes "t \<notin> T"
  shows "map_of (r_role_tools after) (role, t) = None \<longleftrightarrow> map_of (r_role_tools before) (role, t) = None"
    and "hm_has (r_role_tools after) (role, t) v \<longleftrightarrow> hm_has (r_role_tools before) (role, t) v"
proof -
  have a: "\<not> inside_dir both T [k, role, t, c]" for k c using inside_four assms by blast
  have "map_of (r_role_tools after) (role, t) \<noteq> None \<longleftrightarrow> map_of (r_role_tools before) (role, t) \<noteq> None"
    unfolding fold_parse_fields_sel fold_ext_tools_dom using submitted_inside a by auto
  then show "map_of (r_role_tools after) (role, t) = None \<longleftrightarrow> map_of (r_role_tools before) (role, t) = None"
    by blast
  show "hm_has (r_role_tools after) (role, t) v \<longleftrightarrow> hm_has (r_role_tools before) (role, t) v"
    unfolding fold_parse_fields_sel fold_ext_tools_has using submitted_inside a by auto
qed

lemma may_tool_outside:
  "t \<notin> T \<Longrightarrow> may_tool_with_groups after u gs t tool \<longleftrightarrow> may_tool_with_groups before u gs t tool"
proof -
  assume t: "t \<notin> T"
  have "outer_role role" if "hm_has (r_roles before) role t" for role
    using that t by (auto simp: outer_role_def)
  then show ?thesis
    unfolding may_tool_iff
    using roles_for_outer roles_outside [OF t] grants_outside [OF t] tools_outside [OF t] by blast
qed

lemma ext3_unchanged:
  assumes "k \<in> {''tenant'', ''tenant-admin''}"
  shows "fold (ext3 k g) (filter (\<lambda>f. \<not> inside_dir both T f) A @ S) m = fold (ext3 k g) A m"
proof -
  have i: "\<not> inside_dir both T [k, a, b]" for a b using inside_tenant assms by blast
  have "fold (ext3 k g) S m' = m'" for m'
    by (rule ext3_other) (use submitted_inside i in blast)
  moreover have "fold (ext3 k g) (filter (\<lambda>f. \<not> inside_dir both T f) A) m = fold (ext3 k g) A m"
    by (rule fold_ext3_filter) (use i in blast)
  ultimately show ?thesis by simp
qed

lemma tenants_unchanged:
  "r_tenants after = r_tenants before" "r_tenant_admins after = r_tenant_admins before"
  by (simp_all only: fold_parse_fields_sel ext3_unchanged insert_iff simp_thms)

lemma ext_tree_inside: "inside_dir both T f \<Longrightarrow> ext_tree f ts = ts"
  by (auto simp: ext_tree_def dest: inside_four split: list.split)

lemma trees_unchanged: "r_trees after = r_trees before"
proof -
  have "fold ext_tree (filter (\<lambda>f. \<not> inside_dir both T f) A) ts = fold ext_tree A ts" for ts
    by (induction A arbitrary: ts) (auto simp: ext_tree_inside)
  moreover have "\<forall>f\<in>set S. inside_dir both T f \<Longrightarrow> fold ext_tree S ts = ts" for ts
    by (induction S arbitrary: ts) (auto simp: ext_tree_inside)
  ultimately show ?thesis using submitted_inside by (simp add: fold_parse_fields_sel)
qed

lemma admin_unchanged: "is_admin_with_groups after u gs \<longleftrightarrow> is_admin_with_groups before u gs"
  unfolding is_admin_iff by (rule roles_for_outer) (simp add: outer_role_def)

lemma admin_scope_unchanged: "admin_scope_of after u gs = admin_scope_of before u gs"
  by (simp only: admin_scope_of_def admin_unchanged tenants_unchanged)

end

text \<open>The contract holds for the code's composition, with the directives of its texts.\<close>

text \<open>
  The premises of the contract are those of a successful composition; where it fails, the
  same facts hold of an empty submission, which makes the interpretation unconditional.
\<close>

definition accepted :: "string \<Rightarrow> string \<Rightarrow> string set \<Rightarrow> string" where
  "accepted active submitted T = (if is_ok (compose active submitted T) then submitted else [])"

lemma parse_role_has:
  "hm_has (r_roles (parse text)) role t \<longleftrightarrow>
     (\<exists>b. [''role'', role, b] \<in> set (directives (lines text)) \<and> t \<in> set (csv b))"
  by (simp add: parse_directives fold_parse_fields_sel fold_ext3_has)

interpretation edit: confined_edit "both_rights active (accepted active submitted T)" T
    "directives (lines active)" "directives (lines (accepted active submitted T))"
  for active submitted T
proof unfold_locales
  fix f assume f: "f \<in> set (directives (lines (accepted active submitted T)))"
  show "inside_dir (both_rights active (accepted active submitted T)) T f"
  proof (cases "compose active submitted T")
    case (Inl e)
    with f show ?thesis by (simp add: accepted_def)
  next
    case (Inr out)
    with f compose_directives(2) [OF Inr] show ?thesis by (simp add: accepted_def)
  qed
qed (auto simp: both_roles_has parse_role_has)

lemma compose_parse:
  assumes "compose active submitted T = Inr out"
  shows "parse out = fold parse_fields
      (filter (\<lambda>f. \<not> inside_dir (both_rights active (accepted active submitted T)) T f) (directives (lines active))
        @ directives (lines (accepted active submitted T))) rights_default"
  using compose_directives(1) [OF assms] assms by (simp only: parse_directives accepted_def is_ok_simps if_True)

lemma compose_confines:
  assumes "compose active submitted T = Inr out" and "t \<notin> T"
  shows "(may_with_groups (parse out) u gs t \<longleftrightarrow> may_with_groups (parse active) u gs t) \<and>
    (may_tool_with_groups (parse out) u gs t tool \<longleftrightarrow> may_tool_with_groups (parse active) u gs t tool)"
  unfolding compose_parse [OF assms(1)] parse_directives [of active]
  using edit.may_outside [OF assms(2)] edit.may_tool_outside [OF assms(2)] by blast

lemma compose_keeps_scope:
  "compose active submitted T = Inr out \<Longrightarrow> admin_scope_of (parse out) u gs = admin_scope_of (parse active) u gs"
  by (simp only: compose_parse parse_directives [of active] edit.admin_scope_unchanged)

subsection \<open>Properties\<close>

text \<open>
  C1. A tenant administrator's edit is confined. If the composition of a submission with the
  active policy succeeds, then for every tree outside the administrator's trees, every user
  and every set of identity-provider groups, the composed file grants exactly the access,
  and exactly the tools, that the active file granted.
\<close>

theorem compose_confines_access:
  assumes "compose active submitted T = Inr out" and "t \<notin> T"
  shows "(may_with_groups (parse out) u gs t \<longleftrightarrow> may_with_groups (parse active) u gs t) \<and>
    (may_tool_with_groups (parse out) u gs t tool \<longleftrightarrow> may_tool_with_groups (parse active) u gs t tool)"
  using assms by (rule compose_confines)

text \<open>A policy with two tenants and a workspace across them, and an edit of the first.\<close>

definition sample_policy :: string where
  "sample_policy = unlines (map (join [tab])
     [[''tree'', ''alpha'', ''127.0.0.1:7001'', ''secret-a''],
      [''tree'', ''beta'', ''127.0.0.1:7002'', ''secret-b''],
      [''role'', ''admin'', ''alpha,beta''],
      [''role'', ''pay-dev'', ''alpha''],
      [''role'', ''shop-dev'', ''beta''],
      [''member'', ''root'', ''admin''],
      [''member'', ''anna'', ''pay-dev''],
      [''member'', ''bruno'', ''shop-dev''],
      [''workspace'', ''checkout'', ''beta''],
      [''tenant'', ''payments'', ''alpha''],
      [''tenant-admin'', ''paula'', ''payments'']])"

definition sample_edit :: string where
  "sample_edit = unlines (map (join [tab])
     [[''role'', ''pay-dev'', ''alpha''], [''member'', ''dora'', ''pay-dev'']])"

definition sample_composed :: string where
  "sample_composed = unlines (map (join [tab])
     [[''tree'', ''alpha'', ''127.0.0.1:7001'', ''secret-a''],
      [''tree'', ''beta'', ''127.0.0.1:7002'', ''secret-b''],
      [''role'', ''admin'', ''alpha,beta''],
      [''role'', ''shop-dev'', ''beta''],
      [''member'', ''root'', ''admin''],
      [''member'', ''bruno'', ''shop-dev''],
      [''workspace'', ''checkout'', ''beta''],
      [''tenant'', ''payments'', ''alpha''],
      [''tenant-admin'', ''paula'', ''payments''],
      [''role'', ''pay-dev'', ''alpha''],
      [''member'', ''dora'', ''pay-dev'']])"

lemma sample_compose: "compose sample_policy sample_edit {''alpha''} = Inr sample_composed"
  by code_simp

theorem compose_confines_access_witness:
  "compose sample_policy sample_edit {''alpha''} = Inr sample_composed \<and>
   may_with_groups (parse sample_composed) ''bruno'' [] ''beta'' \<and>
   \<not> may_with_groups (parse sample_composed) ''dora'' [] ''beta''"
proof -
  have b: "''beta'' \<notin> {''alpha''}" by simp
  have "may_with_groups (parse sample_policy) ''bruno'' [] ''beta''"
    "\<not> may_with_groups (parse sample_policy) ''dora'' [] ''beta''" by code_simp+
  then show ?thesis using sample_compose compose_confines_access [OF sample_compose b] by blast
qed

text \<open>
  C2. A tenant administrator's edit administers nothing: who is a global or a tenant
  administrator, for which trees, which tenants there are, and where every tree is served
  with which credential are the same before and after.
\<close>

theorem compose_preserves_administration:
  assumes "compose active submitted T = Inr out"
  shows "admin_scope_of (parse out) u gs = admin_scope_of (parse active) u gs \<and>
    r_trees (parse out) = r_trees (parse active) \<and>
    r_tenants (parse out) = r_tenants (parse active) \<and>
    r_tenant_admins (parse out) = r_tenant_admins (parse active)"
  unfolding compose_parse [OF assms] parse_directives [of active]
  using edit.admin_scope_unchanged edit.trees_unchanged edit.tenants_unchanged by blast

theorem compose_preserves_administration_witness:
  "admin_scope_of (parse sample_composed) ''paula'' [] = Some (Trees {''alpha''}) \<and>
   admin_scope_of (parse sample_composed) ''dora'' [] = None"
proof -
  have "admin_scope_of (parse sample_policy) ''paula'' [] = Some (Trees {''alpha''})"
    "admin_scope_of (parse sample_policy) ''dora'' [] = None" by code_simp+
  then show ?thesis using compose_preserves_administration [OF sample_compose] by simp
qed

subsection \<open>An edit that changes nothing\<close>

text \<open>
  Submitting back what \<open>scoped_text\<close> showed: the roles of the submission are roles of the
  active policy, so the same lines are inside, and the composed file has the same directives.
\<close>

lemma role_union_cong:
  assumes "\<And>role. map_option set (map_of (r_roles r) role) = map_option set (map_of (r_roles r') role)"
  shows "role_union r rs acc = role_union r' rs acc"
proof (induction rs arbitrary: acc)
  case (Cons role rs)
  from assms [of role] show ?case
    by (auto simp: Cons.IH split: option.splits)
qed simp

lemma field_trees_cong:
  assumes "\<And>role. map_option set (map_of (r_roles r) role) = map_option set (map_of (r_roles r') role)"
    and "r_workspaces r = r_workspaces r'"
  shows "field_trees f r = field_trees f r'"
  by (simp only: field_trees_def role_union_cong [OF assms(1)] assms(2))

lemma map_of_fold_hm_extend:
  "map_option set (map_of (fold (\<lambda>(k, vs). hm_extend k vs) ms m) a) =
     (if map_of m a = None \<and> a \<notin> fst ` set ms then None
      else Some (set (hm_vals m a) \<union> {v. \<exists>vs. (a, vs) \<in> set ms \<and> v \<in> set vs}))"
proof (induction ms arbitrary: m)
  case Nil
  show ?case by (auto simp: hm_vals_def split: option.split)
next
  case (Cons p ms)
  obtain k ws where p: "p = (k, ws)" by (cases p)
  show ?case
  proof (cases "k = a")
    case True
    show ?thesis by (simp add: p True Cons.IH map_of_hm_extend hm_vals_extend) blast
  next
    case False
    show ?thesis using False by (simp add: p Cons.IH map_of_hm_extend hm_vals_extend)
  qed
qed

lemma fold_ext3_dom:
  "fst ` set (fold (ext3 key g) ds m) = fst ` set m \<union> {a. \<exists>b. [key, a, b] \<in> set ds}"
  by (induction ds arbitrary: m) (auto simp: ext3_def keys_hm_extend split: list.splits)

lemma scoped_directives:
  "directives (lines (scoped_text text T)) = filter (inside_dir (parse text) T) (directives (lines text))"
proof -
  let ?ls = "filter (\<lambda>l. inside T (line_trees (trim l) (parse text))) (lines text)"
  have "lines (scoped_text text T) = map strip_cr ?ls"
    using lines_no_nl by (auto simp: scoped_text_def Let_def intro!: lines_unlines)
  then have "directives (lines (scoped_text text T)) = directives ?ls"
    by (simp add: directives_map_strip_cr)
  also have "\<dots> = filter (\<lambda>f. inside T (field_trees f (parse text))) (directives (lines text))"
    unfolding line_trees_def by (rule directives_filter)
  finally show ?thesis by (simp add: inside_dir_def [abs_def])
qed

lemma both_scoped:
  "field_trees f (both_rights active (scoped_text active T)) = field_trees f (parse active)"
proof (rule field_trees_cong)
  let ?A = "directives (lines active)" and ?S = "directives (lines (scoped_text active T))"
  have sub: "set ?S \<subseteq> set ?A" by (auto simp: scoped_directives)
  have roles: "r_roles (parse t) = fold (ext3 ''role'' csv) (directives (lines t)) []" for t
    by (simp add: parse_directives fold_parse_fields_sel)
  have ok: "hm_ok (r_roles (parse t))" for t using rights_ok_parse by (simp add: rights_ok_def)
  have has: "hm_has (r_roles (parse (scoped_text active T))) role t \<Longrightarrow> hm_has (r_roles (parse active)) role t" for role t
    using sub by (auto simp: parse_role_has)
  have dom: "fst ` set (r_roles (parse (scoped_text active T))) \<subseteq> fst ` set (r_roles (parse active))"
    using sub by (auto simp: roles fold_ext3_dom)
  fix role
  have vals: "{v. \<exists>vs. (role, vs) \<in> set (r_roles (parse (scoped_text active T))) \<and> v \<in> set vs}
      \<subseteq> set (hm_vals (r_roles (parse active)) role)"
    using has [of role] by (auto simp: hm_has_set [OF ok, symmetric] hm_has_vals)
  have e: "map_option set (map_of (r_roles (both_rights active (scoped_text active T))) role) =
     (if map_of (r_roles (parse active)) role = None \<and> role \<notin> fst ` set (r_roles (parse (scoped_text active T))) then None
      else Some (set (hm_vals (r_roles (parse active)) role) \<union>
        {v. \<exists>vs. (role, vs) \<in> set (r_roles (parse (scoped_text active T))) \<and> v \<in> set vs}))"
    by (simp add: both_rights_def Let_def map_of_fold_hm_extend)
  show "map_option set (map_of (r_roles (both_rights active (scoped_text active T))) role)
      = map_option set (map_of (r_roles (parse active)) role)"
  proof (cases "map_of (r_roles (parse active)) role")
    case None
    then have "role \<notin> fst ` set (r_roles (parse active))" by (simp add: map_of_eq_None_iff)
    with None dom show ?thesis unfolding e by auto
  next
    case (Some ts)
    then show ?thesis unfolding e using vals by (simp add: hm_vals_Some Un_absorb2)
  qed
qed (simp add: both_rights_def Let_def)

lemma compose_scoped_ok: "\<exists>out. compose active (scoped_text active T) T = Inr out"
proof -
  let ?both = "both_rights active (scoped_text active T)"
  let ?ls = "filter (\<lambda>l. inside T (line_trees (trim l) (parse active))) (lines active)"
  have "lines (scoped_text active T) = map strip_cr ?ls"
    using lines_no_nl by (auto simp: scoped_text_def Let_def intro!: lines_unlines)
  then have "\<forall>l\<in>set (nonblank (lines (scoped_text active T))). inside T (line_trees (trim l) ?both)"
    by (auto simp: nonblank_def line_trees_def both_scoped trim_strip_cr)
  then show ?thesis by (auto simp: compose_def Let_def compose_submitted_ok)
qed

text \<open>
  C5. The view a tenant administrator is shown can be submitted back unchanged: the
  composition succeeds, and the resulting file has the same directives as the active one, so
  every decision of every user, inside and outside the tenant, is the same.
\<close>

theorem compose_scoped_roundtrip:
  "\<exists>out. compose active (scoped_text active T) T = Inr out \<and>
     set (directives (lines out)) = set (directives (lines active)) \<and>
     may_with_groups (parse out) u gs t = may_with_groups (parse active) u gs t \<and>
     may_tool_with_groups (parse out) u gs t tool = may_tool_with_groups (parse active) u gs t tool"
proof -
  obtain out where out: "compose active (scoped_text active T) T = Inr out" using compose_scoped_ok by blast
  have d: "set (directives (lines out)) = set (directives (lines active))"
    using compose_directives(1) [OF out]
    by (auto simp: scoped_directives inside_dir_def both_scoped)
  have tools: "map_of (r_role_tools (parse out)) k = None \<longleftrightarrow> map_of (r_role_tools (parse active)) k = None" for k
    by (cases k) (simp add: parse_directives fold_parse_fields_sel tools_None d)
  have "hm_has (r_role_tools (parse out)) k v \<longleftrightarrow> hm_has (r_role_tools (parse active)) k v" for k v
    by (cases k) (simp add: parse_directives fold_parse_fields_sel fold_ext_tools_has d)
  moreover have "hm_has (r_grants (parse out)) k v \<longleftrightarrow> hm_has (r_grants (parse active)) k v"
    "hm_has (r_roles (parse out)) k v \<longleftrightarrow> hm_has (r_roles (parse active)) k v"
    "hm_has (r_members (parse out)) k v \<longleftrightarrow> hm_has (r_members (parse active)) k v"
    "hm_has (r_groups (parse out)) k v \<longleftrightarrow> hm_has (r_groups (parse active)) k v" for k v
    by (simp_all add: parse_directives fold_parse_fields_sel fold_ext3_has d)
  ultimately have "may_with_groups (parse out) u gs t = may_with_groups (parse active) u gs t \<and>
     may_tool_with_groups (parse out) u gs t tool = may_tool_with_groups (parse active) u gs t tool"
    using tools by (auto simp: may_iff may_tool_iff set_roles_for)
  with out d show ?thesis by blast
qed

text \<open>
  A refused submission names the first offending line: the composition fails with line
  number \<open>n + 1\<close> exactly when line \<open>n\<close> (from 0) is the first line that is not blank and
  does not reach the tenant's trees only, and it fails for no other reason.
\<close>

theorem compose_refuses_first_outside_line:
  "compose active submitted T = Inl m \<longleftrightarrow>
     (\<exists>n < length (lines submitted). m = n + 1 \<and>
        trim (lines submitted ! n) \<noteq> [] \<and>
        \<not> inside T (line_trees (trim (lines submitted ! n)) (both_rights active submitted)) \<and>
        (\<forall>l\<in>set (nonblank (take n (lines submitted))). inside T (line_trees (trim l) (both_rights active submitted))))"
  by (simp add: compose_def Let_def compose_submitted_err)

theorem compose_refuses_first_outside_line_witness:
  "compose sample_policy (join [tab] [''member'', ''paula'', ''admin'']) {''alpha''} = Inl 1"
proof -
  let ?s = "join [tab] [''member'', ''paula'', ''admin'']"
  have "lines ?s = [?s]" "trim ?s = ?s" "nonblank (take 0 (lines ?s)) = []" by code_simp+
  moreover have "\<not> inside {''alpha''} (line_trees ?s (both_rights sample_policy ?s))" by code_simp
  ultimately show ?thesis
    by (subst compose_refuses_first_outside_line) (auto intro!: exI [of _ 0])
qed

text \<open>
  Confinement covers access, not workspaces. An accepted edit of one tenant's trees can
  add its tree to a workspace declared entirely outside the tenant, and the users of that
  workspace, who do not reach the added tree, lose it.
\<close>

theorem compose_reaches_foreign_workspace:
  "let submitted = join [tab] [''workspace'', ''checkout'', ''alpha'']
   in \<exists>out. compose sample_policy submitted {''alpha''} = Inr out \<and>
        visible_workspaces (parse sample_policy) ''bruno'' [] = [(''checkout'', [''beta''])] \<and>
        visible_workspaces (parse out) ''bruno'' [] = []"
proof -
  let ?s = "join [tab] [''workspace'', ''checkout'', ''alpha'']"
  have "(case compose sample_policy ?s {''alpha''} of Inl _ \<Rightarrow> False
     | Inr out \<Rightarrow> visible_workspaces (parse out) ''bruno'' [] = [])" by code_simp
  moreover have "visible_workspaces (parse sample_policy) ''bruno'' [] = [(''checkout'', [''beta''])]"
    by code_simp
  ultimately show ?thesis by (auto simp: Let_def split: sum.splits)
qed

end
