(* ===== verification/Json.thy ===== *)
theory Json
  imports Rust_Num "HOL-Library.Option_ord"
begin

text \<open>
  The values of \<^verbatim>\<open>serde_json\<close> and the accessors the program calls on
  them. The library's parser and printer are not modelled: where the program parses or prints
  a document, they are parameters. An object is an association list; the library keeps its
  keys in a sorted map, so nothing in the program depends on their order.
\<close>

datatype json =
  JNull
| JBool bool
| JNum int
| JFloat string
| JStr string
| JArr "json list"
| JObj "(string \<times> json) list"

text \<open>\<^verbatim>\<open>value.get(key)\<close> and \<^verbatim>\<open>value[key]\<close>.\<close>

fun json_get :: "string \<Rightarrow> json \<Rightarrow> json option" where
  "json_get k (JObj kvs) = map_of kvs k"
| "json_get k _ = None"

definition json_index :: "json \<Rightarrow> string \<Rightarrow> json" where
  "json_index v k = (case json_get k v of None \<Rightarrow> JNull | Some x \<Rightarrow> x)"

fun as_str :: "json \<Rightarrow> string option" where
  "as_str (JStr s) = Some s"
| "as_str _ = None"

fun as_u64 :: "json \<Rightarrow> nat option" where
  "as_u64 (JNum n) = (if 0 \<le> n \<and> n < 2 ^ 64 then Some (nat n) else None)"
| "as_u64 _ = None"

fun as_array :: "json \<Rightarrow> json list option" where
  "as_array (JArr xs) = Some xs"
| "as_array _ = None"

fun as_object :: "json \<Rightarrow> (string \<times> json) list option" where
  "as_object (JObj kvs) = Some kvs"
| "as_object _ = None"

fun as_bool :: "json \<Rightarrow> bool option" where
  "as_bool (JBool b) = Some b"
| "as_bool _ = None"

definition json_strs :: "string list \<Rightarrow> json" where
  "json_strs ss = JArr (map JStr ss)"

text \<open>The strings of an array, \<^verbatim>\<open>into_iter().flatten().filter_map(Value::as_str)\<close>.\<close>

definition strs_of :: "json \<Rightarrow> string list" where
  "strs_of v = (case as_array v of None \<Rightarrow> [] | Some xs \<Rightarrow> List.map_filter as_str xs)"

lemma json_index_obj [simp]:
  "json_index (JObj ((k, v) # kvs)) k' = (if k' = k then v else json_index (JObj kvs) k')"
  "json_index (JObj []) k' = JNull"
  by (simp_all add: json_index_def)

lemma strs_of_strs [simp]: "strs_of (json_strs ss) = ss"
  by (induction ss) (simp_all add: strs_of_def json_strs_def List.map_filter_simps)

lemma map_filter_Some_map: "List.map_filter (\<lambda>x. Some (f x)) xs = map f xs"
  by (induction xs) (simp_all add: List.map_filter_simps)

end
