(* ===== verification/Rights_Report.thy ===== *)
theory Rights_Report
  imports Rights Json "HOL-Library.Multiset"
begin

text \<open>
  \<^verbatim>\<open>src/rights.rs\<close>, the two documents made from a policy: the access review
  (\<open>access_review\<close>) and the validation report (\<open>validate_text\<close>).

  The review is shown to lose nothing (every decision can be taken from it), to hold no
  credentials, and not to depend on the iteration order of the hash maps. The validator is
  shown to accept exactly the files each of whose directives is well-formed and refers only
  to what the file defines.
\<close>

subsection \<open>The access review\<close>

definition sort_dedup :: "string list \<Rightarrow> string list" where
  "sort_dedup xs = remdups_adj (sort xs)"

definition review_grant :: "string \<times> string list \<Rightarrow> json" where
  "review_grant e = (case e of (user, trees) \<Rightarrow>
     JObj [(''user'', JStr user), (''trees'', json_strs (sort_dedup trees)), (''tool_access'', JStr ''all'')])"

text \<open>The members, or the groups, of a role: the keys whose lists name it.\<close>

definition holders :: "string \<Rightarrow> (string, string list) hmap \<Rightarrow> string list" where
  "holders role m = sort (map fst (filter (\<lambda>(_, roles). list_ex (\<lambda>c. c = role) roles) m))"

definition review_tools :: "rights \<Rightarrow> string \<Rightarrow> string \<Rightarrow> json" where
  "review_tools r role t =
     (case map_of (r_role_tools r) (role, t) of
        Some tools \<Rightarrow> JObj [(''tree'', JStr t), (''mode'', JStr ''allowlist''), (''tools'', json_strs (sort_dedup tools))]
      | None \<Rightarrow> JObj [(''tree'', JStr t), (''mode'', JStr ''all''), (''tools'', json_strs [])])"

definition review_role :: "rights \<Rightarrow> string \<Rightarrow> json" where
  "review_role r role =
     (let trees = sort_dedup (hm_vals (r_roles r) role) in
      JObj [(''role'', JStr role), (''trees'', json_strs trees),
            (''local_members'', json_strs (holders role (r_members r))),
            (''mapped_idp_groups'', json_strs (holders role (r_groups r))),
            (''tool_access'', JArr (map (review_tools r role) trees))])"

definition access_review :: "rights \<Rightarrow> json" where
  "access_review r =
     JObj [(''schema'', JStr ''glasir.access-review.v1''),
           (''trees'', json_strs (sort (map t_name (r_trees r)))),
           (''direct_grants'', JArr (sort_key (\<lambda>v. as_str (json_index v ''user'')) (map review_grant (r_grants r)))),
           (''roles'', JArr (map (review_role r) (sort (map fst (r_roles r)))))]"

subsection \<open>Reading the review\<close>

text \<open>What an auditor reads off the document for a user with some groups.\<close>

definition entry_allows :: "string \<Rightarrow> string \<Rightarrow> json \<Rightarrow> bool" where
  "entry_allows t tool a \<longleftrightarrow> as_str (json_index a ''tree'') = Some t \<and>
     (as_str (json_index a ''mode'') = Some ''all'' \<or> tool \<in> set (strs_of (json_index a ''tools'')))"

definition items :: "json \<Rightarrow> json list" where
  "items v = (case as_array v of None \<Rightarrow> [] | Some xs \<Rightarrow> xs)"

definition review_allows :: "json \<Rightarrow> string \<Rightarrow> string list \<Rightarrow> string \<Rightarrow> string \<Rightarrow> bool" where
  "review_allows doc u gs t tool \<longleftrightarrow>
     (\<exists>g\<in>set (items (json_index doc ''direct_grants'')).
        as_str (json_index g ''user'') = Some u \<and> t \<in> set (strs_of (json_index g ''trees''))) \<or>
     (\<exists>ro\<in>set (items (json_index doc ''roles'')).
        (u \<in> set (strs_of (json_index ro ''local_members'')) \<or>
         (\<exists>g\<in>set gs. g \<in> set (strs_of (json_index ro ''mapped_idp_groups'')))) \<and>
        (\<exists>a\<in>set (items (json_index ro ''tool_access'')). entry_allows t tool a))"

text \<open>Whether the user reaches the tree at all: a direct grant, or a role held that lists it.\<close>

definition review_reaches :: "json \<Rightarrow> string \<Rightarrow> string list \<Rightarrow> string \<Rightarrow> bool" where
  "review_reaches doc u gs t \<longleftrightarrow>
     (\<exists>g\<in>set (items (json_index doc ''direct_grants'')).
        as_str (json_index g ''user'') = Some u \<and> t \<in> set (strs_of (json_index g ''trees''))) \<or>
     (\<exists>ro\<in>set (items (json_index doc ''roles'')).
        (u \<in> set (strs_of (json_index ro ''local_members'')) \<or>
         (\<exists>g\<in>set gs. g \<in> set (strs_of (json_index ro ''mapped_idp_groups'')))) \<and>
        t \<in> set (strs_of (json_index ro ''trees'')))"

lemma set_sort_dedup' [simp]: "set (sort_dedup xs) = set xs"
  by (simp add: sort_dedup_def)

lemma items_arr [simp]: "items (JArr xs) = xs"
  by (simp add: items_def)

lemma holders_iff: "hm_ok m \<Longrightarrow> u \<in> set (holders role m) \<longleftrightarrow> hm_has m u role"
  unfolding hm_has_set by (force simp: holders_def list_ex_iff)

lemma review_tools_allows:
  "entry_allows t tool (review_tools r role t') \<longleftrightarrow>
     t' = t \<and> (map_of (r_role_tools r) (role, t) = None \<or> hm_has (r_role_tools r) (role, t) tool)"
  by (cases "map_of (r_role_tools r) (role, t')") (auto simp: review_tools_def entry_allows_def hm_has_def)

lemma review_grants_iff:
  assumes "hm_ok m"
  shows "(\<exists>g\<in>set (map review_grant m). as_str (json_index g ''user'') = Some u \<and> t \<in> set (strs_of (json_index g ''trees'')))
     \<longleftrightarrow> hm_has m u t"
  unfolding hm_has_set [OF assms] by (force simp: review_grant_def)

lemma review_role_iff:
  assumes "hm_ok (r_members r)" "hm_ok (r_groups r)"
  shows "((u \<in> set (strs_of (json_index (review_role r role) ''local_members'')) \<or>
         (\<exists>g\<in>set gs. g \<in> set (strs_of (json_index (review_role r role) ''mapped_idp_groups'')))) \<and>
        (\<exists>a\<in>set (items (json_index (review_role r role) ''tool_access'')). entry_allows t tool a)) \<longleftrightarrow>
     role \<in> set (roles_for r u gs) \<and> hm_has (r_roles r) role t \<and>
        (map_of (r_role_tools r) (role, t) = None \<or> hm_has (r_role_tools r) (role, t) tool)"
  using assms
  by (auto simp: review_role_def Let_def holders_iff review_tools_allows set_roles_for hm_has_vals)

lemma review_allows_iff:
  assumes "rights_ok r"
  shows "review_allows (access_review r) u gs t tool \<longleftrightarrow> may_tool_with_groups r u gs t tool"
proof -
  have ok: "hm_ok (r_grants r)" "hm_ok (r_members r)" "hm_ok (r_groups r)" using assms by (auto simp: rights_ok_def)
  have dom: "hm_has (r_roles r) role t \<Longrightarrow> role \<in> set (map fst (r_roles r))" for role
    by (cases "map_of (r_roles r) role") (force simp: hm_has_def dest: map_of_SomeD)+
  have "review_allows (access_review r) u gs t tool \<longleftrightarrow> hm_has (r_grants r) u t \<or>
      (\<exists>role\<in>set (map fst (r_roles r)). role \<in> set (roles_for r u gs) \<and> hm_has (r_roles r) role t \<and>
        (map_of (r_role_tools r) (role, t) = None \<or> hm_has (r_role_tools r) (role, t) tool))"
    unfolding review_grants_iff [OF ok(1), symmetric] review_role_iff [OF ok(2,3), symmetric]
    by (simp add: review_allows_def access_review_def)
  also have "\<dots> \<longleftrightarrow> may_tool_with_groups r u gs t tool"
    unfolding may_tool_iff using dom by blast
  finally show ?thesis .
qed

lemma review_role_reaches:
  assumes "hm_ok (r_members r)" "hm_ok (r_groups r)"
  shows "((u \<in> set (strs_of (json_index (review_role r role) ''local_members'')) \<or>
         (\<exists>g\<in>set gs. g \<in> set (strs_of (json_index (review_role r role) ''mapped_idp_groups'')))) \<and>
        t \<in> set (strs_of (json_index (review_role r role) ''trees''))) \<longleftrightarrow>
     role \<in> set (roles_for r u gs) \<and> hm_has (r_roles r) role t"
  using assms by (auto simp: review_role_def Let_def holders_iff set_roles_for hm_has_vals)

lemma review_reaches_iff:
  assumes "rights_ok r"
  shows "review_reaches (access_review r) u gs t \<longleftrightarrow> may_with_groups r u gs t"
proof -
  have ok: "hm_ok (r_grants r)" "hm_ok (r_members r)" "hm_ok (r_groups r)" using assms by (auto simp: rights_ok_def)
  have dom: "hm_has (r_roles r) role t \<Longrightarrow> role \<in> set (map fst (r_roles r))" for role
    by (cases "map_of (r_roles r) role") (force simp: hm_has_def dest: map_of_SomeD)+
  have "review_reaches (access_review r) u gs t \<longleftrightarrow> hm_has (r_grants r) u t \<or>
      (\<exists>role\<in>set (map fst (r_roles r)). role \<in> set (roles_for r u gs) \<and> hm_has (r_roles r) role t)"
    unfolding review_grants_iff [OF ok(1), symmetric] review_role_reaches [OF ok(2,3), symmetric]
    by (simp add: review_reaches_def access_review_def)
  also have "\<dots> \<longleftrightarrow> may_with_groups r u gs t" unfolding may_iff using dom by blast
  finally show ?thesis .
qed

lemma review_trees: "t \<in> set (strs_of (json_index (access_review r) ''trees'')) \<longleftrightarrow> tree_named r t \<noteq> None"
  by (auto simp: access_review_def tree_named_def find_None_iff)

text \<open>
  C12. The access review loses nothing: which trees are served, which of them any user with any set of groups
  reaches, and which tools the user may call there can be read off the document. The last two differ: who holds
  a tree by a role whose allowlist for it is empty reaches the tree and may call no tool.
\<close>

theorem access_review_complete:
  "(review_reaches (access_review (parse text)) u gs t \<longleftrightarrow> may_with_groups (parse text) u gs t) \<and>
   (review_allows (access_review (parse text)) u gs t tool \<longleftrightarrow> may_tool_with_groups (parse text) u gs t tool) \<and>
   (t \<in> set (strs_of (json_index (access_review (parse text)) ''trees'')) \<longleftrightarrow> tree_named (parse text) t \<noteq> None)"
  using review_reaches_iff [OF rights_ok_parse] review_allows_iff [OF rights_ok_parse] review_trees by blast

subsection \<open>What the review does not say\<close>

definition same_but_backends :: "rights \<Rightarrow> rights \<Rightarrow> bool" where
  "same_but_backends r r' \<longleftrightarrow> map t_name (r_trees r) = map t_name (r_trees r') \<and>
     r_grants r = r_grants r' \<and> r_roles r = r_roles r' \<and> r_members r = r_members r' \<and>
     r_role_tools r = r_role_tools r' \<and> r_groups r = r_groups r'"

text \<open>The same maps in another iteration order.\<close>

definition hmap_perm :: "rights \<Rightarrow> rights \<Rightarrow> bool" where
  "hmap_perm r r' \<longleftrightarrow> rights_ok r \<and> rights_ok r' \<and> r_trees r = r_trees r' \<and>
     set (r_grants r) = set (r_grants r') \<and> set (r_roles r) = set (r_roles r') \<and>
     set (r_members r) = set (r_members r') \<and> set (r_role_tools r) = set (r_role_tools r') \<and>
     set (r_groups r) = set (r_groups r')"

lemma sort_key_unique_set:
  assumes "set xs = set ys" and "distinct xs" "distinct ys" and "inj_on f (set xs)"
  shows "sort_key f xs = sort_key f ys"
proof (rule sort_key_inj_key_eq)
  show "mset xs = mset (sort_key f ys)" using assms(1-3) by (simp add: set_eq_iff_mset_eq_distinct [symmetric])
qed (use assms in simp_all)

lemma distinct_hm: "hm_ok m \<Longrightarrow> distinct m"
  by (auto simp: hm_ok_def distinct_map)

lemma hm_perm:
  assumes "hm_ok m" "hm_ok m'" "set m = set m'"
  shows "map_of m = map_of m'" "hm_vals m = hm_vals m'" "sort (map fst m) = sort (map fst m')"
    "holders role m = holders role m'"
proof -
  show mp: "map_of m = map_of m'" by (rule hm_map_of_perm [OF assms(1,3,2)])
  then show "hm_vals m = hm_vals m'" by (simp add: hm_vals_def fun_eq_iff)
  have keys: "set (map fst m) = set (map fst m')" using assms(3) by simp
  with assms show "sort (map fst m) = sort (map fst m')"
    by (intro sort_key_unique_set) (auto simp: hm_ok_def)
  have "hm_ok (filter P m)" if "hm_ok m" for P and m :: "(string \<times> string list) list"
    using that by (simp add: hm_ok_def distinct_map_filter)
  then have "distinct (map fst (filter P m))" "distinct (map fst (filter P m'))" for P
    using assms by (auto simp: hm_ok_def)
  then show "holders role m = holders role m'"
    unfolding holders_def using assms(3) by (intro sort_key_unique_set) auto
qed

lemma review_grants_perm:
  assumes "hm_ok m" "hm_ok m'" "set m = set m'"
  shows "sort_key (\<lambda>v. as_str (json_index v ''user'')) (map review_grant m)
       = sort_key (\<lambda>v. as_str (json_index v ''user'')) (map review_grant m')"
proof (rule sort_key_unique_set)
  have user: "as_str (json_index (review_grant e) ''user'') = Some (fst e)" for e
    by (simp add: review_grant_def split: prod.split)
  have key: "fst e = fst e' \<Longrightarrow> e = e'" if "e \<in> set m" "e' \<in> set m" for e e'
    using that assms(1) by (auto simp: hm_ok_def distinct_map inj_on_def)
  have inj: "inj_on review_grant (set m)"
    by (intro inj_onI key) (metis user option.inject)+
  show "inj_on (\<lambda>v. as_str (json_index v ''user'')) (set (map review_grant m))"
    by (intro inj_onI) (auto simp: user dest: key)
  show "distinct (map review_grant m)" "distinct (map review_grant m')"
    using inj assms distinct_hm by (auto simp: distinct_map)
  show "set (map review_grant m) = set (map review_grant m')" using assms(3) by simp
qed

text \<open>
  The access review is deterministic and holds no credentials: it does not depend on the
  iteration order of the hash maps, and not on the addresses and tokens of the backends.
\<close>

theorem access_review_deterministic:
  assumes "hmap_perm r r'" and "same_but_backends r' r''"
  shows "access_review r = access_review r''"
proof -
  note ok = assms(1) [unfolded hmap_perm_def rights_ok_def]
  have "review_role r = review_role r'"
  proof
    fix role show "review_role r role = review_role r' role"
      using ok hm_perm [of "r_roles r" "r_roles r'"] hm_perm [of "r_members r" "r_members r'"]
        hm_perm [of "r_groups r" "r_groups r'"] hm_map_of_perm [of "r_role_tools r" "r_role_tools r'"]
      by (simp add: review_role_def review_tools_def [abs_def])
  qed
  moreover have "sort (map fst (r_roles r)) = sort (map fst (r_roles r'))" using ok by (intro hm_perm(3)) auto
  moreover have "sort_key (\<lambda>v. as_str (json_index v ''user'')) (map review_grant (r_grants r))
       = sort_key (\<lambda>v. as_str (json_index v ''user'')) (map review_grant (r_grants r'))"
    using ok by (intro review_grants_perm) auto
  ultimately have "access_review r = access_review r'" using ok by (simp add: access_review_def)
  also have "\<dots> = access_review r''"
  proof -
    have "review_tools r' = review_tools r''"
      using assms(2) by (simp add: same_but_backends_def review_tools_def fun_eq_iff)
    then have "review_role r' = review_role r''"
      using assms(2) by (simp add: same_but_backends_def review_role_def Let_def fun_eq_iff)
    then show ?thesis using assms(2) by (simp add: access_review_def same_but_backends_def)
  qed
  finally show ?thesis .
qed

theorem access_review_deterministic_witness:
  "access_review (rights_default\<lparr>r_trees := [\<lparr>t_name = ''a'', t_addr = ''h:1'', t_token = ''s1''\<rparr>],
       r_grants := [(''u'', [''a'']), (''v'', [''a''])]\<rparr>) =
   access_review (rights_default\<lparr>r_trees := [\<lparr>t_name = ''a'', t_addr = ''h:2'', t_token = ''s2''\<rparr>],
       r_grants := [(''v'', [''a'']), (''u'', [''a''])]\<rparr>)" (is "access_review ?r = access_review ?s")
proof -
  let ?m = "?r\<lparr>r_grants := [(''v'', [''a'']), (''u'', [''a''])]\<rparr>"
  have "hmap_perm ?r ?m" by (auto simp: hmap_perm_def rights_ok_def hm_ok_def)
  moreover have "same_but_backends ?m ?s" by (simp add: same_but_backends_def)
  ultimately show ?thesis by (rule access_review_deterministic)
qed

subsection \<open>The validator\<close>

text \<open>
  One constructor per message of the report, with the line number and the names the message
  quotes.
\<close>

datatype issue =
  InvalidTreeName nat string
| TreeAddress nat string string
| EmptyToken nat string
| DuplicateTree nat string
| NoTargets nat string string
| BadWorkspace nat string
| BadPackage nat
| BadTenant nat string
| Malformed nat string
| UndefinedTree nat string string string
| UndefinedRole nat string string string
| UndefinedWorkspace nat string
| UndefinedTenant nat string string
| BadTool nat string

record rights_report =
  rep_tree_count :: nat
  rep_user_count :: nat
  rep_role_count :: nat
  rep_errors :: "issue list"
  rep_warnings :: "issue list"

definition report_is_valid :: "rights_report \<Rightarrow> bool" where
  "report_is_valid rep \<longleftrightarrow> rep_errors rep = []"

type_synonym declared = "(nat \<times> string \<times> string list) list"

text \<open>The first pass: errors and warnings so far, and what was declared where.\<close>

record vstate =
  v_errors :: "issue list"
  v_warnings :: "issue list"
  v_tree_names :: "string list"
  v_grants :: declared
  v_roles :: declared
  v_members :: declared
  v_role_tools :: "(nat \<times> string \<times> string \<times> string list) list"
  v_groups :: declared
  v_workspaces :: declared
  v_packages :: declared
  v_tenants :: declared
  v_tenant_admins :: declared

definition vstate_default :: vstate where
  "vstate_default = \<lparr>v_errors = [], v_warnings = [], v_tree_names = [], v_grants = [], v_roles = [],
     v_members = [], v_role_tools = [], v_groups = [], v_workspaces = [], v_packages = [], v_tenants = [],
     v_tenant_admins = []\<rparr>"

definition verr :: "issue \<Rightarrow> vstate \<Rightarrow> vstate" where
  "verr e v = v\<lparr>v_errors := v_errors v @ [e]\<rparr>"

definition validate_tree :: "nat \<Rightarrow> string \<Rightarrow> string \<Rightarrow> string \<Rightarrow> vstate \<Rightarrow> vstate" where
  "validate_tree n name addr token v =
     (let v = (if CHR ''/'' \<in> set name \<or> backslash \<in> set name \<or> contains_str ''..'' name
               then verr (InvalidTreeName n name) v else v);
          v = (if CHR '':'' \<notin> set addr then verr (TreeAddress n name addr) v else v);
          v = (if token = [] then verr (EmptyToken n name) v else v)
      in if name \<in> set (v_tree_names v) then v\<lparr>v_warnings := v_warnings v @ [DuplicateTree n name]\<rparr>
         else v\<lparr>v_tree_names := v_tree_names v @ [name]\<rparr>)"

definition validate_three :: "nat \<Rightarrow> string \<Rightarrow> string \<Rightarrow> string \<Rightarrow> string \<Rightarrow> vstate \<Rightarrow> vstate" where
  "validate_three n l k a b v =
     (let targets = csv b in
      if k = ''grant'' then
        (if targets = [] then verr (NoTargets n k a) v else v\<lparr>v_grants := v_grants v @ [(n, a, targets)]\<rparr>)
      else if k = ''role'' then
        (if targets = [] then verr (NoTargets n k a) v else v\<lparr>v_roles := v_roles v @ [(n, a, targets)]\<rparr>)
      else if k = ''member'' then
        (if targets = [] then verr (NoTargets n k a) v else v\<lparr>v_members := v_members v @ [(n, a, targets)]\<rparr>)
      else if k = ''group'' then
        (if targets = [] then verr (NoTargets n k a) v else v\<lparr>v_groups := v_groups v @ [(n, a, targets)]\<rparr>)
      else if k = ''workspace'' then
        (if \<not> is_valid_identifier a \<or> targets = [] then verr (BadWorkspace n a) v
         else v\<lparr>v_workspaces := v_workspaces v @ [(n, a, targets)]\<rparr>)
      else if k = ''workspace-package'' then
        (if \<not> is_valid_identifier a \<or> targets = [] \<or> list_ex (\<lambda>p. split_once (CHR ''@'') p = None) targets
         then verr (BadPackage n) v
         else v\<lparr>v_packages := v_packages v @ [(n, a, targets)]\<rparr>)
      else if k = ''tenant'' then
        (if \<not> is_valid_identifier a \<or> targets = [] then verr (BadTenant n a) v
         else v\<lparr>v_tenants := v_tenants v @ [(n, a, targets)]\<rparr>)
      else if k = ''tenant-admin'' then
        (if targets = [] then verr (NoTargets n k a) v
         else v\<lparr>v_tenant_admins := v_tenant_admins v @ [(n, a, targets)]\<rparr>)
      else verr (Malformed n l) v)"

definition validate_fields :: "nat \<Rightarrow> string \<Rightarrow> string list \<Rightarrow> vstate \<Rightarrow> vstate" where
  "validate_fields n l f v = (case f of
     [k, a, b, c] \<Rightarrow>
       (if k = ''tree'' then validate_tree n a b c v
        else if k = ''role-tool'' then
          (if csv c = [] then verr (NoTargets n k a) v
           else v\<lparr>v_role_tools := v_role_tools v @ [(n, a, b, csv c)]\<rparr>)
        else verr (Malformed n l) v)
   | [k, a, b] \<Rightarrow> validate_three n l k a b v
   | _ \<Rightarrow> verr (Malformed n l) v)"

definition validate_line :: "nat \<times> string \<Rightarrow> vstate \<Rightarrow> vstate" where
  "validate_line numbered v = (case numbered of (n, line) \<Rightarrow>
     let l = trim line in if comment_or_blank l then v else validate_fields (n + 1) l (pieces tab l) v)"

text \<open>The second pass: every declared target must be among the defined names.\<close>

definition undefined_refs :: "(nat \<Rightarrow> string \<Rightarrow> string \<Rightarrow> issue) \<Rightarrow> string list \<Rightarrow> declared \<Rightarrow> issue list" where
  "undefined_refs e names ds =
     concat (map (\<lambda>(n, x, ts). concat (map (\<lambda>t. if t \<in> set names then [] else [e n x t]) ts)) ds)"

definition tool_refs :: "string list \<Rightarrow> string list \<Rightarrow> (nat \<times> string \<times> string \<times> string list) list \<Rightarrow> issue list" where
  "tool_refs roles trees ds =
     concat (map (\<lambda>(n, role, t, tools).
       (if role \<in> set roles then [] else [UndefinedRole n ''role-tool'' role role]) @
       (if t \<in> set trees then [] else [UndefinedTree n ''role-tool'' role t]) @
       concat (map (\<lambda>tool. if is_valid_identifier tool then [] else [BadTool n tool]) tools)) ds)"

definition package_refs :: "string list \<Rightarrow> declared \<Rightarrow> issue list" where
  "package_refs names ds = concat (map (\<lambda>(n, w, _). if w \<in> set names then [] else [UndefinedWorkspace n w]) ds)"

definition declared_names :: "declared \<Rightarrow> string list" where
  "declared_names ds = remdups (map (\<lambda>(_, x, _). x) ds)"

definition validate_text :: "string \<Rightarrow> rights_report" where
  "validate_text s =
     (let v = fold validate_line (enumerate 0 (lines s)) vstate_default;
          trees = v_tree_names v;
          roles = declared_names (v_roles v);
          workspaces = declared_names (v_workspaces v);
          tenants = declared_names (v_tenants v);
          users = declared_names (v_grants v @ v_members v @ v_tenant_admins v)
      in \<lparr>rep_tree_count = length trees, rep_user_count = length users, rep_role_count = length roles,
          rep_errors = v_errors v @
            undefined_refs (\<lambda>n. UndefinedRole n ''member'') roles (v_members v) @
            tool_refs roles trees (v_role_tools v) @
            undefined_refs (\<lambda>n. UndefinedTree n ''workspace'') trees (v_workspaces v) @
            package_refs workspaces (v_packages v) @
            undefined_refs (\<lambda>n. UndefinedRole n ''group'') roles (v_groups v) @
            undefined_refs (\<lambda>n. UndefinedTree n ''tenant'') trees (v_tenants v) @
            undefined_refs UndefinedTenant tenants (v_tenant_admins v),
          rep_warnings = v_warnings v @
            undefined_refs (\<lambda>n. UndefinedTree n ''grant'') trees (v_grants v) @
            undefined_refs (\<lambda>n. UndefinedTree n ''role'') trees (v_roles v)\<rparr>)"

subsection \<open>What a valid file is\<close>

definition tree_names_of :: "string list set \<Rightarrow> string set" where
  "tree_names_of ds = {a. \<exists>b c. [''tree'', a, b, c] \<in> ds}"

definition names_of :: "string \<Rightarrow> string list set \<Rightarrow> string set" where
  "names_of k ds = {a. \<exists>b. [k, a, b] \<in> ds}"

text \<open>A directive is well-formed by itself.\<close>

definition shape_ok :: "string list \<Rightarrow> bool" where
  "shape_ok f = (case f of
     [k, a, b, c] \<Rightarrow>
       (k = ''tree'' \<and> CHR ''/'' \<notin> set a \<and> backslash \<notin> set a \<and> \<not> contains_str ''..'' a \<and> CHR '':'' \<in> set b \<and> c \<noteq> []) \<or>
       (k = ''role-tool'' \<and> csv c \<noteq> [])
   | [k, a, b] \<Rightarrow>
       csv b \<noteq> [] \<and>
       (k \<in> {''grant'', ''role'', ''member'', ''group'', ''tenant-admin''} \<or>
        k \<in> {''workspace'', ''tenant''} \<and> is_valid_identifier a \<or>
        k = ''workspace-package'' \<and> is_valid_identifier a \<and> (\<forall>p\<in>set (csv b). CHR ''@'' \<in> set p))
   | _ \<Rightarrow> False)"

text \<open>What it refers to is defined in the file.\<close>

definition refs_ok :: "string list set \<Rightarrow> string list \<Rightarrow> bool" where
  "refs_ok ds f = (case f of
     [k, a, b, c] \<Rightarrow> k = ''role-tool'' \<longrightarrow>
       a \<in> names_of ''role'' ds \<and> b \<in> tree_names_of ds \<and> (\<forall>tool\<in>set (csv c). is_valid_identifier tool)
   | [k, a, b] \<Rightarrow>
       (k \<in> {''member'', ''group''} \<longrightarrow> set (csv b) \<subseteq> names_of ''role'' ds) \<and>
       (k \<in> {''workspace'', ''tenant''} \<longrightarrow> set (csv b) \<subseteq> tree_names_of ds) \<and>
       (k = ''workspace-package'' \<longrightarrow> a \<in> names_of ''workspace'' ds) \<and>
       (k = ''tenant-admin'' \<longrightarrow> set (csv b) \<subseteq> names_of ''tenant'' ds)
   | _ \<Rightarrow> True)"

lemma verr_sel [simp]:
  "v_errors (verr e v) = v_errors v @ [e]" "v_warnings (verr e v) = v_warnings v" "v_tree_names (verr e v) = v_tree_names v"
  "v_grants (verr e v) = v_grants v" "v_roles (verr e v) = v_roles v" "v_members (verr e v) = v_members v"
  "v_role_tools (verr e v) = v_role_tools v" "v_groups (verr e v) = v_groups v"
  "v_workspaces (verr e v) = v_workspaces v" "v_packages (verr e v) = v_packages v"
  "v_tenants (verr e v) = v_tenants v" "v_tenant_admins (verr e v) = v_tenant_admins v"
  by (simp_all add: verr_def)

lemma validate_errors: "v_errors (validate_fields n l f v) = [] \<longleftrightarrow> v_errors v = [] \<and> shape_ok f"
proof (cases f rule: fields_cases)
  case (three k a b)
  have at: "list_ex (\<lambda>p. split_once (CHR ''@'') p = None) xs \<longleftrightarrow> \<not> (\<forall>p\<in>set xs. CHR ''@'' \<in> set p)" for xs
    by (auto simp: list_ex_iff split_once_None)
  show ?thesis by (simp add: three validate_fields_def validate_three_def shape_ok_def at Let_def)
next
  case (four k a b c)
  show ?thesis by (simp add: four validate_fields_def validate_tree_def shape_ok_def Let_def)
next
  case other
  have "validate_fields n l f v = verr (Malformed n l) v" "\<not> shape_ok f"
    using other by (auto simp: validate_fields_def shape_ok_def split: list.split)
  then show ?thesis by simp
qed

definition decl3 :: "string \<Rightarrow> (string \<Rightarrow> string list \<Rightarrow> bool) \<Rightarrow> nat \<Rightarrow> string list \<Rightarrow> declared" where
  "decl3 key P n f = (case f of [k, a, b] \<Rightarrow> if k = key \<and> csv b \<noteq> [] \<and> P a (csv b) then [(n, a, csv b)] else [] | _ \<Rightarrow> [])"

definition decl_tool :: "nat \<Rightarrow> string list \<Rightarrow> (nat \<times> string \<times> string \<times> string list) list" where
  "decl_tool n f = (case f of [k, a, b, c] \<Rightarrow> if k = ''role-tool'' \<and> csv c \<noteq> [] then [(n, a, b, csv c)] else [] | _ \<Rightarrow> [])"

definition packages_ok :: "string \<Rightarrow> string list \<Rightarrow> bool" where
  "packages_ok a ps \<longleftrightarrow> is_valid_identifier a \<and> \<not> list_ex (\<lambda>p. split_once (CHR ''@'') p = None) ps"

lemma validate_sel:
  "v_grants (validate_fields n l f v) = v_grants v @ decl3 ''grant'' (\<lambda>_ _. True) n f" (is ?g1)
  "v_roles (validate_fields n l f v) = v_roles v @ decl3 ''role'' (\<lambda>_ _. True) n f" (is ?g2)
  "v_members (validate_fields n l f v) = v_members v @ decl3 ''member'' (\<lambda>_ _. True) n f" (is ?g3)
  "v_groups (validate_fields n l f v) = v_groups v @ decl3 ''group'' (\<lambda>_ _. True) n f" (is ?g4)
  "v_workspaces (validate_fields n l f v) = v_workspaces v @ decl3 ''workspace'' (\<lambda>a _. is_valid_identifier a) n f" (is ?g5)
  "v_packages (validate_fields n l f v) = v_packages v @ decl3 ''workspace-package'' packages_ok n f" (is ?g6)
  "v_tenants (validate_fields n l f v) = v_tenants v @ decl3 ''tenant'' (\<lambda>a _. is_valid_identifier a) n f" (is ?g7)
  "v_tenant_admins (validate_fields n l f v) = v_tenant_admins v @ decl3 ''tenant-admin'' (\<lambda>_ _. True) n f" (is ?g8)
  "v_role_tools (validate_fields n l f v) = v_role_tools v @ decl_tool n f" (is ?g9)
  "set (v_tree_names (validate_fields n l f v)) = set (v_tree_names v) \<union> tree_names_of {f}" (is ?g10)
proof -
  have "?g1 \<and> ?g2 \<and> ?g3 \<and> ?g4 \<and> ?g5 \<and> ?g6 \<and> ?g7 \<and> ?g8 \<and> ?g9 \<and> ?g10"
  proof (cases f rule: fields_cases)
    case (three k a b)
    show ?thesis
      by (simp add: three validate_fields_def validate_three_def decl3_def decl_tool_def tree_names_of_def packages_ok_def Let_def)
  next
    case (four k a b c)
    show ?thesis
      by (auto simp: four validate_fields_def validate_tree_def decl3_def decl_tool_def tree_names_of_def Let_def)
  next
    case other
    have "validate_fields n l f v = verr (Malformed n l) v"
      using other by (auto simp: validate_fields_def split: list.split)
    moreover have "decl3 key P n f = []" "decl_tool n f = []" "tree_names_of {f} = {}" for key P
      using other by (auto simp: decl3_def decl_tool_def tree_names_of_def split: list.split)
    ultimately show ?thesis by simp
  qed
  then show ?g1 ?g2 ?g3 ?g4 ?g5 ?g6 ?g7 ?g8 ?g9 ?g10 by blast+
qed

text \<open>The directives with their line numbers and texts.\<close>

definition numbered :: "(nat \<times> string) list \<Rightarrow> (nat \<times> string \<times> string list) list" where
  "numbered ls = concat (map (\<lambda>(n, line). let l = trim line in
     if comment_or_blank l then [] else [(n + 1, l, pieces tab l)]) ls)"

definition vstep :: "nat \<times> string \<times> string list \<Rightarrow> vstate \<Rightarrow> vstate" where
  "vstep d v = (case d of (n, l, f) \<Rightarrow> validate_fields n l f v)"

lemma numbered_Cons: "numbered ((n, line) # ls) =
    (if comment_or_blank (trim line) then [] else [(n + 1, trim line, pieces tab (trim line))]) @ numbered ls"
  by (simp add: numbered_def Let_def)

lemma numbered_Nil [simp]: "numbered [] = []"
  by (simp add: numbered_def)

lemma fold_numbered: "fold validate_line ls v = fold vstep (numbered ls) v"
proof (induction ls arbitrary: v)
  case (Cons d ls)
  then show ?case by (cases d) (simp add: numbered_Cons validate_line_def vstep_def Let_def)
qed simp

lemma numbered_directives: "map (\<lambda>(_, _, f). f) (numbered (enumerate k ls)) = directives ls"
  by (induction ls arbitrary: k) (simp_all add: numbered_Cons line_directive_def Let_def)

lemma vstep_errors: "v_errors (fold vstep ds v) = [] \<longleftrightarrow> v_errors v = [] \<and> (\<forall>(_, _, f)\<in>set ds. shape_ok f)"
  by (induction ds arbitrary: v) (auto simp: vstep_def validate_errors)

lemma fold_append_sel:
  assumes "\<And>d v. sel (step d v) = sel v @ g d"
  shows "sel (fold step ds v) = sel v @ concat (map g ds)"
  by (induction ds arbitrary: v) (simp_all add: assms)

lemma vstep_decl:
  "v_grants (fold vstep ds v) = v_grants v @ concat (map (\<lambda>(n, _, f). decl3 ''grant'' (\<lambda>_ _. True) n f) ds)"
  "v_roles (fold vstep ds v) = v_roles v @ concat (map (\<lambda>(n, _, f). decl3 ''role'' (\<lambda>_ _. True) n f) ds)"
  "v_members (fold vstep ds v) = v_members v @ concat (map (\<lambda>(n, _, f). decl3 ''member'' (\<lambda>_ _. True) n f) ds)"
  "v_groups (fold vstep ds v) = v_groups v @ concat (map (\<lambda>(n, _, f). decl3 ''group'' (\<lambda>_ _. True) n f) ds)"
  "v_workspaces (fold vstep ds v) = v_workspaces v @ concat (map (\<lambda>(n, _, f). decl3 ''workspace'' (\<lambda>a _. is_valid_identifier a) n f) ds)"
  "v_packages (fold vstep ds v) = v_packages v @ concat (map (\<lambda>(n, _, f). decl3 ''workspace-package'' packages_ok n f) ds)"
  "v_tenants (fold vstep ds v) = v_tenants v @ concat (map (\<lambda>(n, _, f). decl3 ''tenant'' (\<lambda>a _. is_valid_identifier a) n f) ds)"
  "v_tenant_admins (fold vstep ds v) = v_tenant_admins v @ concat (map (\<lambda>(n, _, f). decl3 ''tenant-admin'' (\<lambda>_ _. True) n f) ds)"
  "v_role_tools (fold vstep ds v) = v_role_tools v @ concat (map (\<lambda>(n, _, f). decl_tool n f) ds)"
  by (rule fold_append_sel; simp add: vstep_def validate_sel split: prod.split)+

lemma vstep_trees: "set (v_tree_names (fold vstep ds v)) = set (v_tree_names v) \<union> tree_names_of {f. \<exists>n l. (n, l, f) \<in> set ds}"
proof (induction ds arbitrary: v)
  case (Cons d ds)
  obtain n l f where d: "d = (n, l, f)" by (cases d)
  have "tree_names_of {g. \<exists>n l. (n, l, g) \<in> set (d # ds)} = tree_names_of {f} \<union> tree_names_of {g. \<exists>n l. (n, l, g) \<in> set ds}"
    by (auto simp: tree_names_of_def d)
  moreover have "set (v_tree_names (vstep d v)) = set (v_tree_names v) \<union> tree_names_of {f}"
    by (simp add: vstep_def validate_sel d)
  ultimately show ?case by (simp only: fold_simps Cons.IH Un_assoc)
qed (simp add: tree_names_of_def)

lemma decl3_mem:
  "(n, a, ts) \<in> set (decl3 key P m f) \<longleftrightarrow>
     n = m \<and> (\<exists>b. f = [key, a, b] \<and> ts = csv b \<and> csv b \<noteq> [] \<and> P a (csv b))"
proof (cases f rule: fields_cases)
  case (three k' a' b')
  show ?thesis by (auto simp: three decl3_def)
next
  case (four k' a' b' c')
  show ?thesis by (auto simp: four decl3_def)
next
  case other
  then have "decl3 key P m f = []" by (auto simp: decl3_def split: list.split)
  with other show ?thesis by auto
qed

lemma decl_tool_mem:
  "(n, a, t, ts) \<in> set (decl_tool m f) \<longleftrightarrow>
     n = m \<and> (\<exists>c. f = [''role-tool'', a, t, c] \<and> ts = csv c \<and> csv c \<noteq> [])"
proof (cases f rule: fields_cases)
  case (three k' a' b')
  show ?thesis by (auto simp: three decl_tool_def)
next
  case (four k' a' b' c')
  show ?thesis by (auto simp: four decl_tool_def)
next
  case other
  then have "decl_tool m f = []" by (auto simp: decl_tool_def split: list.split)
  with other show ?thesis by auto
qed

lemma set_decl:
  "x \<in> set (concat (map (\<lambda>(n, _, f). g n f) ds)) \<longleftrightarrow> (\<exists>n l f. (n, l, f) \<in> set ds \<and> x \<in> set (g n f))"
  by force

lemma if_Nil: "(if P then [] else [x]) = [] \<longleftrightarrow> P" "concat (map f xs) = [] \<longleftrightarrow> (\<forall>x\<in>set xs. f x = [])"
  by (simp_all add: concat_eq_Nil_conv)

lemma undefined_refs_empty:
  "undefined_refs e names ds = [] \<longleftrightarrow> (\<forall>(n, x, ts)\<in>set ds. set ts \<subseteq> set names)"
  unfolding undefined_refs_def if_Nil case_prod_unfold by blast

lemma tool_refs_empty:
  "tool_refs roles trees ds = [] \<longleftrightarrow>
     (\<forall>(n, role, t, tools)\<in>set ds. role \<in> set roles \<and> t \<in> set trees \<and> (\<forall>tool\<in>set tools. is_valid_identifier tool))"
  unfolding tool_refs_def if_Nil case_prod_unfold append_is_Nil_conv by blast

lemma package_refs_empty: "package_refs names ds = [] \<longleftrightarrow> (\<forall>(n, w, ps)\<in>set ds. w \<in> set names)"
  unfolding package_refs_def if_Nil case_prod_unfold by blast

lemma declared_names_set: "x \<in> set (declared_names ds) \<longleftrightarrow> (\<exists>n ts. (n, x, ts) \<in> set ds)"
  by (force simp: declared_names_def)

lemma refs_ok_all:
  "(\<forall>f\<in>ds. refs_ok ds f) \<longleftrightarrow>
     (\<forall>a b. [''member'', a, b] \<in> ds \<longrightarrow> set (csv b) \<subseteq> names_of ''role'' ds) \<and>
     (\<forall>a b c. [''role-tool'', a, b, c] \<in> ds \<longrightarrow> a \<in> names_of ''role'' ds \<and> b \<in> tree_names_of ds \<and>
        (\<forall>tool\<in>set (csv c). is_valid_identifier tool)) \<and>
     (\<forall>a b. [''workspace'', a, b] \<in> ds \<longrightarrow> set (csv b) \<subseteq> tree_names_of ds) \<and>
     (\<forall>a b. [''workspace-package'', a, b] \<in> ds \<longrightarrow> a \<in> names_of ''workspace'' ds) \<and>
     (\<forall>a b. [''group'', a, b] \<in> ds \<longrightarrow> set (csv b) \<subseteq> names_of ''role'' ds) \<and>
     (\<forall>a b. [''tenant'', a, b] \<in> ds \<longrightarrow> set (csv b) \<subseteq> tree_names_of ds) \<and>
     (\<forall>a b. [''tenant-admin'', a, b] \<in> ds \<longrightarrow> set (csv b) \<subseteq> names_of ''tenant'' ds)" (is "?l \<longleftrightarrow> ?r")
proof
  assume l: ?l
  show ?r by (intro conjI allI impI; drule bspec [OF l]; simp add: refs_ok_def)
next
  assume r: ?r
  show ?l
  proof
    fix f assume f: "f \<in> ds"
    show "refs_ok ds f"
    proof (cases f rule: fields_cases)
      case (three k a b)
      with r f show ?thesis by (simp add: refs_ok_def) blast
    next
      case (four k a b c)
      with r f show ?thesis by (simp add: refs_ok_def) blast
    next
      case other
      then show ?thesis by (auto simp: refs_ok_def split: list.split)
    qed
  qed
qed

lemma validate_exact:
  "report_is_valid (validate_text s) \<longleftrightarrow>
     (let ds = set (directives (lines s)) in \<forall>f\<in>ds. shape_ok f \<and> refs_ok ds f)"
proof -
  define nd where "nd = numbered (enumerate 0 (lines s))"
  define ds where "ds = set (directives (lines s))"
  define v where "v = fold vstep nd vstate_default"
  have fds: "(\<exists>n l. (n, l, f) \<in> set nd) \<longleftrightarrow> f \<in> ds" for f
    unfolding ds_def nd_def numbered_directives [of 0, symmetric] by force
  have fold: "fold validate_line (enumerate 0 (lines s)) vstate_default = v"
    by (simp add: v_def nd_def fold_numbered)
  have errs: "v_errors v = [] \<longleftrightarrow> (\<forall>f\<in>ds. shape_ok f)"
    unfolding v_def vstep_errors using fds by (fastforce simp: vstate_default_def)
  note sel = vstep_decl [of nd vstate_default, folded v_def, unfolded vstate_default_def vstate.select_convs append_Nil]
  have trees: "set (v_tree_names v) = tree_names_of ds"
    unfolding v_def vstep_trees fds by (simp add: vstate_default_def)
  have mem: "(n, a, ts) \<in> set (concat (map (\<lambda>(n, _, f). decl3 key P n f) nd)) \<longleftrightarrow>
     (\<exists>l b. (n, l, [key, a, b]) \<in> set nd \<and> ts = csv b \<and> csv b \<noteq> [] \<and> P a (csv b))" for n a ts key P
    unfolding set_decl decl3_mem by blast
  have tmem: "(n, a, t, ts) \<in> set (concat (map (\<lambda>(n, _, f). decl_tool n f) nd)) \<longleftrightarrow>
     (\<exists>l c. (n, l, [''role-tool'', a, t, c]) \<in> set nd \<and> ts = csv c \<and> csv c \<noteq> [])" for n a t ts
    unfolding set_decl decl_tool_mem by blast
  show ?thesis
  proof (cases "\<forall>f\<in>ds. shape_ok f")
    case False
    then show ?thesis using errs by (auto simp: report_is_valid_def validate_text_def fold Let_def ds_def)
  next
    case True
    have names: "x \<in> set (declared_names (concat (map (\<lambda>(n, _, f). decl3 key P n f) nd))) \<longleftrightarrow> x \<in> names_of key ds"
      if P: "\<forall>a b. [key, a, b] \<in> ds \<longrightarrow> csv b \<noteq> [] \<and> P a (csv b)" for x key P
      unfolding declared_names_set mem names_of_def using P fds by blast
    have ball: "(\<forall>(n, a, ts)\<in>set (concat (map (\<lambda>(n, _, f). decl3 key P n f) nd)). Q a ts) \<longleftrightarrow>
        (\<forall>a b. [key, a, b] \<in> ds \<longrightarrow> Q a (csv b))"
      if P: "\<forall>a b. [key, a, b] \<in> ds \<longrightarrow> csv b \<noteq> [] \<and> P a (csv b)" for Q key P
    proof -
      have "(\<forall>(n, a, ts)\<in>set (concat (map (\<lambda>(n, _, f). decl3 key P n f) nd)). Q a ts) \<longleftrightarrow>
        (\<forall>n l a b. (n, l, [key, a, b]) \<in> set nd \<and> csv b \<noteq> [] \<and> P a (csv b) \<longrightarrow> Q a (csv b))"
        unfolding Ball_def split_paired_All prod.case mem by blast
      also have "\<dots> \<longleftrightarrow> (\<forall>a b. [key, a, b] \<in> ds \<longrightarrow> Q a (csv b))"
        using P fds by metis
      finally show ?thesis .
    qed
    have refs: "undefined_refs e ns (concat (map (\<lambda>(n, _, f). decl3 key P n f) nd)) = [] \<longleftrightarrow>
        (\<forall>a b. [key, a, b] \<in> ds \<longrightarrow> set (csv b) \<subseteq> set ns)"
      if P: "\<forall>a b. [key, a, b] \<in> ds \<longrightarrow> csv b \<noteq> [] \<and> P a (csv b)" for e ns key P
      unfolding undefined_refs_empty by (rule ball [OF P])
    have shapes: "\<forall>a b. [''member'', a, b] \<in> ds \<longrightarrow> csv b \<noteq> [] \<and> True" "\<forall>a b. [''group'', a, b] \<in> ds \<longrightarrow> csv b \<noteq> [] \<and> True"
      "\<forall>a b. [''role'', a, b] \<in> ds \<longrightarrow> csv b \<noteq> [] \<and> True"
      "\<forall>a b. [''tenant-admin'', a, b] \<in> ds \<longrightarrow> csv b \<noteq> [] \<and> True"
      "\<forall>a b. [''workspace'', a, b] \<in> ds \<longrightarrow> csv b \<noteq> [] \<and> is_valid_identifier a"
      "\<forall>a b. [''tenant'', a, b] \<in> ds \<longrightarrow> csv b \<noteq> [] \<and> is_valid_identifier a"
      "\<forall>a b. [''workspace-package'', a, b] \<in> ds \<longrightarrow> csv b \<noteq> [] \<and> packages_ok a (csv b)"
      "\<forall>a b c. [''role-tool'', a, b, c] \<in> ds \<longrightarrow> csv c \<noteq> []"
      by (intro allI impI, drule bspec [OF True]; simp add: shape_ok_def packages_ok_def list_ex_iff split_once_None)+
    have tools: "tool_refs rs ts (concat (map (\<lambda>(n, _, f). decl_tool n f) nd)) = [] \<longleftrightarrow>
        (\<forall>a b c. [''role-tool'', a, b, c] \<in> ds \<longrightarrow> a \<in> set rs \<and> b \<in> set ts \<and> (\<forall>tool\<in>set (csv c). is_valid_identifier tool))" for rs ts
    proof -
      have "tool_refs rs ts (concat (map (\<lambda>(n, _, f). decl_tool n f) nd)) = [] \<longleftrightarrow>
        (\<forall>n l a b c. (n, l, [''role-tool'', a, b, c]) \<in> set nd \<and> csv c \<noteq> [] \<longrightarrow>
           a \<in> set rs \<and> b \<in> set ts \<and> (\<forall>tool\<in>set (csv c). is_valid_identifier tool))"
        unfolding tool_refs_empty Ball_def [of "set (concat _)"] split_paired_All prod.case tmem by blast
      also have "\<dots> \<longleftrightarrow> (\<forall>a b c. [''role-tool'', a, b, c] \<in> ds \<longrightarrow> a \<in> set rs \<and> b \<in> set ts \<and> (\<forall>tool\<in>set (csv c). is_valid_identifier tool))"
        using shapes(8) fds by metis
      finally show ?thesis .
    qed
    have packages: "package_refs ns (concat (map (\<lambda>(n, _, f). decl3 ''workspace-package'' packages_ok n f) nd)) = [] \<longleftrightarrow>
        (\<forall>a b. [''workspace-package'', a, b] \<in> ds \<longrightarrow> a \<in> set ns)" for ns
      unfolding package_refs_empty by (rule ball [OF shapes(7)])
    have roles: "set (declared_names (concat (map (\<lambda>(n, _, f). decl3 ''role'' (\<lambda>_ _. True) n f) nd))) = names_of ''role'' ds"
      using names [of "''role''" "\<lambda>_ _. True"] shapes(3) by blast
    have wss: "set (declared_names (concat (map (\<lambda>(n, _, f). decl3 ''workspace'' (\<lambda>a _. is_valid_identifier a) n f) nd))) = names_of ''workspace'' ds"
      using names [of "''workspace''" "\<lambda>a _. is_valid_identifier a"] shapes(5) by blast
    have tns: "set (declared_names (concat (map (\<lambda>(n, _, f). decl3 ''tenant'' (\<lambda>a _. is_valid_identifier a) n f) nd))) = names_of ''tenant'' ds"
      using names [of "''tenant''" "\<lambda>a _. is_valid_identifier a"] shapes(6) by blast
    have "report_is_valid (validate_text s) \<longleftrightarrow> (\<forall>f\<in>ds. refs_ok ds f)"
      unfolding report_is_valid_def validate_text_def fold Let_def rights_report.select_convs append_is_Nil_conv
        refs_ok_all
      unfolding sel refs [of "''member''" "\<lambda>_ _. True", OF shapes(1)]
        refs [of "''group''" "\<lambda>_ _. True", OF shapes(2)]
        refs [of "''tenant-admin''" "\<lambda>_ _. True", OF shapes(4)]
        refs [of "''workspace''" "\<lambda>a _. is_valid_identifier a", OF shapes(5)]
        refs [of "''tenant''" "\<lambda>a _. is_valid_identifier a", OF shapes(6)]
        tools packages roles wss tns
      using errs True trees by simp
    then show ?thesis using True by (simp add: ds_def Let_def)
  qed
qed

text \<open>
  The validator is exact: it reports no error exactly when every directive of the file is
  well-formed and refers only to roles, trees, workspaces and tenants the file defines.
\<close>

theorem validate_text_exact:
  "report_is_valid (validate_text s) \<longleftrightarrow>
     (let ds = set (directives (lines s)) in \<forall>f\<in>ds. shape_ok f \<and> refs_ok ds f)"
  by (rule validate_exact)

theorem validate_text_exact_witness:
  "report_is_valid (validate_text (unlines [join [tab] [''tree'', ''a'', ''h:1'', ''s''], join [tab] [''workspace'', ''w'', ''a'']])) \<and>
   \<not> report_is_valid (validate_text (join [tab] [''workspace'', ''w'', ''b'']))"
proof -
  let ?t = "unlines [join [tab] [''tree'', ''a'', ''h:1'', ''s''], join [tab] [''workspace'', ''w'', ''a'']]"
  have "directives (lines ?t) = [[''tree'', ''a'', ''h:1'', ''s''], [''workspace'', ''w'', ''a'']]"
    "directives (lines (join [tab] [''workspace'', ''w'', ''b''])) = [[''workspace'', ''w'', ''b'']]"
    "csv ''a'' = [''a'']" "csv ''b'' = [''b'']" "is_valid_identifier ''w''" "\<not> contains_str ''..'' ''a''" by code_simp+
  then show ?thesis
    by (simp only: validate_text_exact Let_def) (simp add: shape_ok_def refs_ok_def tree_names_of_def)
qed

subsection \<open>What a validated file guarantees\<close>

lemma pieces_nonempty: "x \<in> set (pieces c s) \<Longrightarrow> x \<noteq> []"
  by (auto simp: pieces_def)

lemma directive_nonempty: "f \<in> set (directives ls) \<Longrightarrow> x \<in> set f \<Longrightarrow> x \<noteq> []"
  using pieces_nonempty by (induction ls) (auto simp: line_directive_def Let_def split: if_splits)

lemma fold_ext_tree_mem:
  "(\<exists>x\<in>set (fold ext_tree ds ts). t_name x = a) \<longleftrightarrow> (\<exists>x\<in>set ts. t_name x = a) \<or>
     (\<exists>b c. [''tree'', a, b, c] \<in> set ds \<and> a \<noteq> [] \<and> b \<noteq> [] \<and> c \<noteq> [])"
proof (induction ds arbitrary: ts)
  case (Cons f ds)
  have "(\<exists>x\<in>set (ext_tree f ts). t_name x = a) \<longleftrightarrow> (\<exists>x\<in>set ts. t_name x = a) \<or>
     (\<exists>b c. f = [''tree'', a, b, c] \<and> a \<noteq> [] \<and> b \<noteq> [] \<and> c \<noteq> [])"
  proof (cases f rule: fields_cases)
    case (four k a' b' c')
    show ?thesis by (auto simp: four ext_tree_def)
  qed (auto simp: ext_tree_def split: list.split)
  with Cons.IH [of "ext_tree f ts"] show ?case by auto
qed simp

lemma tree_named_parse: "tree_named (parse s) a \<noteq> None \<longleftrightarrow> a \<in> tree_names_of (set (directives (lines s)))"
proof -
  have ne: "[''tree'', a, b, c] \<in> set (directives (lines s)) \<Longrightarrow> a \<noteq> [] \<and> b \<noteq> [] \<and> c \<noteq> []" for b c
    using directive_nonempty [of "[''tree'', a, b, c]"] by (metis list.set_intros)
  show ?thesis
    using fold_ext_tree_mem [of "directives (lines s)" "[]" a] ne
    by (auto simp: tree_named_None parse_directives fold_parse_fields_sel tree_names_of_def)
qed

lemma parse_workspace_has:
  "(w, ts) \<in> set (r_workspaces (parse s)) \<Longrightarrow> t \<in> set ts \<Longrightarrow>
     \<exists>b. [''workspace'', w, b] \<in> set (directives (lines s)) \<and> t \<in> set (csv b)"
proof -
  assume "(w, ts) \<in> set (r_workspaces (parse s))" "t \<in> set ts"
  moreover have "hm_ok (r_workspaces (parse s))" using rights_ok_parse by (simp add: rights_ok_def)
  ultimately have "hm_has (r_workspaces (parse s)) w t" by (auto simp: hm_has_set)
  then show ?thesis by (simp add: parse_directives fold_parse_fields_sel fold_ext3_has)
qed

text \<open>
  A validated file is closed: every tree of every workspace the server would show can be
  looked up, so the look-ups by which a workspace review reaches its backends cannot fail.
\<close>

theorem validated_workspaces_resolve:
  assumes "report_is_valid (validate_text s)"
    and "(w, ts) \<in> set (visible_workspaces (parse s) u gs)" and "t \<in> set ts"
  shows "tree_named (parse s) t \<noteq> None"
proof -
  from assms(2) have "(w, ts) \<in> set (r_workspaces (parse s))" by (simp add: visible_workspace_iff)
  from parse_workspace_has [OF this assms(3)] obtain b
    where b: "[''workspace'', w, b] \<in> set (directives (lines s))" "t \<in> set (csv b)" by blast
  from assms(1) b(1) have "refs_ok (set (directives (lines s))) [''workspace'', w, b]"
    by (simp add: validate_exact Let_def)
  with b(2) have "t \<in> tree_names_of (set (directives (lines s)))" by (auto simp: refs_ok_def)
  then show ?thesis by (simp only: tree_named_parse)
qed

definition validated_sample :: string where
  "validated_sample = unlines [join [tab] [''tree'', ''a'', ''h:1'', ''s''],
     join [tab] [''workspace'', ''w'', ''a''], join [tab] [''grant'', ''u'', ''a'']]"

theorem validated_workspaces_resolve_witness:
  "tree_named (parse validated_sample) ''a'' \<noteq> None"
proof -
  have "report_is_valid (validate_text validated_sample)"
    "visible_workspaces (parse validated_sample) ''u'' [] = [(''w'', [''a''])]" by code_simp+
  then show ?thesis using validated_workspaces_resolve [of validated_sample "''w''" "[''a'']" "''u''" "[]" "''a''"] by simp
qed

end
