(* ===== verification/Rights_Sync.thy ===== *)
theory Rights_Sync
  imports Rights_Edit
begin

text \<open>
  \<^verbatim>\<open>src/sync.rs\<close>, what a code host does to the rights file: the rewriting of
  its text for one action (\<open>mutate_rights_content\<close>) and the atomic application of a
  list of actions (\<open>apply_sync_actions\<close>). The main result is that an action changes the
  direct grants as it says and nothing else in the parsed policy.
\<close>

subsection \<open>The operations\<close>

datatype sync_action =
  Grant string string
| Revoke string string
| SetTreeGrants string "string list"

text \<open>
  The three collections of the loop over the lines. A \<^verbatim>\<open>HashSet\<close> is a list of
  which only the membership counts.
\<close>

record mutation =
  m_tree_lines :: "string list"
  m_comments :: "string list"
  m_grants :: "(string, string list) hmap"

definition mutation_default :: mutation where
  "mutation_default = \<lparr>m_tree_lines = [], m_comments = [], m_grants = []\<rparr>"

definition mutate_line :: "string \<Rightarrow> mutation \<Rightarrow> mutation" where
  "mutate_line line m =
     (if comment_or_blank (trim line) then m\<lparr>m_comments := m_comments m @ [line]\<rparr>
      else (case pieces tab (trim line) of
          k # rest \<Rightarrow>
            if k = ''tree'' then m\<lparr>m_tree_lines := m_tree_lines m @ [line]\<rparr>
            else (case rest of
                [a, b] \<Rightarrow> if k = ''grant'' then m\<lparr>m_grants := hm_extend a (csv b) (m_grants m)\<rparr>
                          else m\<lparr>m_comments := m_comments m @ [line]\<rparr>
              | _ \<Rightarrow> m\<lparr>m_comments := m_comments m @ [line]\<rparr>)
        | [] \<Rightarrow> m\<lparr>m_comments := m_comments m @ [line]\<rparr>))"

fun act :: "sync_action \<Rightarrow> (string, string list) hmap \<Rightarrow> (string, string list) hmap" where
  "act (Grant user t) m = hm_extend user [t] m"
| "act (Revoke user t) m = map (\<lambda>(u, ts). (u, if u = user then removeAll t ts else ts)) m"
| "act (SetTreeGrants t users) m =
     fold (\<lambda>u. hm_extend u [t]) users
       (map (\<lambda>(u, ts). (u, if u \<notin> set users then removeAll t ts else ts)) m)"

definition grant_line :: "string \<Rightarrow> string list \<Rightarrow> string" where
  "grant_line user ts = join [tab] [''grant'', user, join '','' ts]"

definition grant_lines :: "(string, string list) hmap \<Rightarrow> string list" where
  "grant_lines m = concat (map (\<lambda>(user, ts).
     let sorted = sorted_list_of_set (set ts) in if sorted \<noteq> [] then [grant_line user sorted] else [])
     (sort_key fst m))"

definition mutate_rights_content :: "string \<Rightarrow> sync_action \<Rightarrow> string" where
  "mutate_rights_content text action =
     (let m = fold mutate_line (lines text) mutation_default
      in unlines (m_comments m) @ unlines (m_tree_lines m) @ unlines (grant_lines (act action (m_grants m))))"

fun action_valid :: "sync_action \<Rightarrow> bool" where
  "action_valid (Grant user t) \<longleftrightarrow> is_valid_identifier user \<and> is_valid_identifier t"
| "action_valid (Revoke user t) \<longleftrightarrow> is_valid_identifier user \<and> is_valid_identifier t"
| "action_valid (SetTreeGrants t users) \<longleftrightarrow> is_valid_identifier t \<and> list_all is_valid_identifier users"

datatype sync_error = InvalidIdentifier | IoError

text \<open>
  The file after the call, beside its result: the temporary file is renamed over it at the
  end, so a failure on the way (\<open>io = False\<close>) leaves it alone.
\<close>

definition apply_sync_actions :: "bool \<Rightarrow> sync_action list \<Rightarrow> string option \<Rightarrow> (sync_error, unit) result \<times> string option" where
  "apply_sync_actions io actions file =
     (if list_ex (\<lambda>a. \<not> action_valid a) actions then (Inl InvalidIdentifier, file)
      else let content = (case file of None \<Rightarrow> [] | Some c \<Rightarrow> c);
               updated = fold (\<lambda>a current. mutate_rights_content current a) actions content
           in if io then (Inr (), Some updated) else (Inl IoError, file))"

definition apply_sync_action :: "bool \<Rightarrow> sync_action \<Rightarrow> string option \<Rightarrow> (sync_error, unit) result \<times> string option" where
  "apply_sync_action io a file = apply_sync_actions io [a] file"

subsection \<open>Trimming what is joined\<close>

lemma uchars_Nil_iff: "uchars s = [] \<longleftrightarrow> s = []"
  by (cases s) simp_all

lemma uchars_trim: "uchars (trim s) = rev (dropWhile is_whitespace (rev (dropWhile is_whitespace (uchars s))))"
  by (simp add: trim_def uchars_trim_end uchars_trim_start)

lemma trim_id_iff:
  assumes "s \<noteq> []"
  shows "trim s = s \<longleftrightarrow> \<not> is_whitespace (hd (uchars s)) \<and> \<not> is_whitespace (last (uchars s))"
proof
  have ne: "uchars s \<noteq> []" using assms by (simp add: uchars_Nil_iff)
  { assume "trim s = s"
    then have len: "length (dropWhile is_whitespace (rev (dropWhile is_whitespace (uchars s)))) = length (uchars s)"
      using uchars_trim [of s] by (metis length_rev)
    have le: "length (dropWhile P xs) \<le> length xs" for P and xs :: "string list" by (rule length_dropWhile_le)
    have hd: "\<not> is_whitespace (hd (uchars s))"
    proof
      assume "is_whitespace (hd (uchars s))"
      then have "length (dropWhile is_whitespace (uchars s)) < length (uchars s)"
        using ne le [of _ "tl (uchars s)"] by (cases "uchars s") (simp_all add: less_Suc_eq_le)
      with len le [of is_whitespace "rev (dropWhile is_whitespace (uchars s))"] show False by simp
    qed
    then have d: "dropWhile is_whitespace (uchars s) = uchars s" using ne by (cases "uchars s") simp_all
    have "\<not> is_whitespace (last (uchars s))"
    proof
      assume a: "is_whitespace (last (uchars s))"
      obtain ys y where y: "uchars s = ys @ [y]" using ne by (metis rev_exhaust)
      with a have "length (dropWhile is_whitespace (rev (uchars s))) \<le> length ys"
        using le [of is_whitespace "rev ys"] by simp
      with len d y show False by simp
    qed
    with hd show "\<not> is_whitespace (hd (uchars s)) \<and> \<not> is_whitespace (last (uchars s))" by simp }
  assume a: "\<not> is_whitespace (hd (uchars s)) \<and> \<not> is_whitespace (last (uchars s))"
  then have d: "dropWhile is_whitespace (uchars s) = uchars s" using ne by (cases "uchars s") simp_all
  obtain ys y where y: "uchars s = ys @ [y]" using ne by (metis rev_exhaust)
  with a have "dropWhile is_whitespace (rev (uchars s)) = rev (uchars s)" by simp
  with d show "trim s = s" by (simp add: trim_eq)
qed

lemma last_uchars_dropWhile:
  assumes "dropWhile is_cont b \<noteq> []"
  shows "last (uchars (dropWhile is_cont b)) = last (uchars b)"
proof (cases b)
  case (Cons d ds)
  show ?thesis
  proof (cases "is_cont d")
    case True
    then show ?thesis using assms by (auto simp: Cons uchars_Nil_iff)
  next
    case False
    then show ?thesis by (simp add: Cons)
  qed
qed (use assms in simp)

lemma sep_not_cont: "c \<in> {tab, CHR '',''} \<Longrightarrow> \<not> is_cont c"
  by auto

lemma last_uchars_sep:
  assumes c: "c \<in> {tab, CHR '',''}" and b: "b \<noteq> []" "\<not> is_whitespace (last (uchars b))"
  shows "\<not> is_whitespace (last (uchars (c # b)))"
proof (cases "dropWhile is_cont b = []")
  case True
  then have "takeWhile is_cont b = b" by (metis append_Nil2 takeWhile_dropWhile_id)
  then have u: "uchars (c # b) = [c # b]" by (simp only: uchars.simps True)
  obtain d ds where "b = d # ds" using b(1) by (cases b) simp_all
  then have "\<not> is_whitespace (c # b)" using c by (auto simp: is_whitespace_def whitespace_chars_def)
  then show ?thesis unfolding u by simp
next
  case False
  then show ?thesis using b(2) last_uchars_dropWhile [OF False] by (auto simp: uchars_Nil_iff)
qed

lemma trim_sep:
  assumes "c \<in> {tab, CHR '',''}" and "trim a = a" "a \<noteq> []" and "trim b = b" "b \<noteq> []"
  shows "trim (a @ c # b) = a @ c # b"
proof -
  have u: "uchars (a @ c # b) = uchars a @ uchars (c # b)" by (rule uchars_append [OF sep_not_cont [OF assms(1)]])
  have "\<not> is_whitespace (hd (uchars a))" "\<not> is_whitespace (last (uchars b))"
    using assms trim_id_iff by blast+
  with last_uchars_sep [OF assms(1,5)] have
    "\<not> is_whitespace (hd (uchars (a @ c # b)))" "\<not> is_whitespace (last (uchars (a @ c # b)))"
    unfolding u using assms(3) by (simp_all add: uchars_Nil_iff hd_append del: uchars.simps)
  then show ?thesis by (subst trim_id_iff) simp_all
qed

lemma trim_join:
  assumes "c \<in> {tab, CHR '',''}" and "xs \<noteq> []" and "\<forall>x\<in>set xs. trim x = x \<and> x \<noteq> []"
  shows "trim (join [c] xs) = join [c] xs \<and> join [c] xs \<noteq> []"
  using assms(2,3)
proof (induction xs)
  case (Cons x xs)
  show ?case
  proof (cases "xs = []")
    case False
    then have "trim (x @ c # join [c] xs) = x @ c # join [c] xs"
      using Cons by (intro trim_sep [OF assms(1)]) auto
    then show ?thesis by (simp add: join_Cons [OF False])
  qed (use Cons.prems in simp)
qed simp

subsection \<open>What the loop collects\<close>

definition tree_head :: "string list \<Rightarrow> bool" where
  "tree_head f \<longleftrightarrow> f \<noteq> [] \<and> hd f = ''tree''"

definition grant_form :: "string list \<Rightarrow> bool" where
  "grant_form f \<longleftrightarrow> (\<exists>a b. f = [''grant'', a, b])"

lemma grant_form_simps [simp]:
  "\<not> grant_form []" "\<not> grant_form [k]" "\<not> grant_form [k, a]" "grant_form [k, a, b] \<longleftrightarrow> k = ''grant''"
  "\<not> grant_form (k # a # b # c # f)"
  by (auto simp: grant_form_def)

lemma mutate_line_step:
  "directives (m_comments (mutate_line l m)) = directives (m_comments m) @
     filter (\<lambda>f. \<not> tree_head f \<and> \<not> grant_form f) (line_directive l)" (is ?c)
  "directives (m_tree_lines (mutate_line l m)) = directives (m_tree_lines m) @ filter tree_head (line_directive l)" (is ?t)
  "m_grants (mutate_line l m) = fold (ext3 ''grant'' csv) (line_directive l) (m_grants m)" (is ?g)
proof -
  have "?c \<and> ?t \<and> ?g"
  proof (cases "comment_or_blank (trim l)")
    case True
    then show ?thesis by (simp add: mutate_line_def line_directive_def)
  next
    case False
    define f where "f = pieces tab (trim l)"
    have ld: "line_directive l = [f]" using False by (simp add: line_directive_def f_def)
    consider "f = []" | k where "f = [k]" | k a where "f = [k, a]" | k a b where "f = [k, a, b]"
      | k a b c cs where "f = k # a # b # c # cs" by (metis list.exhaust)
    then show ?thesis
      by cases (use False in \<open>simp_all add: mutate_line_def ld f_def [symmetric] tree_head_def ext3_def\<close>)
  qed
  then show ?c ?t ?g by blast+
qed

lemma mutate_fold:
  "directives (m_comments (fold mutate_line ls m)) = directives (m_comments m) @
     filter (\<lambda>f. \<not> tree_head f \<and> \<not> grant_form f) (directives ls)"
  "directives (m_tree_lines (fold mutate_line ls m)) = directives (m_tree_lines m) @ filter tree_head (directives ls)"
  "m_grants (fold mutate_line ls m) = fold (ext3 ''grant'' csv) (directives ls) (m_grants m)"
  by (induction ls arbitrary: m) (simp_all add: mutate_line_step)

lemma mutate_keeps_lines:
  "set (m_comments (fold mutate_line ls m)) \<union> set (m_tree_lines (fold mutate_line ls m)) \<subseteq>
     set (m_comments m) \<union> set (m_tree_lines m) \<union> set ls"
proof (induction ls arbitrary: m)
  case (Cons l ls)
  have "set (m_comments (mutate_line l m)) \<union> set (m_tree_lines (mutate_line l m)) \<subseteq>
      set (m_comments m) \<union> set (m_tree_lines m) \<union> {l}"
    by (auto simp: mutate_line_def split: list.splits if_splits)
  with Cons.IH [of "mutate_line l m"] show ?case by auto
qed simp

text \<open>A name that survives being written between tabs and commas.\<close>

definition cell :: "char \<Rightarrow> string \<Rightarrow> bool" where
  "cell c x \<longleftrightarrow> c \<notin> set x \<and> nl \<notin> set x \<and> trim x = x \<and> x \<noteq> []"

definition grants_writable :: "(string, string list) hmap \<Rightarrow> bool" where
  "grants_writable m \<longleftrightarrow> hm_ok m \<and>
     (\<forall>(u, ts)\<in>set m. cell tab u \<and> (\<forall>t\<in>set ts. cell tab t \<and> cell (CHR '','') t))"

lemma grant_line_facts:
  assumes "cell tab u" and "ts \<noteq> []" and "\<forall>t\<in>set ts. cell tab t \<and> cell (CHR '','') t"
  shows "line_directive (grant_line u ts) = [[''grant'', u, join '','' ts]]"
    and "csv (join '','' ts) = ts" and "nl \<notin> set (grant_line u ts)"
proof -
  have jt: "trim (join '','' ts) = join '','' ts \<and> join '','' ts \<noteq> []"
    using assms by (intro trim_join) (auto simp: cell_def)
  have tab: "tab \<notin> set (join '','' ts)" "nl \<notin> set (join '','' ts)"
    using assms(3) set_join [of _ "'',''" ts] by (fastforce simp: cell_def)+
  have g: "trim ''grant'' = ''grant''" by code_simp
  have cells: "\<forall>x\<in>set [''grant'', u, join '','' ts]. tab \<notin> set x \<and> trim x = x \<and> x \<noteq> []"
    using assms(1) jt tab g by (simp add: cell_def)
  have "trim (grant_line u ts) = grant_line u ts"
    unfolding grant_line_def using cells trim_join [of tab "[''grant'', u, join '','' ts]"] by blast
  moreover have "pieces tab (grant_line u ts) = [''grant'', u, join '','' ts]"
    unfolding grant_line_def by (rule pieces_join [OF cells])
  moreover have "\<not> comment_or_blank (grant_line u ts)"
    by (simp add: grant_line_def comment_or_blank_def starts_with_def)
  ultimately show "line_directive (grant_line u ts) = [[''grant'', u, join '','' ts]]"
    by (simp add: line_directive_def)
  show "csv (join '','' ts) = ts" using assms(3) by (intro pieces_join) (auto simp: cell_def)
  show "nl \<notin> set (grant_line u ts)" using assms(1) tab by (simp add: grant_line_def cell_def)
qed

lemma grant_lines_directives:
  assumes "grants_writable m"
  shows "f \<in> set (directives (grant_lines m)) \<longleftrightarrow>
     (\<exists>u ts. (u, ts) \<in> set m \<and> ts \<noteq> [] \<and> f = [''grant'', u, join '','' (sorted_list_of_set (set ts))])"
    and "\<forall>l\<in>set (grant_lines m). nl \<notin> set l"
proof -
  have w: "cell tab u" "\<forall>t\<in>set (sorted_list_of_set (set ts)). cell tab t \<and> cell (CHR '','') t"
    if "(u, ts) \<in> set m" for u ts using assms that by (auto simp: grants_writable_def)
  have ne: "sorted_list_of_set (set ts) \<noteq> [] \<longleftrightarrow> ts \<noteq> []" for ts :: "string list"
    by (metis empty_iff empty_set set_empty finite_set sorted_list_of_set_eq_Nil_iff)
  have set: "l \<in> set (grant_lines m) \<longleftrightarrow> (\<exists>u ts. (u, ts) \<in> set m \<and> ts \<noteq> [] \<and> l = grant_line u (sorted_list_of_set (set ts)))" for l
    using ne by (force simp: grant_lines_def Let_def)
  have dir: "set (directives ls) = (\<Union>l\<in>set ls. set (line_directive l))" for ls
    by (simp add: directives_def)
  have line: "set (line_directive (grant_line u (sorted_list_of_set (set ts)))) = {[''grant'', u, join '','' (sorted_list_of_set (set ts))]}"
    if "(u, ts) \<in> set m" "ts \<noteq> []" for u ts
    using grant_line_facts(1) [OF w(1) _ w(2)] ne that by simp
  show "f \<in> set (directives (grant_lines m)) \<longleftrightarrow>
     (\<exists>u ts. (u, ts) \<in> set m \<and> ts \<noteq> [] \<and> f = [''grant'', u, join '','' (sorted_list_of_set (set ts))])"
  proof
    assume "f \<in> set (directives (grant_lines m))"
    then obtain l where l: "l \<in> set (grant_lines m)" "f \<in> set (line_directive l)" unfolding dir by blast
    then obtain u ts where "(u, ts) \<in> set m" "ts \<noteq> []" "l = grant_line u (sorted_list_of_set (set ts))" using set by blast
    with l(2) line show "\<exists>u ts. (u, ts) \<in> set m \<and> ts \<noteq> [] \<and> f = [''grant'', u, join '','' (sorted_list_of_set (set ts))]" by blast
  next
    assume "\<exists>u ts. (u, ts) \<in> set m \<and> ts \<noteq> [] \<and> f = [''grant'', u, join '','' (sorted_list_of_set (set ts))]"
    then obtain u ts where u: "(u, ts) \<in> set m" "ts \<noteq> []" "f = [''grant'', u, join '','' (sorted_list_of_set (set ts))]" by blast
    then have "f \<in> set (line_directive (grant_line u (sorted_list_of_set (set ts))))" using line by blast
    with u set show "f \<in> set (directives (grant_lines m))" unfolding dir by blast
  qed
  show "\<forall>l\<in>set (grant_lines m). nl \<notin> set l"
  proof
    fix l assume "l \<in> set (grant_lines m)"
    with set obtain u ts where u: "(u, ts) \<in> set m" "ts \<noteq> []" "l = grant_line u (sorted_list_of_set (set ts))" by blast
    show "nl \<notin> set l" unfolding u(3) using ne u(2) by (intro grant_line_facts(3) [OF w(1) _ w(2)]) (use u(1) in simp_all)
  qed
qed

subsection \<open>What an action does to the grants\<close>

fun granted_after :: "sync_action \<Rightarrow> (string \<Rightarrow> string \<Rightarrow> bool) \<Rightarrow> string \<Rightarrow> string \<Rightarrow> bool" where
  "granted_after (Grant user x) G u t \<longleftrightarrow> G u t \<or> (u = user \<and> t = x)"
| "granted_after (Revoke user x) G u t \<longleftrightarrow> G u t \<and> \<not> (u = user \<and> t = x)"
| "granted_after (SetTreeGrants x users) G u t \<longleftrightarrow> (if t = x then u \<in> set users else G u t)"

lemma hm_has_map_vals:
  "hm_has (map (\<lambda>(u, ts). (u, g u ts)) m) u t \<longleftrightarrow> (\<exists>ts. map_of m u = Some ts \<and> t \<in> set (g u ts))"
  by (induction m) (auto simp: hm_has_def)

lemma hm_ok_map_vals: "hm_ok m \<Longrightarrow> hm_ok (map (\<lambda>(u, ts). (u, g u ts)) m)"
  by (simp add: hm_ok_def o_def case_prod_unfold)

lemma hm_has_Some: "hm_has m u t \<longleftrightarrow> (\<exists>ts. map_of m u = Some ts \<and> t \<in> set ts)"
  by (cases "map_of m u") (simp_all add: hm_has_def)

lemma hm_has_extend: "hm_has (hm_extend k vs m) u t \<longleftrightarrow> hm_has m u t \<or> (u = k \<and> t \<in> set vs)"
  by (auto simp: hm_has_vals hm_vals_extend)

lemma hm_has_fold_extend: "hm_has (fold (\<lambda>u. hm_extend u [x]) us m) u t \<longleftrightarrow> hm_has m u t \<or> (u \<in> set us \<and> t = x)"
  by (induction us arbitrary: m) (auto simp: hm_has_extend)

lemma act_has: "hm_has (act a m) u t \<longleftrightarrow> granted_after a (hm_has m) u t"
proof (cases a)
  case (Grant user x)
  then show ?thesis by (auto simp: hm_has_extend)
next
  case (Revoke user x)
  have "hm_has (act a m) u t \<longleftrightarrow> (\<exists>ts. map_of m u = Some ts \<and> t \<in> set (if u = user then removeAll x ts else ts))"
    by (simp only: Revoke act.simps hm_has_map_vals)
  then show ?thesis by (auto simp: Revoke hm_has_Some)
next
  case (SetTreeGrants x users)
  have "hm_has (act a m) u t \<longleftrightarrow>
      (\<exists>ts. map_of m u = Some ts \<and> t \<in> set (if u \<notin> set users then removeAll x ts else ts)) \<or> (u \<in> set users \<and> t = x)"
    by (simp only: SetTreeGrants act.simps hm_has_fold_extend hm_has_map_vals)
  then show ?thesis by (auto simp: SetTreeGrants hm_has_Some)
qed

lemma identifier_cell: "is_valid_identifier x \<Longrightarrow> cell tab x \<and> cell (CHR '','') x"
proof -
  assume "is_valid_identifier x"
  then have p: "plain_name x" by (rule plain_name_identifier)
  then show ?thesis using plain_name_notin [OF p] by (simp add: cell_def plain_name_def)
qed

lemma set_hm_extend: "set (hm_extend u ts m) \<subseteq> set m \<union> {(u, ts)} \<union> {(u, ws @ ts) |ws. (u, ws) \<in> set m}"
proof (induction m)
  case (Cons e m)
  obtain k ws where e: "e = (k, ws)" by (cases e)
  show ?case
  proof (cases "u = k")
    case True
    then show ?thesis by (auto simp: e)
  next
    case False
    then show ?thesis using Cons.IH by (simp add: e) blast
  qed
qed simp

lemma writable_extend:
  assumes "grants_writable m" and "cell tab u" and "\<forall>t\<in>set ts. cell tab t \<and> cell (CHR '','') t"
  shows "grants_writable (hm_extend u ts m)"
  unfolding grants_writable_def
proof (intro conjI ballI)
  show "hm_ok (hm_extend u ts m)" using assms(1) by (simp add: grants_writable_def hm_ok_extend)
  fix e assume "e \<in> set (hm_extend u ts m)"
  then have "e \<in> set m \<or> e = (u, ts) \<or> (\<exists>ws. e = (u, ws @ ts) \<and> (u, ws) \<in> set m)"
    using set_hm_extend [of u ts m] by blast
  then show "case e of (u, ts) \<Rightarrow> cell tab u \<and> (\<forall>t\<in>set ts. cell tab t \<and> cell (CHR '','') t)"
    using assms unfolding grants_writable_def by fastforce
qed

lemma writable_map:
  assumes "grants_writable m" and "\<And>u ts. set (g u ts) \<subseteq> set ts"
  shows "grants_writable (map (\<lambda>(u, ts). (u, g u ts)) m)"
  using assms by (fastforce simp: grants_writable_def hm_ok_map_vals)

lemma writable_act: "action_valid a \<Longrightarrow> grants_writable m \<Longrightarrow> grants_writable (act a m)"
proof (cases a)
  case (Grant user x)
  assume "action_valid a" "grants_writable m"
  then show ?thesis using Grant identifier_cell by (auto intro!: writable_extend)
next
  case (Revoke user x)
  assume "grants_writable m"
  then show ?thesis unfolding Revoke act.simps by (rule writable_map) auto
next
  case (SetTreeGrants x users)
  assume a: "action_valid a" and m: "grants_writable m"
  have "grants_writable (map (\<lambda>(u, ts). (u, if u \<notin> set users then removeAll x ts else ts)) m)"
    by (rule writable_map [OF m]) auto
  moreover have "list_all is_valid_identifier us \<Longrightarrow> grants_writable m \<Longrightarrow> grants_writable (fold (\<lambda>u. hm_extend u [x]) us m)" for us m
  proof (induction us arbitrary: m)
    case (Cons u us)
    have "is_valid_identifier x" using a SetTreeGrants by simp
    then have "grants_writable (hm_extend u [x] m)"
      using Cons.prems identifier_cell by (intro writable_extend) auto
    with Cons show ?case by simp
  qed simp
  ultimately show ?thesis using a by (simp add: SetTreeGrants)
qed

lemma directive_cell:
  assumes "f \<in> set (directives (lines text))" and "x \<in> set f"
  shows "cell tab x"
proof -
  from set_directives [OF assms(1)] obtain l where l: "l \<in> set (lines text)" "f = pieces tab (trim l)" by blast
  with assms(2) have x: "x \<in> set (pieces tab (trim l))" by simp
  have "nl \<notin> set l" using lines_no_nl l(1) by blast
  then have "nl \<notin> set x" using set_pieces [OF x] set_trim [of l] by blast
  then show ?thesis using pieces_trimmed [OF x] pieces_no_sep [OF x] by (simp add: cell_def)
qed

lemma csv_cell: "cell tab b \<Longrightarrow> t \<in> set (csv b) \<Longrightarrow> cell tab t \<and> cell (CHR '','') t"
  using set_pieces [of t "CHR '',''" b] pieces_trimmed [of t "CHR '',''" b] pieces_no_sep [of t "CHR '',''" b]
  by (auto simp: cell_def)

lemma writable_parsed: "grants_writable (fold (ext3 ''grant'' csv) (directives (lines text)) [])"
proof (rule fold_invariant)
  show "grants_writable []" by (simp add: grants_writable_def)
  fix f m assume f: "f \<in> set (directives (lines text))" and m: "grants_writable m"
  show "grants_writable (ext3 ''grant'' csv f m)"
  proof (cases "grant_form f")
    case True
    then obtain a b where ab: "f = [''grant'', a, b]" by (auto simp: grant_form_def)
    have "cell tab a" "cell tab b" using directive_cell [OF f] ab by auto
    then show ?thesis using csv_cell m by (auto simp: ab ext3_def intro!: writable_extend)
  next
    case False
    then have "ext3 ''grant'' csv f m = m" by (auto simp: ext3_def split: list.split)
    with m show ?thesis by simp
  qed
qed

subsection \<open>The rewritten file\<close>

lemma mutate_directives:
  assumes "action_valid a"
  shows "directives (lines (mutate_rights_content text a)) =
     filter (\<lambda>f. \<not> tree_head f \<and> \<not> grant_form f) (directives (lines text)) @
     filter tree_head (directives (lines text)) @
     directives (grant_lines (act a (r_grants (parse text))))"
proof -
  let ?m = "fold mutate_line (lines text) mutation_default"
  have g: "m_grants ?m = r_grants (parse text)"
    by (simp add: mutate_fold mutation_default_def parse_directives fold_parse_fields_sel)
  have w: "grants_writable (act a (r_grants (parse text)))"
    using writable_act [OF assms writable_parsed [of "text"]] by (simp add: parse_directives fold_parse_fields_sel)
  have "\<forall>l\<in>set (m_comments ?m) \<union> set (m_tree_lines ?m). nl \<notin> set l"
    using mutate_keeps_lines [of "lines text" mutation_default] lines_no_nl by (auto simp: mutation_default_def)
  then have "lines (mutate_rights_content text a) = map strip_cr (m_comments ?m) @ map strip_cr (m_tree_lines ?m) @
      map strip_cr (grant_lines (act a (r_grants (parse text))))"
    using grant_lines_directives(2) [OF w]
    by (simp add: mutate_rights_content_def Let_def g lines_unlines lines_unlines_append ball_Un)
  then show ?thesis
    by (simp add: directives_map_strip_cr mutate_fold mutation_default_def)
qed

lemma fold_ext3_keep:
  assumes "key \<noteq> ''grant''" and "key \<noteq> ''tree''"
  shows "fold (ext3 key g) (filter (\<lambda>f. \<not> tree_head f \<and> \<not> grant_form f) ds) m = fold (ext3 key g) ds m"
  by (rule fold_ext3_filter) (use assms in \<open>auto simp: tree_head_def grant_form_def\<close>)

lemma fold_ext3_skip: "\<forall>f\<in>set ds. \<forall>a b. f \<noteq> [key, a, b] \<Longrightarrow> fold (ext3 key g) ds m = m"
  by (rule ext3_other)

lemma tail_no_key:
  assumes "action_valid a" and "key \<noteq> ''grant''" and "key \<noteq> ''tree''"
  shows "\<forall>f\<in>set (filter tree_head ds @ directives (grant_lines (act a (r_grants (parse text))))). \<forall>x b. f \<noteq> [key, x, b]"
proof -
  have w: "grants_writable (act a (r_grants (parse text)))"
    using writable_act [OF assms(1) writable_parsed [of "text"]] by (simp add: parse_directives fold_parse_fields_sel)
  show ?thesis using grant_lines_directives(1) [OF w] assms(2,3) by (auto simp: tree_head_def)
qed

lemma mutate_maps:
  assumes "action_valid a" and "key \<noteq> ''grant''" and "key \<noteq> ''tree''"
  shows "fold (ext3 key g) (directives (lines (mutate_rights_content text a))) [] = fold (ext3 key g) (directives (lines text)) []"
  unfolding mutate_directives [OF assms(1)] fold_append comp_apply fold_ext3_keep [OF assms(2,3)]
  using fold_ext3_skip [OF tail_no_key [OF assms]] by (simp only: fold_append comp_apply)

lemma ext_tree_only: "\<not> tree_head f \<Longrightarrow> ext_tree f ts = ts"
  by (auto simp: ext_tree_def tree_head_def split: list.split)

lemma fold_ext_tree_filter: "fold ext_tree (filter tree_head ds) ts = fold ext_tree ds ts"
  by (induction ds arbitrary: ts) (simp_all add: ext_tree_only)

lemma fold_ext_tree_skip: "\<forall>f\<in>set ds. \<not> tree_head f \<Longrightarrow> fold ext_tree ds ts = ts"
  by (induction ds arbitrary: ts) (simp_all add: ext_tree_only)

lemma fold_ext_tools_keep:
  "fold ext_tools (filter (\<lambda>f. \<not> tree_head f \<and> \<not> grant_form f) ds) m = fold ext_tools ds m"
proof (induction ds arbitrary: m)
  case (Cons f ds)
  have "tree_head f \<or> grant_form f \<Longrightarrow> ext_tools f m = m"
    by (auto simp: ext_tools_def tree_head_def grant_form_def split: list.split)
  with Cons.IH show ?case by simp
qed simp

lemma fold_ext_tools_skip: "\<forall>f\<in>set ds. \<forall>x y z. f \<noteq> [''role-tool'', x, y, z] \<Longrightarrow> fold ext_tools ds m = m"
proof (induction ds arbitrary: m)
  case (Cons f ds)
  then have "ext_tools f m = m" by (auto simp: ext_tools_def split: list.split)
  with Cons show ?case by simp
qed simp

lemma mutate_frame:
  assumes "action_valid a"
  shows "r_trees (parse (mutate_rights_content text a)) = r_trees (parse text)"
    and "r_role_tools (parse (mutate_rights_content text a)) = r_role_tools (parse text)"
proof -
  let ?D = "directives (lines text)"
  have w: "grants_writable (act a (r_grants (parse text)))"
    using writable_act [OF assms writable_parsed [of "text"]] by (simp add: parse_directives fold_parse_fields_sel)
  note gl = grant_lines_directives(1) [OF w]
  have t: "\<forall>f\<in>set (directives (grant_lines (act a (r_grants (parse text))))). \<not> tree_head f"
    using gl by (auto simp: tree_head_def)
  have c: "\<forall>f\<in>set (filter (\<lambda>f. \<not> tree_head f \<and> \<not> grant_form f) ?D). \<not> tree_head f" by simp
  show "r_trees (parse (mutate_rights_content text a)) = r_trees (parse text)"
    unfolding parse_directives [of "mutate_rights_content text a"] mutate_directives [OF assms] fold_parse_fields_sel
      fold_append comp_apply fold_ext_tree_skip [OF c] fold_ext_tree_filter fold_ext_tree_skip [OF t]
    by (simp add: parse_directives fold_parse_fields_sel)
  have u: "\<forall>f\<in>set (directives (grant_lines (act a (r_grants (parse text))))). \<forall>x y z. f \<noteq> [''role-tool'', x, y, z]"
    using gl by auto
  have v: "\<forall>f\<in>set (filter tree_head ?D). \<forall>x y z. f \<noteq> [''role-tool'', x, y, z]" by (auto simp: tree_head_def)
  show "r_role_tools (parse (mutate_rights_content text a)) = r_role_tools (parse text)"
    unfolding parse_directives [of "mutate_rights_content text a"] mutate_directives [OF assms] fold_parse_fields_sel
      fold_append comp_apply fold_ext_tools_skip [OF u] fold_ext_tools_skip [OF v] fold_ext_tools_keep
    by (simp add: parse_directives fold_parse_fields_sel)
qed

lemma mutate_grants:
  assumes "action_valid a"
  shows "hm_has (r_grants (parse (mutate_rights_content text a))) u t \<longleftrightarrow>
     granted_after a (hm_has (r_grants (parse text))) u t"
proof -
  let ?m = "act a (r_grants (parse text))"
  have w: "grants_writable ?m"
    using writable_act [OF assms writable_parsed [of "text"]] by (simp add: parse_directives fold_parse_fields_sel)
  have ok: "hm_ok ?m" using w by (simp add: grants_writable_def)
  have csv: "csv (join '','' (sorted_list_of_set (set ts))) = sorted_list_of_set (set ts)" if "(v, ts) \<in> set ?m" "ts \<noteq> []" for v ts
  proof (rule grant_line_facts(2))
    show "cell tab v" using w that by (auto simp: grants_writable_def)
    show "sorted_list_of_set (set ts) \<noteq> []" using that(2) by simp
    show "\<forall>t\<in>set (sorted_list_of_set (set ts)). cell tab t \<and> cell (CHR '','') t"
      using w that by (auto simp: grants_writable_def)
  qed
  have "hm_has (r_grants (parse (mutate_rights_content text a))) u t \<longleftrightarrow>
      (\<exists>b. [''grant'', u, b] \<in> set (directives (grant_lines ?m)) \<and> t \<in> set (csv b))"
    unfolding parse_directives [of "mutate_rights_content text a"] mutate_directives [OF assms] fold_parse_fields_sel fold_ext3_has
    by (auto simp: tree_head_def)
  also have "\<dots> \<longleftrightarrow> (\<exists>ts. (u, ts) \<in> set ?m \<and> t \<in> set ts)"
    unfolding grant_lines_directives(1) [OF w] using csv by fastforce
  also have "\<dots> \<longleftrightarrow> hm_has ?m u t" by (simp add: hm_has_set [OF ok])
  also have "\<dots> \<longleftrightarrow> granted_after a (hm_has (r_grants (parse text))) u t" by (rule act_has)
  finally show ?thesis .
qed

text \<open>Everything but the direct grants.\<close>

definition same_roles :: "rights \<Rightarrow> rights \<Rightarrow> bool" where
  "same_roles r r' \<longleftrightarrow> r_trees r = r_trees r' \<and> r_roles r = r_roles r' \<and> r_members r = r_members r' \<and>
     r_role_tools r = r_role_tools r' \<and> r_groups r = r_groups r' \<and> r_workspaces r = r_workspaces r' \<and>
     r_workspace_packages r = r_workspace_packages r' \<and> r_tenants r = r_tenants r' \<and>
     r_tenant_admins r = r_tenant_admins r'"

lemma mutate_same_roles: "action_valid a \<Longrightarrow> same_roles (parse (mutate_rights_content text a)) (parse text)"
  unfolding same_roles_def using mutate_frame mutate_maps
  by (simp add: parse_directives fold_parse_fields_sel)

subsection \<open>Applying actions\<close>

lemma fold_mutate:
  "list_all action_valid acts \<Longrightarrow>
     (hm_has (r_grants (parse (fold (\<lambda>a current. mutate_rights_content current a) acts s))) u t \<longleftrightarrow>
        fold granted_after acts (hm_has (r_grants (parse s))) u t) \<and>
     same_roles (parse (fold (\<lambda>a current. mutate_rights_content current a) acts s)) (parse s)"
proof (induction acts arbitrary: s)
  case (Cons a acts)
  have g: "hm_has (r_grants (parse (mutate_rights_content s a))) = granted_after a (hm_has (r_grants (parse s)))"
    using Cons.prems mutate_grants [of a "s"] by (simp add: fun_eq_iff)
  have s: "same_roles (parse (mutate_rights_content s a)) (parse s)"
    using Cons.prems by (intro mutate_same_roles) simp
  from Cons.IH [of "mutate_rights_content s a"] Cons.prems s show ?case
    by (auto simp: g same_roles_def)
qed (simp add: same_roles_def)

subsection \<open>Properties\<close>

text \<open>
  C7. A code-host action does what it says and nothing else. After a grant, a revocation or
  the replacement of a tree's users, the parsed rights file grants directly exactly what
  the action's meaning says; trees, roles, memberships, groups, tool allowlists, workspaces and
  tenants are the same as before.
\<close>

theorem sync_action_exact:
  assumes "action_valid a"
  shows "(hm_has (r_grants (parse (mutate_rights_content text a))) u t \<longleftrightarrow>
       granted_after a (hm_has (r_grants (parse text))) u t) \<and>
     same_roles (parse (mutate_rights_content text a)) (parse text)"
  using mutate_grants [OF assms] mutate_same_roles [OF assms] by blast

theorem sync_action_exact_witness:
  "\<not> hm_has (r_grants (parse (mutate_rights_content sample_policy (Revoke ''anna'' ''alpha'')))) ''anna'' ''alpha'' \<and>
   r_members (parse (mutate_rights_content sample_policy (Revoke ''anna'' ''alpha''))) = r_members (parse sample_policy)"
proof -
  have "action_valid (Revoke ''anna'' ''alpha'')" by code_simp
  from sync_action_exact [OF this, of sample_policy "''anna''" "''alpha''"] show ?thesis by (simp add: same_roles_def)
qed

text \<open>
  A revocation by webhook removes only the direct grant: afterwards the user reaches the
  tree exactly when a role, of the user or of one of the user's groups, grants it.
\<close>

theorem revoke_leaves_roles:
  assumes "action_valid (Revoke user t)"
  shows "may_with_groups (parse (mutate_rights_content text (Revoke user t))) user gs t \<longleftrightarrow>
     (\<exists>role\<in>set (roles_for (parse text) user gs). hm_has (r_roles (parse text)) role t)"
proof -
  have s: "same_roles (parse (mutate_rights_content text (Revoke user t))) (parse text)" by (rule mutate_same_roles [OF assms])
  then have "roles_for (parse (mutate_rights_content text (Revoke user t))) user gs = roles_for (parse text) user gs"
    by (simp add: roles_for_def same_roles_def)
  with s mutate_grants [OF assms, of "text" user t] show ?thesis by (simp add: may_iff same_roles_def)
qed

theorem revoke_leaves_roles_witness:
  "may_with_groups (parse (mutate_rights_content sample_policy (Revoke ''anna'' ''alpha''))) ''anna'' [] ''alpha''"
proof -
  have "action_valid (Revoke ''anna'' ''alpha'')" by code_simp
  moreover have "may_with_groups (parse sample_policy) ''anna'' [] ''alpha''"
    "\<not> hm_has (r_grants (parse sample_policy)) ''anna'' ''alpha''" by code_simp+
  ultimately show ?thesis
    using revoke_leaves_roles [of "''anna''" "''alpha''" sample_policy "[]"] by (simp add: may_iff)
qed

text \<open>
  Applying a list of actions is all or nothing. If one action names something that is not
  an identifier, or the file cannot be written, the file stays as it was; otherwise its
  direct grants are those of the actions one after the other, and the rest is unchanged.
\<close>

theorem sync_all_or_nothing:
  "(case apply_sync_actions io actions f of
      (Inl e, f') \<Rightarrow> f' = f \<and> (list_all action_valid actions \<longrightarrow> \<not> io)
    | (Inr _, f') \<Rightarrow> io \<and> list_all action_valid actions \<and>
        (\<exists>out. f' = Some out \<and>
           hm_has (r_grants (parse out)) u t =
             fold granted_after actions (hm_has (r_grants (parse (case f of None \<Rightarrow> [] | Some c \<Rightarrow> c)))) u t \<and>
           same_roles (parse out) (parse (case f of None \<Rightarrow> [] | Some c \<Rightarrow> c))))"
proof (cases "list_all action_valid actions")
  case True
  then have n: "\<not> list_ex (\<lambda>a. \<not> action_valid a) actions" by (auto simp: list_all_iff list_ex_iff)
  show ?thesis
  proof (cases io)
    case True
    then show ?thesis using n \<open>list_all action_valid actions\<close> fold_mutate [OF \<open>list_all action_valid actions\<close>]
      by (simp add: apply_sync_actions_def Let_def)
  qed (simp add: apply_sync_actions_def Let_def n)
next
  case False
  then have "list_ex (\<lambda>a. \<not> action_valid a) actions" by (auto simp: list_all_iff list_ex_iff)
  then show ?thesis using False by (simp add: apply_sync_actions_def)
qed

theorem sync_all_or_nothing_witness:
  "apply_sync_actions True [Grant ''anna'' ''alpha'', Grant ''anna.schmidt'' ''alpha''] (Some ''x'') = (Inl InvalidIdentifier, Some ''x'') \<and>
   \<not> list_all action_valid [Grant ''anna'' ''alpha'', Grant ''anna.schmidt'' ''alpha'']"
proof -
  have "\<not> action_valid (Grant ''anna.schmidt'' ''alpha'')" by code_simp
  then have e: "apply_sync_actions True [Grant ''anna'' ''alpha'', Grant ''anna.schmidt'' ''alpha''] (Some ''x'') = (Inl InvalidIdentifier, Some ''x'')"
    by (simp add: apply_sync_actions_def)
  from sync_all_or_nothing [where io = True and actions = "[Grant ''anna'' ''alpha'', Grant ''anna.schmidt'' ''alpha'']" and f = "Some ''x''"]
  show ?thesis unfolding e prod.case sum.case by blast
qed

end
