(* ===== verification/Sha256.thy ===== *)
theory Sha256
  imports Security
begin

text \<open>
  The hash of \<^verbatim>\<open>src/auth.rs\<close> (\<open>sha256\<close>, \<open>sha256_hex\<close>) and the
  message authentication code of \<^verbatim>\<open>src/sync.rs\<close> (\<open>hmac_sha256\<close>,
  \<open>hmac_sha256_hex\<close>), at the code's widths: \<open>32 word\<close> for the state and the message
  schedule, where addition wraps, and \<open>64 word\<close> for the bit length. Byte arrays are
  \<open>string\<close>s. The array \<open>w\<close> of the code is a list of 64 words updated by index.
\<close>

type_synonym u32 = "32 word"

definition rotate_right :: "nat \<Rightarrow> u32 \<Rightarrow> u32" where
  "rotate_right n w = drop_bit n w OR push_bit (32 - n) w"

text \<open>The constant table, in rows of eight.\<close>

definition sha_K :: "u32 list" where
  "sha_K = concat
    [[0x428a2f98, 0x71374491, 0xb5c0fbcf, 0xe9b5dba5, 0x3956c25b, 0x59f111f1, 0x923f82a4, 0xab1c5ed5],
     [0xd807aa98, 0x12835b01, 0x243185be, 0x550c7dc3, 0x72be5d74, 0x80deb1fe, 0x9bdc06a7, 0xc19bf174],
     [0xe49b69c1, 0xefbe4786, 0x0fc19dc6, 0x240ca1cc, 0x2de92c6f, 0x4a7484aa, 0x5cb0a9dc, 0x76f988da],
     [0x983e5152, 0xa831c66d, 0xb00327c8, 0xbf597fc7, 0xc6e00bf3, 0xd5a79147, 0x06ca6351, 0x14292967],
     [0x27b70a85, 0x2e1b2138, 0x4d2c6dfc, 0x53380d13, 0x650a7354, 0x766a0abb, 0x81c2c92e, 0x92722c85],
     [0xa2bfe8a1, 0xa81a664b, 0xc24b8b70, 0xc76c51a3, 0xd192e819, 0xd6990624, 0xf40e3585, 0x106aa070],
     [0x19a4c116, 0x1e376c08, 0x2748774c, 0x34b0bcb5, 0x391c0cb3, 0x4ed8aa4a, 0x5b9cca4f, 0x682e6ff3],
     [0x748f82ee, 0x78a5636f, 0x84c87814, 0x8cc70208, 0x90befffa, 0xa4506ceb, 0xbef9a3f7, 0xc67178f2]]"

definition sha_H0 :: "u32 list" where
  "sha_H0 =
    [0x6a09e667, 0xbb67ae85, 0x3c6ef372, 0xa54ff53a, 0x510e527f, 0x9b05688c, 0x1f83d9ab,
     0x5be0cd19]"

subsection \<open>Padding and chunks\<close>

text \<open>\<^verbatim>\<open>while data.len() % 64 != 56 { data.push(0) }\<close>\<close>

function pad_zeros :: "string \<Rightarrow> string" where
  "pad_zeros d = (if length d mod 64 \<noteq> 56 then pad_zeros (d @ [CHR 0x00]) else d)"
  by pat_completeness auto
termination
proof (relation "measure (\<lambda>d. if length d mod 64 \<le> 56 then 56 - length d mod 64 else 120 - length d mod 64)")
  fix d :: string
  define m where "m = length d mod 64"
  assume "length d mod 64 \<noteq> 56"
  then have "m < 64" "m \<noteq> 56" by (simp_all add: m_def)
  moreover have "length (d @ [CHR 0x00]) mod 64 = (if m = 63 then 0 else Suc m)"
    by (simp add: m_def mod_Suc)
  ultimately show "(d @ [CHR 0x00], d) \<in> measure
      (\<lambda>d. if length d mod 64 \<le> 56 then 56 - length d mod 64 else 120 - length d mod 64)"
    unfolding in_measure m_def [symmetric] by (auto split: if_splits)
qed simp

declare pad_zeros.simps [simp del]

text \<open>\<^verbatim>\<open>u64::to_be_bytes\<close>, \<^verbatim>\<open>u32::to_be_bytes\<close> and \<^verbatim>\<open>u32::from_be_bytes\<close>.\<close>

definition u64_be_bytes :: "64 word \<Rightarrow> string" where
  "u64_be_bytes w = map (\<lambda>i. char_of (unat (drop_bit (8 * i) w) mod 256)) (rev [0..<8])"

definition u32_be_bytes :: "u32 \<Rightarrow> string" where
  "u32_be_bytes w = map (\<lambda>i. char_of (unat (drop_bit (8 * i) w) mod 256)) (rev [0..<4])"

definition u32_from_be :: "string \<Rightarrow> u32" where
  "u32_from_be bs = foldl (\<lambda>w c. push_bit 8 w OR of_nat (byte c)) 0 bs"

definition pad :: "string \<Rightarrow> string" where
  "pad msg = pad_zeros (msg @ [CHR 0x80]) @ u64_be_bytes (of_nat (length msg) * 8)"

text \<open>\<^verbatim>\<open>data.chunks(n)\<close>\<close>

function chunks :: "nat \<Rightarrow> 'a list \<Rightarrow> 'a list list" where
  "chunks n xs = (if xs = [] \<or> n = 0 then [] else take n xs # chunks n (drop n xs))"
  by pat_completeness auto
termination
  by (relation "measure (\<lambda>(n, xs). length xs)") auto

declare chunks.simps [simp del]

subsection \<open>Compression\<close>

definition schedule_step :: "nat \<Rightarrow> u32 list \<Rightarrow> u32 list" where
  "schedule_step i w =
     (let s0 = (rotate_right 7 (w ! (i - 15)) XOR rotate_right 18 (w ! (i - 15))) XOR drop_bit 3 (w ! (i - 15));
          s1 = (rotate_right 17 (w ! (i - 2)) XOR rotate_right 19 (w ! (i - 2))) XOR drop_bit 10 (w ! (i - 2))
      in w[i := ((w ! (i - 16) + s0) + w ! (i - 7)) + s1])"

definition load_words :: "string \<Rightarrow> u32 list" where
  "load_words chunk =
     fold (\<lambda>(i, word) w. w[i := u32_from_be word]) (enumerate 0 (chunks 4 chunk)) (replicate 64 0)"

definition schedule :: "string \<Rightarrow> u32 list" where
  "schedule chunk = fold schedule_step [16..<64] (load_words chunk)"

type_synonym sha_state = "u32 \<times> u32 \<times> u32 \<times> u32 \<times> u32 \<times> u32 \<times> u32 \<times> u32"

definition sha_round :: "u32 list \<Rightarrow> nat \<Rightarrow> sha_state \<Rightarrow> sha_state" where
  "sha_round w i st =
     (case st of (a, b, c, d, e, f, g, hh) \<Rightarrow>
        let s1 = (rotate_right 6 e XOR rotate_right 11 e) XOR rotate_right 25 e;
            ch = (e AND f) XOR (NOT e AND g);
            t1 = (((hh + s1) + ch) + sha_K ! i) + w ! i;
            s0 = (rotate_right 2 a XOR rotate_right 13 a) XOR rotate_right 22 a;
            maj = ((a AND b) XOR (a AND c)) XOR (b AND c);
            t2 = s0 + maj
        in (t1 + t2, a, b, c, d + t1, e, f, g))"

definition sha_compress :: "string \<Rightarrow> u32 list \<Rightarrow> u32 list" where
  "sha_compress chunk h =
     (let w = schedule chunk in
      case fold (sha_round w) [0..<64]
             (h ! 0, h ! 1, h ! 2, h ! 3, h ! 4, h ! 5, h ! 6, h ! 7) of
        (a, b, c, d, e, f, g, hh) \<Rightarrow> map2 (+) h [a, b, c, d, e, f, g, hh])"

definition sha256 :: "string \<Rightarrow> string" where
  "sha256 msg = concat (map u32_be_bytes (fold sha_compress (chunks 64 (pad msg)) sha_H0))"

definition sha256_hex :: "string \<Rightarrow> string" where
  "sha256_hex msg = hex_str (sha256 msg)"

subsection \<open>The message authentication code\<close>

text \<open>\<^verbatim>\<open>arr[..src.len()].copy_from_slice(src)\<close>\<close>

definition copy_prefix :: "string \<Rightarrow> string \<Rightarrow> string" where
  "copy_prefix src arr = src @ drop (length src) arr"

definition xor_char :: "char \<Rightarrow> char \<Rightarrow> char" where
  "xor_char a b = word_char (byte_word a XOR byte_word b)"

definition hmac_key :: "string \<Rightarrow> string" where
  "hmac_key key =
     (if length key > 64 then copy_prefix (sha256 key) (replicate 64 (CHR 0x00))
      else copy_prefix key (replicate 64 (CHR 0x00)))"

definition hmac_sha256 :: "string \<Rightarrow> string \<Rightarrow> string" where
  "hmac_sha256 key msg =
     (let k = hmac_key key;
          ipad = map (\<lambda>i. xor_char (CHR 0x36) (k ! i)) [0..<64];
          opad = map (\<lambda>i. xor_char (CHR 0x5C) (k ! i)) [0..<64];
          inner_hash = sha256 (ipad @ msg)
      in sha256 (opad @ inner_hash))"

definition hmac_sha256_hex :: "string \<Rightarrow> string \<Rightarrow> string" where
  "hmac_sha256_hex key msg = hex_str (hmac_sha256 key msg)"

subsection \<open>Shapes\<close>

lemma length_u64_be_bytes [simp]: "length (u64_be_bytes w) = 8"
  by (simp add: u64_be_bytes_def)

lemma length_u32_be_bytes [simp]: "length (u32_be_bytes w) = 4"
  by (simp add: u32_be_bytes_def)

text \<open>How many zero bytes bring a length to 56 modulo 64.\<close>

definition zeros_needed :: "nat \<Rightarrow> nat" where
  "zeros_needed n = (if n mod 64 \<le> 56 then 56 - n mod 64 else 120 - n mod 64)"

lemma zeros_needed_Suc: "n mod 64 \<noteq> 56 \<Longrightarrow> zeros_needed n = Suc (zeros_needed (Suc n))"
proof -
  define m where "m = n mod 64"
  assume "n mod 64 \<noteq> 56"
  then have "m < 64" "m \<noteq> 56" by (simp_all add: m_def)
  moreover have "Suc n mod 64 = (if m = 63 then 0 else Suc m)" by (simp add: m_def mod_Suc)
  ultimately show ?thesis unfolding zeros_needed_def m_def [symmetric] by (auto split: if_splits)
qed

lemma zeros_needed_mod: "(n + zeros_needed n) mod 64 = 56" "zeros_needed n < 64"
proof -
  have "n mod 64 < 64" by simp
  then show "zeros_needed n < 64" by (auto simp: zeros_needed_def)
  have "(n mod 64 + zeros_needed n) mod 64 = 56"
    using \<open>n mod 64 < 64\<close> by (auto simp: zeros_needed_def)
  then show "(n + zeros_needed n) mod 64 = 56" by (simp add: mod_add_left_eq)
qed

lemma pad_zeros_eq: "pad_zeros d = d @ replicate (zeros_needed (length d)) (CHR 0x00)"
proof (induction d rule: pad_zeros.induct)
  case (1 d)
  show ?case
  proof (cases "length d mod 64 = 56")
    case True
    then show ?thesis by (subst pad_zeros.simps) (simp add: zeros_needed_def)
  next
    case False
    then have "pad_zeros d = pad_zeros (d @ [CHR 0x00])" by (subst pad_zeros.simps) simp
    with 1 False zeros_needed_Suc [OF False] show ?thesis by simp
  qed
qed

lemma length_pad: "64 dvd length (pad msg)"
proof -
  let ?n = "Suc (length msg)"
  have "length (pad msg) = ?n + zeros_needed ?n + 8"
    by (simp add: pad_def pad_zeros_eq)
  moreover have "(?n + zeros_needed ?n + 8) mod 64 = ((?n + zeros_needed ?n) mod 64 + 8) mod 64"
    by (rule mod_add_left_eq [symmetric])
  ultimately have "length (pad msg) mod 64 = 0" unfolding zeros_needed_mod by simp
  then show ?thesis by (rule mod_0_imp_dvd)
qed

lemma chunks_length: "n dvd length xs \<Longrightarrow> c \<in> set (chunks n xs) \<Longrightarrow> length c = n"
proof (induction n xs rule: chunks.induct)
  case (1 n xs)
  show ?case
  proof (cases "xs = [] \<or> n = 0")
    case True
    with 1 show ?thesis by (subst (asm) (2) chunks.simps) simp
  next
    case False
    from 1(2) False have le: "n \<le> length xs" by (simp add: dvd_imp_le)
    have "n dvd length (drop n xs)" using 1(2) le by (simp add: dvd_diff_nat)
    moreover have "c = take n xs \<or> c \<in> set (chunks n (drop n xs))"
      using 1(3) False by (subst (asm) chunks.simps) auto
    ultimately show ?thesis using 1(1) False le by auto
  qed
qed

lemma length_chunks: "0 < n \<Longrightarrow> length xs = k * n \<Longrightarrow> length (chunks n xs) = k"
proof (induction k arbitrary: xs)
  case 0
  then show ?case by (simp add: chunks.simps)
next
  case (Suc k)
  then show ?case by (subst chunks.simps) auto
qed

lemma concat_chunks: "0 < n \<Longrightarrow> concat (chunks n xs) = xs"
  by (induction n xs rule: chunks.induct) (subst chunks.simps, auto)

lemma length_sha_compress [simp]: "length h = 8 \<Longrightarrow> length (sha_compress c h) = 8"
  by (simp add: sha_compress_def split: prod.split)

lemma length_fold_compress: "length h = 8 \<Longrightarrow> length (fold sha_compress cs h) = 8"
  by (induction cs arbitrary: h) auto

lemma length_concat_const: "\<forall>x\<in>set xs. length (f x) = k \<Longrightarrow> length (concat (map f xs)) = k * length xs"
  by (induction xs) auto

lemma length_sha256 [simp]: "length (sha256 msg) = 32"
proof -
  have "length (fold sha_compress (chunks 64 (pad msg)) sha_H0) = 8"
    by (rule length_fold_compress) (simp add: sha_H0_def)
  then show ?thesis using length_concat_const [of _ u32_be_bytes 4] by (simp add: sha256_def)
qed

lemma length_hmac_key [simp]: "length (hmac_key key) = 64"
  by (simp add: hmac_key_def copy_prefix_def)

text \<open>
  What the users of a keyed signature rely on: the printed signature is 64 lower-case
  hexadecimal digits.
\<close>

definition is_hex64 :: "string \<Rightarrow> bool" where
  "is_hex64 s \<longleftrightarrow> length s = 64 \<and> list_all is_ascii_hexdigit s"

lemma sha256_hex_shape: "is_hex64 (sha256_hex msg) \<and> to_ascii_lowercase (sha256_hex msg) = sha256_hex msg"
  by (simp add: is_hex64_def sha256_hex_def hex_str_hexdigits hex_str_lower)

lemma hmac_hex_shape: "is_hex64 (hmac_sha256_hex key msg)"
  by (simp add: is_hex64_def hmac_sha256_hex_def hmac_sha256_def hex_str_hexdigits Let_def)

subsection \<open>The standard's reference\<close>

text \<open>
  FIPS 180-4 without arrays and loops: the padding by its closed form, the message schedule
  by its recurrence, rotation by the library's \<open>word_rotr\<close>.
\<close>

definition fips_sigma0 :: "u32 \<Rightarrow> u32" where
  "fips_sigma0 x = word_rotr 7 x XOR word_rotr 18 x XOR drop_bit 3 x"

definition fips_sigma1 :: "u32 \<Rightarrow> u32" where
  "fips_sigma1 x = word_rotr 17 x XOR word_rotr 19 x XOR drop_bit 10 x"

function fips_W :: "u32 list \<Rightarrow> nat \<Rightarrow> u32" where
  "fips_W M t = (if t < 16 then M ! t
     else fips_sigma1 (fips_W M (t - 2)) + fips_W M (t - 7) +
          fips_sigma0 (fips_W M (t - 15)) + fips_W M (t - 16))"
  by pat_completeness auto
termination by (relation "measure snd") auto

declare fips_W.simps [simp del]

definition fips_round :: "(nat \<Rightarrow> u32) \<Rightarrow> nat \<Rightarrow> sha_state \<Rightarrow> sha_state" where
  "fips_round W t st =
     (case st of (a, b, c, d, e, f, g, h) \<Rightarrow>
        let T1 = h + (word_rotr 6 e XOR word_rotr 11 e XOR word_rotr 25 e)
                   + ((e AND f) XOR (NOT e AND g)) + sha_K ! t + W t;
            T2 = (word_rotr 2 a XOR word_rotr 13 a XOR word_rotr 22 a)
                   + ((a AND b) XOR (a AND c) XOR (b AND c))
        in (T1 + T2, a, b, c, d + T1, e, f, g))"

definition fips_block :: "u32 list \<Rightarrow> u32 list \<Rightarrow> u32 list" where
  "fips_block M H =
     (case fold (fips_round (fips_W M)) [0..<64] (H ! 0, H ! 1, H ! 2, H ! 3, H ! 4, H ! 5, H ! 6, H ! 7) of
        (a, b, c, d, e, f, g, h) \<Rightarrow>
          [H ! 0 + a, H ! 1 + b, H ! 2 + c, H ! 3 + d, H ! 4 + e, H ! 5 + f, H ! 6 + g, H ! 7 + h])"

definition fips_pad :: "string \<Rightarrow> string" where
  "fips_pad msg = msg @ CHR 0x80 # replicate (zeros_needed (Suc (length msg))) (CHR 0x00)
     @ u64_be_bytes (of_nat (8 * length msg))"

definition fips_sha256 :: "string \<Rightarrow> string" where
  "fips_sha256 msg = concat (map u32_be_bytes
     (fold fips_block (map (\<lambda>B. map u32_from_be (chunks 4 B)) (chunks 64 (fips_pad msg))) sha_H0))"

lemma rotate_right_rotr: "0 < n \<Longrightarrow> n < 32 \<Longrightarrow> rotate_right n w = word_rotr n w"
proof (rule bit_word_eqI)
  fix i assume n: "0 < n" "n < 32" and "i < LENGTH(32)"
  then have i: "i < 32" by simp
  show "bit (rotate_right n w) i = bit (word_rotr n w) i"
  proof (cases "i + n < 32")
    case True
    with n i show ?thesis
      by (auto simp: rotate_right_def bit_simps bit_word_rotr_iff add.commute)
  next
    case False
    then have m: "(i + n) mod 32 = i + n - 32" using n i by (simp add: mod_if)
    have "\<not> bit w (n + i)" using False bit_imp_le_length [of w "n + i"] by auto
    moreover have "i - (32 - n) = i + n - 32" using False n by simp
    ultimately show ?thesis using False n i m
      by (auto simp: rotate_right_def bit_simps bit_word_rotr_iff)
  qed
qed

lemma fold_update_prefix:
  "k + length xs \<le> length w \<Longrightarrow>
   fold (\<lambda>(i, x) w. w[i := f x]) (enumerate k xs) w = take k w @ map f xs @ drop (k + length xs) w"
proof (induction xs arbitrary: k w)
  case (Cons x xs)
  then have k: "k < length w" by simp
  have "fold (\<lambda>(i, x) w. w[i := f x]) (enumerate k (x # xs)) w
      = take (Suc k) (w[k := f x]) @ map f xs @ drop (Suc k + length xs) (w[k := f x])"
    using Cons.IH [of "Suc k" "w[k := f x]"] Cons.prems by simp
  also have "take (Suc k) (w[k := f x]) = take k w @ [f x]"
    using k by (simp add: take_Suc_conv_app_nth)
  finally show ?case by simp
qed simp

lemma load_words_eq:
  assumes "length chunk = 64"
  shows "load_words chunk = map u32_from_be (chunks 4 chunk) @ replicate 48 0"
    and "length (chunks 4 chunk) = 16"
proof -
  show l: "length (chunks 4 chunk) = 16" using assms by (intro length_chunks) auto
  show "load_words chunk = map u32_from_be (chunks 4 chunk) @ replicate 48 0"
    unfolding load_words_def using l by (subst fold_update_prefix) simp_all
qed

lemma schedule_prefix:
  assumes "length M = 16" and "n \<le> 48"
  shows "length (fold schedule_step [16..<16 + n] (M @ replicate 48 0)) = 64 \<and>
    (\<forall>t < 16 + n. fold schedule_step [16..<16 + n] (M @ replicate 48 0) ! t = fips_W M t)"
  using assms(2)
proof (induction n)
  case 0
  then show ?case using assms(1) by (simp add: nth_append fips_W.simps)
next
  case (Suc n)
  let ?w = "fold schedule_step [16..<16 + n] (M @ replicate 48 0)"
  have IH: "length ?w = 64" "\<And>t. t < 16 + n \<Longrightarrow> ?w ! t = fips_W M t" using Suc by auto
  have "fold schedule_step [16..<16 + Suc n] (M @ replicate 48 0) = schedule_step (16 + n) ?w"
    using upt_Suc [of 16 "16 + n"] by simp
  moreover have "schedule_step (16 + n) ?w = ?w[16 + n := fips_W M (16 + n)]"
    using IH by (subst fips_W.simps)
      (simp add: schedule_step_def Let_def rotate_right_rotr fips_sigma0_def fips_sigma1_def
          xor.assoc algebra_simps)
  ultimately show ?case using IH Suc.prems by (auto simp: nth_list_update less_Suc_eq)
qed

lemma schedule_fips:
  assumes "length chunk = 64" and "t < 64"
  shows "schedule chunk ! t = fips_W (map u32_from_be (chunks 4 chunk)) t"
proof -
  have "16 + 48 = (64 :: nat)" by simp
  then show ?thesis
    using schedule_prefix [of "map u32_from_be (chunks 4 chunk)" 48] assms
    by (simp add: schedule_def load_words_eq)
qed

lemma sha_round_fips: "w ! i = W i \<Longrightarrow> sha_round w i st = fips_round W i st"
  by (simp add: sha_round_def fips_round_def rotate_right_rotr Let_def xor.assoc split: prod.split)

lemma fold_round_fips:
  "\<forall>i\<in>set is. w ! i = W i \<Longrightarrow> fold (sha_round w) is st = fold (fips_round W) is st"
  by (induction "is" arbitrary: st) (auto simp: sha_round_fips)

lemma length8_conv: "length h = 8 \<Longrightarrow> h = [h ! 0, h ! 1, h ! 2, h ! 3, h ! 4, h ! 5, h ! 6, h ! 7]"
  by (auto simp: eval_nat_numeral length_Suc_conv)

lemma compress_fips:
  assumes "length chunk = 64" and "length h = 8"
  shows "sha_compress chunk h = fips_block (map u32_from_be (chunks 4 chunk)) h"
proof -
  define st where "st = fold (fips_round (fips_W (map u32_from_be (chunks 4 chunk)))) [0..<64]
      (h ! 0, h ! 1, h ! 2, h ! 3, h ! 4, h ! 5, h ! 6, h ! 7)"
  have "fold (sha_round (schedule chunk)) [0..<64]
      (h ! 0, h ! 1, h ! 2, h ! 3, h ! 4, h ! 5, h ! 6, h ! 7) = st"
    unfolding st_def using schedule_fips [OF assms(1)] by (intro fold_round_fips) auto
  then have "sha_compress chunk h = (case st of (a, b, c, d, e, f, g, hh) \<Rightarrow> map2 (+) h [a, b, c, d, e, f, g, hh])"
    by (simp add: sha_compress_def Let_def)
  also have "\<dots> = fips_block (map u32_from_be (chunks 4 chunk)) h"
    unfolding fips_block_def st_def [symmetric]
    by (subst length8_conv [OF assms(2)]) (simp split: prod.split)
  finally show ?thesis .
qed

lemma fold_compress_fips:
  "\<forall>c\<in>set cs. length c = 64 \<Longrightarrow> length h = 8 \<Longrightarrow>
     fold sha_compress cs h = fold fips_block (map (\<lambda>B. map u32_from_be (chunks 4 B)) cs) h"
proof (induction cs arbitrary: h)
  case (Cons c cs)
  have "length (sha_compress c h) = 8" using Cons.prems by simp
  with Cons.IH [of "sha_compress c h"] Cons.prems show ?case by (simp add: compress_fips)
qed simp

lemma pad_fips: "pad msg = fips_pad msg"
  by (simp add: pad_def fips_pad_def pad_zeros_eq mult.commute)

subsection \<open>The constant tables\<close>

text \<open>
  Where the standard takes its constants from: the first 32 bits of the fractional parts of
  the square roots of the first 8 primes, and of the cube roots of the first 64.
\<close>

definition primes64 :: "nat list" where
  "primes64 =
    [2, 3, 5, 7, 11, 13, 17, 19, 23, 29, 31, 37, 41, 43, 47, 53, 59, 61, 67, 71, 73, 79, 83, 89, 97, 101,
     103, 107, 109, 113, 127, 131, 137, 139, 149, 151, 157, 163, 167, 173, 179, 181, 191, 193, 197, 199,
     211, 223, 227, 229, 233, 239, 241, 251, 257, 263, 269, 271, 277, 281, 283, 293, 307, 311]"

text \<open>
  \<open>w\<close> holds the 32 bits after the point of the \<open>k\<close>-th root of \<open>p\<close>: with some
  whole part \<open>r\<close>, the fixed-point number is the largest whose \<open>k\<close>-th power is at most \<open>p\<close>.
\<close>

definition root_bits :: "nat \<Rightarrow> u32 \<Rightarrow> nat \<Rightarrow> bool" where
  "root_bits k w p \<longleftrightarrow> list_ex (\<lambda>r. let n = r * 2 ^ 32 + unat w in
     n ^ k \<le> p * 2 ^ (32 * k) \<and> p * 2 ^ (32 * k) < (n + 1) ^ k) [1, 2, 3, 4, 5, 6]"

text \<open>The whole part of the cube roots, and one step along the table.\<close>

definition whole_root :: "nat \<Rightarrow> nat" where
  "whole_root p = (if p < 8 then 1 else if p < 27 then 2 else if p < 64 then 3 else if p < 125 then 4 else if p < 216 then 5 else 6)"

lemma root_bits3:
  assumes "n = whole_root p * 4294967296 + unat w" and "n * n * n \<le> p * 79228162514264337593543950336"
    and "p * 79228162514264337593543950336 < (n + 1) * (n + 1) * (n + 1)"
  shows "root_bits 3 w p"
  using assms by (simp add: root_bits_def Let_def power3_eq_cube whole_root_def split: if_splits)

definition tab_ok :: "u32 list \<Rightarrow> nat list \<Rightarrow> bool" where
  "tab_ok ws ps \<longleftrightarrow> list_all2 (root_bits 3) ws ps"

lemma tab_ok_Cons:
  "\<lbrakk>whole_root p * 4294967296 + unat w = n; n * n * n \<le> p * 79228162514264337593543950336;
    p * 79228162514264337593543950336 < (n + 1) * (n + 1) * (n + 1); tab_ok ws ps\<rbrakk> \<Longrightarrow> tab_ok (w # ws) (p # ps)"
  by (simp add: tab_ok_def root_bits3)

lemma sha_K_table: "tab_ok sha_K primes64"
  unfolding sha_K_def primes64_def concat.simps append.simps append_Nil2
  by (rule tab_ok_Cons, simp add: whole_root_def, simp, simp)+ (simp add: tab_ok_def)

lemma sha_tables: "list_all2 (root_bits 3) sha_K primes64" "list_all2 (root_bits 2) sha_H0 (take 8 primes64)"
  using sha_K_table by (simp add: tab_ok_def) (simp add: sha_H0_def primes64_def root_bits_def Let_def)

subsection \<open>Properties\<close>

text \<open>
  C6. The hash of the program is the standard's: on every message, the code's loops over
  mutable arrays (padding by a loop of pushes, a schedule filled in place, eight shifted
  working variables) compute SHA-256 as FIPS 180-4 states it, and the constant tables hold
  the bits of the roots of the first primes.
\<close>

theorem sha256_is_fips:
  "sha256 msg = fips_sha256 msg \<and>
   list_all2 (root_bits 3) sha_K primes64 \<and> list_all2 (root_bits 2) sha_H0 (take 8 primes64)"
proof -
  have c: "\<forall>c\<in>set (chunks 64 (pad msg)). length c = 64" using chunks_length [OF length_pad] by blast
  have h: "length sha_H0 = 8" by (simp add: sha_H0_def)
  have "sha256 msg = fips_sha256 msg"
    unfolding sha256_def fips_sha256_def pad_fips [symmetric] fold_compress_fips [OF c h] by (rule refl)
  with sha_tables show ?thesis by blast
qed

end
