(* ===== verification/Sync.thy ===== *)
theory Sync
  imports Rights_Sync Sha256 Json
begin

text \<open>
  \<^verbatim>\<open>src/sync.rs\<close>, what arrives from code hosts and what is fetched from them:
  the webhook signatures, the extraction of JSON fields from the raw payload, the webhook
  handlers, the repository mapping, the review events, the check and status requests, and the
  full reconciliation with its paginated member lists. The HTTP client is a parameter (a
  function from requests to results), as is the JSON parser of the review events.
\<close>

subsection \<open>Signatures\<close>

definition verify_github_signature :: "string \<Rightarrow> string \<Rightarrow> string option \<Rightarrow> bool" where
  "verify_github_signature secret body header =
     (case header of None \<Rightarrow> False | Some h \<Rightarrow>
        (case strip_prefix ''sha256='' h of None \<Rightarrow> False
         | Some expected_hex \<Rightarrow> constant_time_eq (hmac_sha256_hex secret body) expected_hex))"

definition verify_gitlab_token :: "string \<Rightarrow> string option \<Rightarrow> bool" where
  "verify_gitlab_token secret header =
     (case header of None \<Rightarrow> False | Some h \<Rightarrow> constant_time_eq secret (trim h))"

subsection \<open>JSON fields of a raw payload\<close>

definition quoted :: "string \<Rightarrow> string" where
  "quoted s = quote_char # s @ [quote_char]"

text \<open>The index of the closing quote, \<open>0\<close> when there is none; \<open>i\<close> is the current index.\<close>

fun quote_end :: "nat \<Rightarrow> bool \<Rightarrow> string \<Rightarrow> nat" where
  "quote_end i escaped [] = 0"
| "quote_end i escaped (c # cs) =
     (if escaped then quote_end (i + 1) False cs
      else if c = backslash then quote_end (i + 1) True cs
      else if c = quote_char then i
      else quote_end (i + 1) False cs)"

definition bare_stop :: "string \<Rightarrow> bool" where
  "bare_stop g \<longleftrightarrow> g \<in> {'','', ''}'', '']''} \<or> is_whitespace g"

definition field_value :: "string \<Rightarrow> string" where
  "field_value v = (case v of
       q # after_quote \<Rightarrow> if q = quote_char then take (quote_end 0 False after_quote) after_quote
                        else trim (concat (takeWhile (\<lambda>g. \<not> bare_stop g) (uchars v)))
     | [] \<Rightarrow> [])"

lemma find_str_bound: "find_str p s = Some i \<Longrightarrow> i + length p \<le> length s"
proof (induction p s arbitrary: i rule: find_str.induct)
  case (2 p c cs)
  show ?case
  proof (cases "starts_with p (c # cs)")
    case True
    then obtain r where "c # cs = p @ r" by (auto simp: starts_with_iff)
    then have "length (c # cs) = length p + length r" by (metis length_append)
    then show ?thesis using 2(2) True by simp
  next
    case False
    then show ?thesis using 2 by auto
  qed
qed (auto split: if_splits)

function extract_from :: "string \<Rightarrow> string \<Rightarrow> string option" where
  "extract_from needle s =
     (if needle = [] then None
      else case find_str needle s of None \<Rightarrow> None | Some i \<Rightarrow>
        let rest = drop (i + length needle) s in
        (case find_char (\<lambda>c. c = CHR '':'') rest of
           None \<Rightarrow> extract_from needle rest
         | Some colon \<Rightarrow>
             if trim (take colon rest) \<noteq> [] then extract_from needle rest
             else Some (field_value (trim_start (drop (colon + 1) rest)))))"
  by pat_completeness auto
termination
proof (relation "measure (\<lambda>(_, s). length s)")
  fix needle s :: string and i :: nat and rest
  assume a: "needle \<noteq> []" "find_str needle s = Some i" "rest = drop (i + length needle) s"
  have "0 < length needle" using a(1) by simp
  then have "length s - (i + length needle) < length s" using find_str_bound [OF a(2)] by arith
  then have "length rest < length s" by (simp add: a(3))
  then show "((needle, rest), needle, s) \<in> measure (\<lambda>(_, s). length s)"
    "((needle, rest), needle, s) \<in> measure (\<lambda>(_, s). length s)" by simp_all
qed simp

declare extract_from.simps [simp del]

definition extract_json_field :: "string \<Rightarrow> string \<Rightarrow> string option" where
  "extract_json_field s field = extract_from (quoted field) s"

text \<open>The slice from the first brace after the first occurrence of the quoted key.\<close>

definition nested_slice :: "string \<Rightarrow> string \<Rightarrow> string option" where
  "nested_slice key s = (case find_str (quoted key) s of None \<Rightarrow> None | Some i \<Rightarrow>
     let rest = drop (i + length (quoted key)) s in
     map_option (\<lambda>j. drop j rest) (find_char (\<lambda>c. c = CHR ''{'') rest))"

fun extract_nested_field :: "string \<Rightarrow> string list \<Rightarrow> string option" where
  "extract_nested_field s [] = None"
| "extract_nested_field s [key] = extract_json_field s key"
| "extract_nested_field s (key # keys) = Option.bind (nested_slice key s) (\<lambda>s'. extract_nested_field s' keys)"

subsection \<open>Webhooks\<close>

record sync_config =
  c_mapping :: "(string, string) hmap"
  c_github_secret :: "string option"
  c_gitlab_secret :: "string option"
  c_github_token :: "string option"
  c_gitlab_token :: "string option"

definition resolve_tree :: "sync_config \<Rightarrow> string \<Rightarrow> string option" where
  "resolve_tree cfg repo = map_of (c_mapping cfg) repo"

datatype webhook_error = MissingField string | InvalidNames string string | MalformedPayload

definition handle_github_webhook :: "string \<Rightarrow> string \<Rightarrow> sync_config \<Rightarrow> (webhook_error, sync_action option) result" where
  "handle_github_webhook event payload cfg =
     (if event = ''member'' then
        (case extract_json_field payload ''action'' of None \<Rightarrow> Inl (MissingField ''action'') | Some action \<Rightarrow>
        (case extract_nested_field payload [''member'', ''login''] of None \<Rightarrow> Inl (MissingField ''member.login'') | Some user \<Rightarrow>
        (case extract_nested_field payload [''repository'', ''full_name''] of None \<Rightarrow> Inl (MissingField ''repository.full_name'') | Some repo \<Rightarrow>
        (case resolve_tree cfg (''github:'' @ repo) of None \<Rightarrow> Inr None | Some t \<Rightarrow>
           if \<not> is_valid_principal user \<or> \<not> is_valid_identifier t then Inl (InvalidNames user t)
           else if action = ''added'' then Inr (Some (Grant user t))
           else if action = ''removed'' \<or> action = ''deleted'' then Inr (Some (Revoke user t))
           else Inr None))))
      else Inr None)"

definition or_else :: "'a option \<Rightarrow> 'a option \<Rightarrow> 'a option" where
  "or_else a b = (case a of None \<Rightarrow> b | Some x \<Rightarrow> Some x)"

definition gitlab_member :: "string \<Rightarrow> sync_config \<Rightarrow> (string \<Rightarrow> string \<Rightarrow> sync_action) \<Rightarrow> (webhook_error, sync_action option) result" where
  "gitlab_member payload cfg mk =
     (case or_else (extract_json_field payload ''user_username'') (extract_json_field payload ''username'') of
        None \<Rightarrow> Inl (MissingField ''username'') | Some user \<Rightarrow>
     (case extract_json_field payload ''group_path'' of None \<Rightarrow> Inl (MissingField ''group_path'') | Some grp \<Rightarrow>
     (case resolve_tree cfg (''gitlab:'' @ grp) of None \<Rightarrow> Inr None | Some t \<Rightarrow>
        if \<not> is_valid_principal user \<or> \<not> is_valid_identifier t then Inl (InvalidNames user t)
        else Inr (Some (mk user t)))))"

definition handle_gitlab_webhook :: "string \<Rightarrow> string \<Rightarrow> sync_config \<Rightarrow> (webhook_error, sync_action option) result" where
  "handle_gitlab_webhook event payload cfg =
     (let name = (case or_else (extract_json_field payload ''event_name'') (extract_json_field payload ''object_kind'') of
                    None \<Rightarrow> [] | Some n \<Rightarrow> n)
      in if name = ''user_add_to_team'' \<or> name = ''user_add_to_group'' then gitlab_member payload cfg Grant
         else if name = ''user_remove_from_team'' \<or> name = ''user_remove_from_group'' then gitlab_member payload cfg Revoke
         else Inr None)"

subsection \<open>The repository mapping\<close>

datatype mapping_error = NoTab nat | BadProvider nat | BadTree nat | DuplicateRepo nat | Unreadable

definition mapping_line :: "nat \<Rightarrow> string \<Rightarrow> (string, string) hmap \<Rightarrow> (mapping_error, (string, string) hmap) result" where
  "mapping_line n line out =
     (if comment_or_blank line then Inr out
      else case split_once tab line of None \<Rightarrow> Inl (NoTab n) | Some (repo, t) \<Rightarrow>
        if \<not> starts_with ''github:'' repo \<and> \<not> starts_with ''gitlab:'' repo then Inl (BadProvider n)
        else if \<not> is_valid_identifier (trim t) then Inl (BadTree n)
        else if map_of out (trim repo) \<noteq> None then Inl (DuplicateRepo n)
        else Inr (out @ [(trim repo, trim t)]))"

fun mapping_lines :: "nat \<Rightarrow> string list \<Rightarrow> (string, string) hmap \<Rightarrow> (mapping_error, (string, string) hmap) result" where
  "mapping_lines n [] out = Inr out"
| "mapping_lines n (l # ls) out =
     (case mapping_line (n + 1) (trim l) out of Inl e \<Rightarrow> Inl e | Inr out' \<Rightarrow> mapping_lines (n + 1) ls out')"

definition load_repo_mapping :: "string option \<Rightarrow> (mapping_error, (string, string) hmap) result" where
  "load_repo_mapping content = (case content of None \<Rightarrow> Inl Unreadable | Some s \<Rightarrow> mapping_lines 0 (lines s) [])"

subsection \<open>Review events and checks\<close>

record review_event =
  ev_provider :: string
  ev_repository :: string
  ev_number :: nat
  ev_revision :: string

definition github_review_event :: "(string \<Rightarrow> json option) \<Rightarrow> string \<Rightarrow> (webhook_error, review_event option) result" where
  "github_review_event from_str payload =
     (case from_str payload of None \<Rightarrow> Inl MalformedPayload | Some v \<Rightarrow>
        let action = (case as_str (json_index v ''action'') of None \<Rightarrow> [] | Some a \<Rightarrow> a) in
        if action \<notin> {''opened'', ''synchronize'', ''reopened''} then Inr None
        else case as_str (json_index (json_index v ''repository'') ''full_name'') of
            None \<Rightarrow> Inl (MissingField ''repository.full_name'') | Some repo \<Rightarrow>
          (case as_u64 (json_index v ''number'') of None \<Rightarrow> Inl (MissingField ''number'') | Some n \<Rightarrow>
          (case as_str (json_index (json_index (json_index v ''pull_request'') ''head'') ''sha'') of
             None \<Rightarrow> Inl (MissingField ''head sha'')
           | Some sha \<Rightarrow> Inr (Some \<lparr>ev_provider = ''github'', ev_repository = repo, ev_number = n, ev_revision = sha\<rparr>))))"

definition gitlab_review_event :: "(string \<Rightarrow> json option) \<Rightarrow> string \<Rightarrow> (webhook_error, review_event option) result" where
  "gitlab_review_event from_str payload =
     (case from_str payload of None \<Rightarrow> Inl MalformedPayload | Some v \<Rightarrow>
        let attrs = json_index v ''object_attributes'';
            action = (case as_str (json_index attrs ''action'') of None \<Rightarrow> [] | Some a \<Rightarrow> a) in
        if action \<notin> {''open'', ''reopen'', ''update''} then Inr None
        else case as_str (json_index (json_index v ''project'') ''path_with_namespace'') of
            None \<Rightarrow> Inl (MissingField ''project.path_with_namespace'') | Some repo \<Rightarrow>
          (case as_u64 (json_index attrs ''iid'') of None \<Rightarrow> Inl (MissingField ''iid'') | Some n \<Rightarrow>
          (case as_str (json_index (json_index attrs ''last_commit'') ''id'') of
             None \<Rightarrow> Inl (MissingField ''last commit id'')
           | Some sha \<Rightarrow> Inr (Some \<lparr>ev_provider = ''gitlab'', ev_repository = repo, ev_number = n, ev_revision = sha\<rparr>))))"

datatype http_body = NoBody | JsonBody json | FormBody "(string \<times> string) list"

record http_request =
  hr_method :: string
  hr_url :: string
  hr_headers :: "(string \<times> string) list"
  hr_body :: http_body

datatype remote_error = InvalidPayload | HttpError string | NoToken string | NoLogin | TooManyPages | UnsupportedSource string | ApplyError sync_error

definition github_check_request :: "string \<Rightarrow> string \<Rightarrow> string \<Rightarrow> string \<Rightarrow> http_request" where
  "github_check_request repo sha summary token =
     \<lparr>hr_method = ''POST'', hr_url = ''https://api.github.com/repos/'' @ repo @ ''/check-runs'',
      hr_headers = [(''Accept'', ''application/vnd.github+json''), (''User-Agent'', ''glasir-control''),
                    (''Authorization'', ''Bearer '' @ token)],
      hr_body = JsonBody (JObj [(''name'', JStr ''Glasir impact''), (''head_sha'', JStr sha),
        (''status'', JStr ''completed''), (''conclusion'', JStr ''success''),
        (''output'', JObj [(''title'', JStr ''Glasir cross-repository impact''), (''summary'', JStr summary)])])\<rparr>"

definition github_check :: "(http_request \<Rightarrow> (remote_error, 'r) result) \<Rightarrow> string \<Rightarrow> string \<Rightarrow> string \<Rightarrow> string \<Rightarrow> (remote_error, unit) result" where
  "github_check http repo sha summary token =
     (if repo = [] \<or> length sha > 128 \<or> length summary > 60000 then Inl InvalidPayload
      else case http (github_check_request repo sha summary token) of Inl e \<Rightarrow> Inl e | Inr _ \<Rightarrow> Inr ())"

definition gitlab_status_request :: "string \<Rightarrow> string \<Rightarrow> string \<Rightarrow> string \<Rightarrow> http_request" where
  "gitlab_status_request project sha summary token =
     \<lparr>hr_method = ''POST'',
      hr_url = ''https://gitlab.com/api/v4/projects/'' @ percent_encode project @ ''/statuses/'' @ sha,
      hr_headers = [(''PRIVATE-TOKEN'', token)],
      hr_body = FormBody [(''state'', ''success''), (''name'', ''glasir-impact''), (''description'', summary)]\<rparr>"

definition gitlab_commit_status :: "(http_request \<Rightarrow> (remote_error, 'r) result) \<Rightarrow> string \<Rightarrow> string \<Rightarrow> string \<Rightarrow> string \<Rightarrow> (remote_error, unit) result" where
  "gitlab_commit_status http project sha summary token =
     (if project = [] \<or> length sha > 128 \<or> length summary > 4000 then Inl InvalidPayload
      else case http (gitlab_status_request project sha summary token) of Inl e \<Rightarrow> Inl e | Inr _ \<Rightarrow> Inr ())"

subsection \<open>Reconciliation\<close>

text \<open>The names on one page; a member without a name aborts.\<close>

fun page_names :: "string \<Rightarrow> json list \<Rightarrow> (remote_error, string list) result" where
  "page_names key [] = Inr []"
| "page_names key (v # vs) =
     (case as_str (json_index v key) of None \<Rightarrow> Inl NoLogin | Some n \<Rightarrow>
        (case page_names key vs of Inl e \<Rightarrow> Inl e
         | Inr ns \<Rightarrow> Inr (if is_valid_identifier n then n # ns else ns)))"

text \<open>The loop over the pages: the first page with fewer than 100 members is the last.\<close>

fun collect_pages :: "(nat \<Rightarrow> (remote_error, json list) result) \<Rightarrow> string \<Rightarrow> nat list \<Rightarrow> string list \<Rightarrow> (remote_error, string list) result" where
  "collect_pages fetch key [] users = Inl TooManyPages"
| "collect_pages fetch key (p # ps) users =
     (case fetch p of Inl e \<Rightarrow> Inl e | Inr vs \<Rightarrow>
        (case page_names key vs of Inl e \<Rightarrow> Inl e | Inr ns \<Rightarrow>
           if length vs < 100 then Inr (remdups_adj (sort (users @ ns)))
           else collect_pages fetch key ps (users @ ns)))"

definition github_page :: "string \<Rightarrow> string \<Rightarrow> nat \<Rightarrow> http_request" where
  "github_page repo token page =
     \<lparr>hr_method = ''GET'', hr_url = ''https://api.github.com/repos/'' @ repo @
        ''/collaborators?affiliation=direct&per_page=100&page='' @ dec_str page,
      hr_headers = [(''Accept'', ''application/vnd.github+json''), (''User-Agent'', ''glasir-control''),
                    (''Authorization'', ''Bearer '' @ token)], hr_body = NoBody\<rparr>"

definition github_members :: "(http_request \<Rightarrow> (remote_error, json list) result) \<Rightarrow> string \<Rightarrow> string \<Rightarrow> (remote_error, string list) result" where
  "github_members http repo token = collect_pages (\<lambda>p. http (github_page repo token p)) ''login'' [1..<1001] []"

definition gitlab_page :: "string \<Rightarrow> string \<Rightarrow> nat \<Rightarrow> http_request" where
  "gitlab_page grp token page =
     \<lparr>hr_method = ''GET'', hr_url = ''https://gitlab.com/api/v4/groups/'' @ percent_encode grp @
        ''/members/all?per_page=100&page='' @ dec_str page,
      hr_headers = [(''PRIVATE-TOKEN'', token)], hr_body = NoBody\<rparr>"

definition gitlab_members :: "(http_request \<Rightarrow> (remote_error, json list) result) \<Rightarrow> string \<Rightarrow> string \<Rightarrow> (remote_error, string list) result" where
  "gitlab_members http grp token = collect_pages (\<lambda>p. http (gitlab_page grp token p)) ''username'' [1..<1001] []"

definition source_members :: "(http_request \<Rightarrow> (remote_error, json list) result) \<Rightarrow> string option \<Rightarrow> string option \<Rightarrow> string \<Rightarrow> (remote_error, string list) result" where
  "source_members http github_token gitlab_token source =
     (case strip_prefix ''github:'' source of
        Some repo \<Rightarrow> (case github_token of None \<Rightarrow> Inl (NoToken ''GitHub'') | Some t \<Rightarrow> github_members http repo t)
      | None \<Rightarrow> (case strip_prefix ''gitlab:'' source of
          Some grp \<Rightarrow> (case gitlab_token of None \<Rightarrow> Inl (NoToken ''GitLab'') | Some t \<Rightarrow> gitlab_members http grp t)
        | None \<Rightarrow> Inl (UnsupportedSource source)))"

fun desired_members :: "(string \<Rightarrow> (remote_error, string list) result) \<Rightarrow> (string, string) hmap \<Rightarrow>
    (string, string list) hmap \<Rightarrow> (remote_error, (string, string list) hmap) result" where
  "desired_members members [] desired = Inr desired"
| "desired_members members ((source, t) # ms) desired =
     (case members source of Inl e \<Rightarrow> Inl e
      | Inr users \<Rightarrow> desired_members members ms (hm_extend t users desired))"

definition reconcile_remote :: "(http_request \<Rightarrow> (remote_error, json list) result) \<Rightarrow> bool \<Rightarrow>
    (string, string) hmap \<Rightarrow> string option \<Rightarrow> string option \<Rightarrow> string option \<Rightarrow> (remote_error, nat) result \<times> string option" where
  "reconcile_remote http io mapping github_token gitlab_token rights =
     (case desired_members (source_members http github_token gitlab_token) mapping [] of
        Inl e \<Rightarrow> (Inl e, rights)
      | Inr desired \<Rightarrow>
          let actions = map (\<lambda>(t, users). SetTreeGrants t (remdups users)) desired in
          (case apply_sync_actions io actions rights of
             (Inl e, rights') \<Rightarrow> (Inl (ApplyError e), rights')
           | (Inr _, rights') \<Rightarrow> (Inr (length actions), rights')))"

subsection \<open>What reconciliation writes\<close>

lemma hm_vals_desired:
  "desired_members members ms acc = Inr d \<Longrightarrow>
     (\<forall>s t. (s, t) \<in> set ms \<longrightarrow> is_ok (members s)) \<and>
     (u \<in> set (hm_vals d t) \<longleftrightarrow> u \<in> set (hm_vals acc t) \<or>
        (\<exists>s us. (s, t) \<in> set ms \<and> members s = Inr us \<and> u \<in> set us)) \<and>
     fst ` set d = fst ` set acc \<union> snd ` set ms \<and> (hm_ok acc \<longrightarrow> hm_ok d)"
proof (induction ms arbitrary: acc)
  case (Cons m ms)
  obtain s t' where m: "m = (s, t')" by (cases m)
  show ?case
  proof (cases "members s")
    case (Inl e)
    then show ?thesis using Cons.prems by (simp add: m)
  next
    case (Inr us)
    then have "desired_members members ms (hm_extend t' us acc) = Inr d" using Cons.prems by (simp add: m)
    from Cons.IH [OF this] show ?thesis
      using Inr by (auto simp: m hm_vals_extend keys_hm_extend hm_ok_extend)
  qed
qed simp

lemma fold_set_grants:
  "hm_ok d \<Longrightarrow> fold granted_after (map (\<lambda>(t, users). SetTreeGrants t (remdups users)) d) G u t =
     (case map_of d t of None \<Rightarrow> G u t | Some us \<Rightarrow> u \<in> set us)"
proof (induction d arbitrary: G)
  case (Cons p d)
  obtain t' us where p: "p = (t', us)" by (cases p)
  have ok: "hm_ok d" and new: "map_of d t' = None"
    using Cons.prems by (auto simp: p hm_ok_def map_of_eq_None_iff)
  show ?case using Cons.IH [OF ok] new by (cases "t = t'") (simp_all add: p split: option.split)
qed simp

lemma map_of_keys: "map_of d t = None \<longleftrightarrow> t \<notin> fst ` set d"
  by (simp add: map_of_eq_None_iff)

lemma apply_sync_cases:
  "apply_sync_actions io actions f =
     (if list_all action_valid actions
      then if io then (Inr (), Some (fold (\<lambda>a c. mutate_rights_content c a) actions (case f of None \<Rightarrow> [] | Some c \<Rightarrow> c)))
           else (Inl IoError, f)
      else (Inl InvalidIdentifier, f))"
  by (auto simp: apply_sync_actions_def Let_def list_all_iff list_ex_iff)

lemma collect_short:
  "\<lbrakk>a < b; fetch a = Inr vs; page_names key vs = Inr ns; length vs < 100\<rbrakk> \<Longrightarrow>
     collect_pages fetch key [a..<b] us = Inr (remdups_adj (sort (us @ ns)))"
  by (simp add: upt_conv_Cons)

definition sample_hosts :: "http_request \<Rightarrow> (remote_error, json list) result" where
  "sample_hosts rq = (if hr_url rq = hr_url (github_page ''acme/api'' ''t'' 1)
     then Inr [JObj [(''login'', JStr ''anna'')], JObj [(''login'', JStr ''anna.schmidt'')]] else Inr [])"

lemma reconcile_written:
  assumes r: "reconcile_remote http io mapping gh gl f = (Inr n, f')"
  obtains out d where "f' = Some out" and "desired_members (source_members http gh gl) mapping [] = Inr d"
    and "same_roles (parse out) (parse (case f of None \<Rightarrow> [] | Some c \<Rightarrow> c))"
    and "n = length d"
    and "\<And>u t. hm_has (r_grants (parse out)) u t \<longleftrightarrow>
           (case map_of d t of None \<Rightarrow> hm_has (r_grants (parse (case f of None \<Rightarrow> [] | Some c \<Rightarrow> c))) u t | Some us \<Rightarrow> u \<in> set us)"
proof -
  let ?c = "case f of None \<Rightarrow> [] | Some c \<Rightarrow> c"
  obtain d where d: "desired_members (source_members http gh gl) mapping [] = Inr d"
    using r by (cases "desired_members (source_members http gh gl) mapping []") (simp_all add: reconcile_remote_def)
  let ?acts = "map (\<lambda>(t, users). SetTreeGrants t (remdups users)) d"
  have ok: "hm_ok d" using hm_vals_desired [OF d] by simp
  have v: "list_all action_valid ?acts" and io
    using r by (auto simp: reconcile_remote_def d Let_def apply_sync_cases split: if_splits)
  then have f': "f' = Some (fold (\<lambda>a c. mutate_rights_content c a) ?acts ?c)" and n: "n = length d"
    using r by (simp_all add: reconcile_remote_def d Let_def apply_sync_cases)
  show ?thesis
    using that [OF f' d _ n] fold_mutate [OF v, of ?c] fold_set_grants [OF ok] by blast
qed

lemma reconcile_grants:
  assumes r: "reconcile_remote http io mapping gh gl f = (Inr n, f')"
  shows "n = card (snd ` set mapping) \<and> (\<exists>out. f' = Some out \<and>
        same_roles (parse out) (parse (case f of None \<Rightarrow> [] | Some c \<Rightarrow> c)) \<and>
        (\<forall>s t. (s, t) \<in> set mapping \<longrightarrow> is_ok (source_members http gh gl s)) \<and>
        (\<forall>u t. hm_has (r_grants (parse out)) u t \<longleftrightarrow>
           (if t \<in> snd ` set mapping
            then \<exists>s us. (s, t) \<in> set mapping \<and> source_members http gh gl s = Inr us \<and> u \<in> set us
            else hm_has (r_grants (parse (case f of None \<Rightarrow> [] | Some c \<Rightarrow> c))) u t)))"
proof -
  from reconcile_written [OF r] obtain out d where
    o: "f' = Some out" "desired_members (source_members http gh gl) mapping [] = Inr d"
    "same_roles (parse out) (parse (case f of None \<Rightarrow> [] | Some c \<Rightarrow> c))" "n = length d"
    and g: "\<And>u t. hm_has (r_grants (parse out)) u t \<longleftrightarrow>
         (case map_of d t of None \<Rightarrow> hm_has (r_grants (parse (case f of None \<Rightarrow> [] | Some c \<Rightarrow> c))) u t | Some us \<Rightarrow> u \<in> set us)"
    by metis
  have k: "fst ` set d = snd ` set mapping" and "hm_ok d" using hm_vals_desired [OF o(2)] by simp_all
  then have n: "n = card (snd ` set mapping)" using o(4)
    by (metis hm_ok_def distinct_card length_map set_map)
  have "hm_has (r_grants (parse out)) u t \<longleftrightarrow>
         (if t \<in> snd ` set mapping
          then \<exists>s us. (s, t) \<in> set mapping \<and> source_members http gh gl s = Inr us \<and> u \<in> set us
          else hm_has (r_grants (parse (case f of None \<Rightarrow> [] | Some c \<Rightarrow> c))) u t)" for u t
  proof (cases "map_of d t")
    case None
    then show ?thesis using map_of_keys [of d t] k by (simp add: g)
  next
    case (Some us)
    then have "t \<in> snd ` set mapping" using map_of_keys [of d t] k by simp
    moreover have "hm_vals d t = us" by (rule hm_vals_Some [OF Some])
    ultimately show ?thesis using hm_vals_desired [OF o(2), of u t] by (simp add: g Some)
  qed
  then show ?thesis using o n hm_vals_desired [OF o(2)] by simp
qed

subsection \<open>Pagination\<close>

text \<open>A host that serves the member list \<open>ms\<close> in pages of one hundred, counted from one.\<close>

definition page_of :: "json list \<Rightarrow> nat \<Rightarrow> json list" where
  "page_of ms p = take 100 (drop (100 * (p - 1)) ms)"

lemma page_names_all:
  "\<forall>v\<in>set vs. as_str (json_index v key) = Some (name v) \<Longrightarrow>
     page_names key vs = Inr (filter is_valid_identifier (map name vs))"
  by (induction vs) simp_all

lemma collect_all:
  assumes "\<forall>v\<in>set ms. as_str (json_index v key) = Some (name v)" and "\<And>p. fetch (Suc p) = Inr (page_of ms (Suc p))"
  shows "collect_pages fetch key [Suc k..<Suc k + n] users =
     (if length (drop (100 * k) ms) < 100 * n
      then Inr (remdups_adj (sort (users @ filter is_valid_identifier (map name (drop (100 * k) ms)))))
      else Inl TooManyPages)"
proof (induction n arbitrary: k users)
  case (Suc n)
  let ?rest = "drop (100 * k) ms"
  have u: "[Suc k..<Suc k + Suc n] = Suc k # [Suc (Suc k)..<Suc (Suc k) + n]" by (simp add: upt_conv_Cons)
  have f: "fetch (Suc k) = Inr (take 100 ?rest)" by (simp add: assms(2) page_of_def)
  have m: "\<forall>v\<in>set (take 100 ?rest). as_str (json_index v key) = Some (name v)"
    using assms(1) by (meson in_set_dropD in_set_takeD)
  show ?case
  proof (cases "length ?rest < 100")
    case True
    then have l: "length (take 100 ?rest) < 100" and a: "take 100 ?rest = ?rest" by simp_all
    have c: "length ?rest < 100 * Suc n" using True by simp
    show ?thesis
      unfolding u collect_pages.simps f sum.case page_names_all [OF m] using l c by (simp only: a if_True)
  next
    case False
    then have l: "length (take 100 ?rest) = 100" by simp
    have d: "drop (100 * Suc k) ms = drop 100 ?rest" by (simp add: add.commute)
    have t: "map name ?rest = map name (take 100 ?rest) @ map name (drop 100 ?rest)"
      by (metis append_take_drop_id map_append)
    have c: "length (drop 100 ?rest) < 100 * n \<longleftrightarrow> length ?rest < 100 * Suc n" using False by auto
    show ?thesis
      unfolding u collect_pages.simps f sum.case page_names_all [OF m] l less_irrefl if_False Suc.IH [of "Suc k"] d c t
      by (simp only: append_assoc filter_append less_irrefl if_False)
  qed
qed simp

lemma sort_dedup_list_of_set: "remdups_adj (sort xs) = sorted_list_of_set (set (xs :: 'a::linorder list))"
  using strict_sorted_equal [OF sorted_dedup_strict [of xs] strict_sorted_list_of_set [of "set xs"]] by simp

text \<open>
  C14. The paginated member list ends and is complete: from a host that serves any list of
  fewer than 100000 members in pages of a hundred, the client returns, after at most 1000 requests,
  every member whose name is an identifier, in order and once; from a longer list it returns
  an error, never a part of it.
\<close>

theorem members_complete:
  assumes "\<forall>v\<in>set ms. as_str (json_index v ''login'') = Some (name v)"
    and "\<forall>p. http (github_page repo token (Suc p)) = Inr (page_of ms (Suc p))"
  shows "github_members http repo token =
    (if length ms < 100000 then Inr (sorted_list_of_set {n \<in> name ` set ms. is_valid_identifier n}) else Inl TooManyPages)"
proof -
  let ?ns = "filter is_valid_identifier (map name ms)"
  have "github_members http repo token = (if length ms < 100 * 1000 then Inr (remdups_adj (sort ?ns)) else Inl TooManyPages)"
    unfolding github_members_def
    using collect_all [where ms = ms and key = "''login''" and fetch = "\<lambda>p. http (github_page repo token p)" and name = name
        and k = 0 and n = 1000 and users = "[]"] assms by simp
  moreover have "set ?ns = {n \<in> name ` set ms. is_valid_identifier n}" by auto
  then have "remdups_adj (sort ?ns) = sorted_list_of_set {n \<in> name ` set ms. is_valid_identifier n}"
    by (simp only: sort_dedup_list_of_set)
  ultimately show ?thesis by simp
qed

theorem members_complete_witness:
  "github_members (\<lambda>rq. if hr_url rq = hr_url (github_page ''acme/api'' ''t'' 1)
       then Inr [JObj [(''login'', JStr ''bob'')], JObj [(''login'', JStr ''anna.schmidt'')], JObj [(''login'', JStr ''anna'')]]
       else Inr []) ''acme/api'' ''t'' = Inr [''anna'', ''bob'']"
proof -
  have i: "is_valid_identifier ''anna''" "is_valid_identifier ''bob''" "\<not> is_valid_identifier ''anna.schmidt''" by code_simp+
  let ?ms = "[JObj [(''login'', JStr ''bob'')], JObj [(''login'', JStr ''anna.schmidt'')], JObj [(''login'', JStr ''anna'')]]"
  have e: "{n \<in> (\<lambda>v. the (as_str (json_index v ''login''))) ` set ?ms. is_valid_identifier n} = {''bob'', ''anna''}"
    using i by (auto simp: json_index_def)
  have p: "page_of ?ms (Suc p) = (if p = 0 then ?ms else [])" for p by (cases p) (simp_all add: page_of_def)
  have "hr_url (github_page ''acme/api'' ''t'' (Suc p)) = hr_url (github_page ''acme/api'' ''t'' 1) \<longleftrightarrow> p = 0" for p
    by (simp add: github_page_def dec_str_inject)
  then show ?thesis
    by (subst members_complete [where ms = ?ms and name = "\<lambda>v. the (as_str (json_index v ''login''))"])
      (simp_all only: p e, simp_all add: json_index_def)
qed

subsection \<open>Reconciliation with the hosts' own lists\<close>

text \<open>
  What the hosts document, apart from the program: a source of the mapping is a GitHub repository or a GitLab
  group, and an authorised request for page \<open>p\<close> of its members, in pages of one hundred, is answered with that page of the list. The
  list is given by the names in it.
\<close>

definition github_serves :: "(http_request \<Rightarrow> (remote_error, json list) result) \<Rightarrow> string \<Rightarrow> string \<Rightarrow> string list \<Rightarrow> bool" where
  "github_serves http repo token names \<longleftrightarrow> (\<exists>ms. map (\<lambda>v. json_get ''login'' v) ms = map (\<lambda>n. Some (JStr n)) names \<and>
     (\<forall>rq p. hr_method rq = ''GET'' \<and> hr_body rq = NoBody \<and> (''Authorization'', ''Bearer '' @ token) \<in> set (hr_headers rq) \<and>
        hr_url rq = ''https://api.github.com/repos/'' @ repo @ ''/collaborators?affiliation=direct&per_page=100&page='' @ dec_str (Suc p) \<longrightarrow>
        http rq = Inr (page_of ms (Suc p))))"

definition gitlab_serves :: "(http_request \<Rightarrow> (remote_error, json list) result) \<Rightarrow> string \<Rightarrow> string \<Rightarrow> string list \<Rightarrow> bool" where
  "gitlab_serves http grp token names \<longleftrightarrow> (\<exists>ms. map (\<lambda>v. json_get ''username'' v) ms = map (\<lambda>n. Some (JStr n)) names \<and>
     (\<forall>rq p. hr_method rq = ''GET'' \<and> hr_body rq = NoBody \<and> (''PRIVATE-TOKEN'', token) \<in> set (hr_headers rq) \<and>
        hr_url rq = ''https://gitlab.com/api/v4/groups/'' @ percent_encode grp @ ''/members/all?per_page=100&page='' @ dec_str (Suc p) \<longrightarrow>
        http rq = Inr (page_of ms (Suc p))))"

definition host_lists :: "(http_request \<Rightarrow> (remote_error, json list) result) \<Rightarrow> string option \<Rightarrow> string option \<Rightarrow> string \<Rightarrow> string list \<Rightarrow> bool" where
  "host_lists http github_token gitlab_token source names \<longleftrightarrow>
     (\<exists>repo token. source = ''github:'' @ repo \<and> github_token = Some token \<and> github_serves http repo token names) \<or>
     (\<exists>grp token. source = ''gitlab:'' @ grp \<and> gitlab_token = Some token \<and> gitlab_serves http grp token names)"

lemma named_list:
  assumes "map (\<lambda>v. json_get key v) ms = map (\<lambda>n. Some (JStr n)) names"
  shows "length ms = length names" and "\<exists>name. (\<forall>v\<in>set ms. as_str (json_index v key) = Some (name v)) \<and> map name ms = names"
proof -
  show "length ms = length names" using arg_cong [OF assms, of length] by simp
  have "\<forall>v\<in>set ms. \<exists>n. json_get key v = Some (JStr n)"
  proof
    fix v assume "v \<in> set ms"
    then have "json_get key v \<in> set (map (\<lambda>n. Some (JStr n)) names)" using assms by (metis image_eqI list.set_map)
    then show "\<exists>n. json_get key v = Some (JStr n)" by auto
  qed
  then obtain name where name: "\<forall>v\<in>set ms. json_get key v = Some (JStr (name v))" by metis
  then have "map (\<lambda>v. Some (JStr (name v))) ms = map (\<lambda>n. Some (JStr n)) names" using assms by (metis (no_types, lifting) map_eq_conv)
  then have "map (\<lambda>n. Some (JStr n)) (map name ms) = map (\<lambda>n. Some (JStr n)) names" by (simp add: comp_def)
  then have "map name ms = names" by (rule map_injective) (simp add: inj_def)
  then show "\<exists>name. (\<forall>v\<in>set ms. as_str (json_index v key) = Some (name v)) \<and> map name ms = names"
    using name by (intro exI [of _ name]) (simp add: json_index_def)
qed

lemma collect_listed:
  assumes "map (\<lambda>v. json_get key v) ms = map (\<lambda>n. Some (JStr n)) names" and "\<And>p. fetch (Suc p) = Inr (page_of ms (Suc p))"
  shows "collect_pages fetch key [1..<1001] [] =
    (if length names < 100000 then Inr (remdups_adj (sort (filter is_valid_identifier names))) else Inl TooManyPages)"
proof -
  obtain name where n: "\<forall>v\<in>set ms. as_str (json_index v key) = Some (name v)" "map name ms = names"
    using named_list(2) [OF assms(1)] by blast
  show ?thesis using collect_all [where k = 0 and n = 1000 and users = "[]", OF n(1) assms(2)] n(2) named_list(1) [OF assms(1)]
    by simp
qed

lemma listed_members:
  assumes "host_lists http gh gl source names"
  shows "source_members http gh gl source =
    (if length names < 100000 then Inr (remdups_adj (sort (filter is_valid_identifier names))) else Inl TooManyPages)"
proof -
  from assms consider (hub) repo token where "source = ''github:'' @ repo" "gh = Some token" "github_serves http repo token names"
    | (lab) grp token where "source = ''gitlab:'' @ grp" "gl = Some token" "gitlab_serves http grp token names"
    unfolding host_lists_def by blast
  then show ?thesis
  proof cases
    case hub
    from hub(3) obtain ms where ms: "map (\<lambda>v. json_get ''login'' v) ms = map (\<lambda>n. Some (JStr n)) names"
      "\<And>p. http (github_page repo token (Suc p)) = Inr (page_of ms (Suc p))"
      unfolding github_serves_def by (auto simp: github_page_def)
    have "source_members http gh gl source = github_members http repo token"
      by (simp only: source_members_def hub(1,2) strip_prefix_append option.case)
    then show ?thesis unfolding github_members_def using collect_listed [OF ms] by simp
  next
    case lab
    from lab(3) obtain ms where ms: "map (\<lambda>v. json_get ''username'' v) ms = map (\<lambda>n. Some (JStr n)) names"
      "\<And>p. http (gitlab_page grp token (Suc p)) = Inr (page_of ms (Suc p))"
      unfolding gitlab_serves_def by (auto simp: gitlab_page_def)
    have p: "strip_prefix ''github:'' (''gitlab:'' @ grp) = None"
      by (cases "strip_prefix ''github:'' (''gitlab:'' @ grp)") (simp_all only: strip_prefix_Some, simp_all)
    have "source_members http gh gl source = gitlab_members http grp token"
      by (simp only: source_members_def lab(1,2) p strip_prefix_append option.case)
    then show ?thesis unfolding gitlab_members_def using collect_listed [OF ms] by simp
  qed
qed

lemma desired_ok: "\<forall>(s, t)\<in>set ms. is_ok (members s) \<Longrightarrow> is_ok (desired_members members ms acc)"
proof (induction ms arbitrary: acc)
  case Nil then show ?case by (simp add: is_ok_def)
next
  case (Cons m ms)
  obtain s t where m: "m = (s, t)" by (cases m)
  obtain us where "members s = Inr us" using Cons.prems m by (auto simp: is_ok_def split: sum.splits)
  then show ?case using Cons.IH [of "hm_extend t us acc"] Cons.prems m by simp
qed

lemma reconcile_succeeds:
  assumes "\<forall>(s, t)\<in>set mapping. is_valid_identifier t \<and> (\<exists>us. source_members http gh gl s = Inr us \<and> list_all is_valid_identifier us)"
  shows "is_ok (fst (reconcile_remote http True mapping gh gl f))"
proof -
  have "is_ok (desired_members (source_members http gh gl) mapping [])"
    by (rule desired_ok) (use assms in \<open>auto simp: is_ok_def\<close>)
  then obtain d where d: "desired_members (source_members http gh gl) mapping [] = Inr d" by (auto simp: is_ok_def split: sum.splits)
  have "is_valid_identifier t \<and> list_all is_valid_identifier us" if "(t, us) \<in> set d" for t us
  proof -
    have ok: "hm_ok d" and k: "fst ` set d = snd ` set mapping" using hm_vals_desired [OF d] by auto
    have t: "t \<in> snd ` set mapping" using that k by (metis fst_conv image_eqI)
    have v: "us = hm_vals d t" using that ok by (simp add: hm_ok_def hm_vals_def)
    have "is_valid_identifier u" if "u \<in> set us" for u
      using that hm_vals_desired [OF d, of u t] assms unfolding v by (fastforce simp: list_all_iff)
    then show ?thesis using t assms by (auto simp: list_all_iff)
  qed
  then have "list_all action_valid (map (\<lambda>(t, users). SetTreeGrants t (remdups users)) d)" by (auto simp: list_all_iff)
  then show ?thesis by (simp add: reconcile_remote_def d Let_def apply_sync_cases is_ok_def)
qed

text \<open>
  C13. A reconciliation makes the direct grants of the mapped trees what the code hosts list, and touches nothing
  else. Whatever fails, the file stays as it was. When it succeeds and the hosts serve the lists \<open>listed\<close>
  page by page, a user has a direct grant on a mapped tree exactly when the name is an identifier and
  stands on the list of a source of that tree, every other grant and all roles, groups and tenants are kept, and the number returned is
  that of the mapped trees. And with hosts that serve their lists it does succeed, if the file can be written, the trees have valid names and no list
  has 100000 members. A listed member whose name is no identifier, such as one with a dot, gets no grant, and loses one.
\<close>

theorem reconcile_exact:
  "(case reconcile_remote http io mapping gh gl f of
      (Inl e, f') \<Rightarrow> f' = f
    | (Inr n, f') \<Rightarrow> n = card (snd ` set mapping) \<and> (\<exists>out. f' = Some out \<and>
        same_roles (parse out) (parse (case f of None \<Rightarrow> [] | Some c \<Rightarrow> c)) \<and>
        (\<forall>u t. t \<notin> snd ` set mapping \<longrightarrow>
           hm_has (r_grants (parse out)) u t = hm_has (r_grants (parse (case f of None \<Rightarrow> [] | Some c \<Rightarrow> c))) u t) \<and>
        (\<forall>listed. (\<forall>(s, t)\<in>set mapping. host_lists http gh gl s (listed s)) \<longrightarrow>
           (\<forall>u t. t \<in> snd ` set mapping \<longrightarrow>
              (hm_has (r_grants (parse out)) u t \<longleftrightarrow> is_valid_identifier u \<and> (\<exists>s. (s, t) \<in> set mapping \<and> u \<in> set (listed s))))))) \<and>
    (\<forall>listed. io \<and> (\<forall>(s, t)\<in>set mapping. is_valid_identifier t \<and> host_lists http gh gl s (listed s) \<and> length (listed s) < 100000) \<longrightarrow>
       is_ok (fst (reconcile_remote http io mapping gh gl f)))"
proof (intro conjI allI impI)
  fix listed
  assume "io \<and> (\<forall>(s, t)\<in>set mapping. is_valid_identifier t \<and> host_lists http gh gl s (listed s) \<and> length (listed s) < 100000)"
  then show "is_ok (fst (reconcile_remote http io mapping gh gl f))"
    using reconcile_succeeds [of mapping http gh gl f] listed_members [of http gh gl] by (fastforce simp: list_all_iff)
next
  obtain res f' where r: "reconcile_remote http io mapping gh gl f = (res, f')" by (cases "reconcile_remote http io mapping gh gl f")
  show "case reconcile_remote http io mapping gh gl f of
      (Inl e, f') \<Rightarrow> f' = f
    | (Inr n, f') \<Rightarrow> n = card (snd ` set mapping) \<and> (\<exists>out. f' = Some out \<and>
        same_roles (parse out) (parse (case f of None \<Rightarrow> [] | Some c \<Rightarrow> c)) \<and>
        (\<forall>u t. t \<notin> snd ` set mapping \<longrightarrow>
           hm_has (r_grants (parse out)) u t = hm_has (r_grants (parse (case f of None \<Rightarrow> [] | Some c \<Rightarrow> c))) u t) \<and>
        (\<forall>listed. (\<forall>(s, t)\<in>set mapping. host_lists http gh gl s (listed s)) \<longrightarrow>
           (\<forall>u t. t \<in> snd ` set mapping \<longrightarrow>
              (hm_has (r_grants (parse out)) u t \<longleftrightarrow> is_valid_identifier u \<and> (\<exists>s. (s, t) \<in> set mapping \<and> u \<in> set (listed s))))))"
  proof (cases res)
    case (Inl e)
    then show ?thesis using r by (auto simp: reconcile_remote_def Let_def apply_sync_cases split: sum.splits if_splits)
  next
    case (Inr n)
    from reconcile_grants [OF r [unfolded Inr]] obtain out where o: "n = card (snd ` set mapping)" "f' = Some out"
      "same_roles (parse out) (parse (case f of None \<Rightarrow> [] | Some c \<Rightarrow> c))"
      and g: "\<And>u t. hm_has (r_grants (parse out)) u t \<longleftrightarrow>
           (if t \<in> snd ` set mapping
            then \<exists>s us. (s, t) \<in> set mapping \<and> source_members http gh gl s = Inr us \<and> u \<in> set us
            else hm_has (r_grants (parse (case f of None \<Rightarrow> [] | Some c \<Rightarrow> c))) u t)"
      and ok: "\<forall>s t. (s, t) \<in> set mapping \<longrightarrow> is_ok (source_members http gh gl s)" by metis
    have "(hm_has (r_grants (parse out)) u t \<longleftrightarrow> is_valid_identifier u \<and> (\<exists>s. (s, t) \<in> set mapping \<and> u \<in> set (listed s)))"
      if l: "\<forall>(s, t)\<in>set mapping. host_lists http gh gl s (listed s)" and t: "t \<in> snd ` set mapping" for listed u t
    proof -
      have "source_members http gh gl s = Inr us \<longleftrightarrow> us = remdups_adj (sort (filter is_valid_identifier (listed s)))"
        if m: "(s, t) \<in> set mapping" for s us
      proof -
        have "host_lists http gh gl s (listed s)" using l m by blast
        then show ?thesis using listed_members ok m by (fastforce simp: is_ok_def split: if_splits)
      qed
      then show ?thesis unfolding g using t by (auto; metis)
    qed
    then show ?thesis using r Inr o g by simp
  qed
qed

lemma sample_lists: "host_lists sample_hosts (Some ''t'') None ''github:acme/api'' [''anna'', ''anna.schmidt'']"
proof -
  let ?ms = "[JObj [(''login'', JStr ''anna'')], JObj [(''login'', JStr ''anna.schmidt'')]]"
  have p: "page_of ?ms (Suc p) = (if p = 0 then ?ms else [])" for p by (cases p) (simp_all add: page_of_def)
  have u: "(''https://api.github.com/repos/'' @ ''acme/api'' @ ''/collaborators?affiliation=direct&per_page=100&page='' @ dec_str (Suc p) =
      hr_url (github_page ''acme/api'' ''t'' 1)) = (p = 0)" for p by (simp add: github_page_def dec_str_inject)
  have "github_serves sample_hosts ''acme/api'' ''t'' [''anna'', ''anna.schmidt'']"
    unfolding github_serves_def
  proof (intro exI [of _ ?ms] conjI allI impI)
    fix rq :: http_request and p
    assume "hr_method rq = ''GET'' \<and> hr_body rq = NoBody \<and> (''Authorization'', ''Bearer '' @ ''t'') \<in> set (hr_headers rq) \<and>
        hr_url rq = ''https://api.github.com/repos/'' @ ''acme/api'' @ ''/collaborators?affiliation=direct&per_page=100&page='' @ dec_str (Suc p)"
    then show "sample_hosts rq = Inr (page_of ?ms (Suc p))" unfolding sample_hosts_def p using u [of p] by simp
  qed simp
  then show ?thesis unfolding host_lists_def by (intro disjI1 exI [of _ "''acme/api''"] exI [of _ "''t''"]) simp
qed

theorem reconcile_exact_witness:
  "\<exists>out. reconcile_remote sample_hosts True [(''github:acme/api'', ''alpha'')] (Some ''t'') None (Some sample_policy) = (Inr 1, Some out) \<and>
     hm_has (r_grants (parse out)) ''anna'' ''alpha'' \<and> \<not> hm_has (r_grants (parse out)) ''bob'' ''alpha'' \<and>
     \<not> hm_has (r_grants (parse out)) ''anna.schmidt'' ''alpha''"
proof -
  let ?r = "reconcile_remote sample_hosts True [(''github:acme/api'', ''alpha'')] (Some ''t'') None (Some sample_policy)"
  have i: "is_valid_identifier ''alpha''" "is_valid_identifier ''anna''" "\<not> is_valid_identifier ''anna.schmidt''" by code_simp+
  have l: "\<forall>(s, t)\<in>set [(''github:acme/api'', ''alpha'')]. host_lists sample_hosts (Some ''t'') None s ((\<lambda>_. [''anna'', ''anna.schmidt'']) s)"
    using sample_lists by simp
  note t = reconcile_exact [where http = sample_hosts and io = True and mapping = "[(''github:acme/api'', ''alpha'')]"
      and gh = "Some ''t''" and gl = None and f = "Some sample_policy"]
  have "is_ok (fst ?r)" by (rule conjunct2 [OF t, rule_format, of "\<lambda>_. [''anna'', ''anna.schmidt'']"]) (use l i in simp)
  then obtain n f' where r: "?r = (Inr n, f')" by (cases ?r) (auto simp: is_ok_def split: sum.splits)
  from conjunct1 [OF t, unfolded r prod.case sum.case] obtain out where o: "n = 1" "f' = Some out"
    and g: "\<And>u. hm_has (r_grants (parse out)) u ''alpha'' \<longleftrightarrow> is_valid_identifier u \<and> u \<in> set [''anna'', ''anna.schmidt'']"
    using l by (fastforce)
  show ?thesis using r o g i by simp
qed

subsection \<open>Webhooks and the file they change\<close>

lemma github_webhook_action:
  assumes "handle_github_webhook event payload cfg = Inr (Some a)"
  obtains user repo t where "event = ''member''" and "extract_nested_field payload [''member'', ''login''] = Some user"
    and "extract_nested_field payload [''repository'', ''full_name''] = Some repo"
    and "resolve_tree cfg (''github:'' @ repo) = Some t" and "is_valid_principal user" and "is_valid_identifier t"
    and "a = Grant user t \<and> extract_json_field payload ''action'' = Some ''added'' \<or>
         a = Revoke user t \<and> extract_json_field payload ''action'' \<in> {Some ''removed'', Some ''deleted''}"
  using assms by (auto simp: handle_github_webhook_def split: option.splits if_splits)

lemma gitlab_member_action:
  assumes "gitlab_member payload cfg mk = Inr (Some a)"
  obtains user grp t where "or_else (extract_json_field payload ''user_username'') (extract_json_field payload ''username'') = Some user"
    and "extract_json_field payload ''group_path'' = Some grp" and "resolve_tree cfg (''gitlab:'' @ grp) = Some t"
    and "is_valid_principal user" and "is_valid_identifier t" and "a = mk user t"
  using assms by (auto simp: gitlab_member_def split: option.splits if_splits)

lemma gitlab_webhook_action:
  assumes "handle_gitlab_webhook event payload cfg = Inr (Some a)"
  obtains user grp t where "or_else (extract_json_field payload ''user_username'') (extract_json_field payload ''username'') = Some user"
    and "extract_json_field payload ''group_path'' = Some grp" and "resolve_tree cfg (''gitlab:'' @ grp) = Some t"
    and "is_valid_principal user" and "is_valid_identifier t" and "a \<in> {Grant user t, Revoke user t}"
proof -
  have "gitlab_member payload cfg Grant = Inr (Some a) \<or> gitlab_member payload cfg Revoke = Inr (Some a)"
    using assms by (auto simp: handle_gitlab_webhook_def Let_def split: if_splits)
  then show ?thesis by (auto elim: gitlab_member_action intro: that)
qed

text \<open>
  What a GitHub membership webhook leads to. An action arises only from a member event whose
  repository is mapped to a tree, for the login the payload names; and applying it to
  the rights file succeeds exactly when the login is an identifier. A login with a dot is accepted
  by the webhook and refused when it is written: the removal of such a member never reaches the
  file.
\<close>

theorem webhook_write_back:
  assumes "handle_github_webhook event payload cfg = Inr (Some a)"
  shows "\<exists>user repo t. event = ''member'' \<and> extract_nested_field payload [''member'', ''login''] = Some user \<and>
    extract_nested_field payload [''repository'', ''full_name''] = Some repo \<and>
    resolve_tree cfg (''github:'' @ repo) = Some t \<and> is_valid_principal user \<and> a \<in> {Grant user t, Revoke user t} \<and>
    apply_sync_action True a (Some text) =
      (if is_valid_identifier user then (Inr (), Some (mutate_rights_content text a)) else (Inl InvalidIdentifier, Some text))"
  using assms
proof (rule github_webhook_action)
  fix user repo t
  assume "event = ''member''" "extract_nested_field payload [''member'', ''login''] = Some user"
    "extract_nested_field payload [''repository'', ''full_name''] = Some repo"
    "resolve_tree cfg (''github:'' @ repo) = Some t" "is_valid_principal user" "is_valid_identifier t"
    "a = Grant user t \<and> extract_json_field payload ''action'' = Some ''added'' \<or>
     a = Revoke user t \<and> extract_json_field payload ''action'' \<in> {Some ''removed'', Some ''deleted''}"
  then show ?thesis
    by (intro exI [of _ user] exI [of _ repo] exI [of _ t]) (auto simp: apply_sync_action_def apply_sync_cases)
qed

theorem webhook_write_back_witness:
  "let body = concat [''{'', quoted ''action'', '':'', quoted ''removed'', '','', quoted ''member'', '':{'', quoted ''login'', '':'',
         quoted ''anna.schmidt'', ''},'', quoted ''repository'', '':{'', quoted ''full_name'', '':'', quoted ''acme/api'', ''}}''];
       cfg = \<lparr>c_mapping = [(''github:acme/api'', ''alpha'')], c_github_secret = None, c_gitlab_secret = None,
              c_github_token = None, c_gitlab_token = None\<rparr>
   in handle_github_webhook ''member'' body cfg = Inr (Some (Revoke ''anna.schmidt'' ''alpha'')) \<and>
      apply_sync_action True (Revoke ''anna.schmidt'' ''alpha'') (Some ''x'') = (Inl InvalidIdentifier, Some ''x'')"
proof -
  let ?body = "concat [''{'', quoted ''action'', '':'', quoted ''removed'', '','', quoted ''member'', '':{'', quoted ''login'', '':'',
         quoted ''anna.schmidt'', ''},'', quoted ''repository'', '':{'', quoted ''full_name'', '':'', quoted ''acme/api'', ''}}'']"
  let ?cfg = "\<lparr>c_mapping = [(''github:acme/api'', ''alpha'')], c_github_secret = None, c_gitlab_secret = None,
              c_github_token = None, c_gitlab_token = None\<rparr>"
  have h: "handle_github_webhook ''member'' ?body ?cfg = Inr (Some (Revoke ''anna.schmidt'' ''alpha''))" by code_simp
  have "\<not> is_valid_identifier ''anna.schmidt''" by code_simp
  with webhook_write_back [OF h, of "''x''"] h show ?thesis by (auto simp: Let_def)
qed

subsection \<open>The mapping file\<close>

definition mapping_pair :: "string \<Rightarrow> string \<times> string" where
  "mapping_pair l = (case split_once tab l of None \<Rightarrow> ([], []) | Some (repo, t) \<Rightarrow> (trim repo, trim t))"

definition mapping_ok :: "string \<Rightarrow> bool" where
  "mapping_ok l \<longleftrightarrow> tab \<in> set l \<and> (starts_with ''github:'' l \<or> starts_with ''gitlab:'' l) \<and>
     is_valid_identifier (snd (mapping_pair l))"

lemma starts_with_field:
  "tab \<notin> set p \<Longrightarrow> split_once tab l = Some (a, b) \<Longrightarrow> starts_with p a \<longleftrightarrow> starts_with p l"
proof -
  assume p: "tab \<notin> set p" and "split_once tab l = Some (a, b)"
  then have l: "l = a @ tab # b" using split_once_Some by blast
  show ?thesis
  proof
    assume "starts_with p l"
    then obtain r where r: "a @ tab # b = p @ r" using l by (auto simp: starts_with_iff)
    then show "starts_with p a" using p by (auto simp: starts_with_iff append_eq_append_conv2 Cons_eq_append_conv)
  qed (auto simp: starts_with_iff l)
qed

lemma mapping_line_iff:
  "mapping_line n l out = Inr out' \<longleftrightarrow>
     (if comment_or_blank l then out' = out
      else mapping_ok l \<and> fst (mapping_pair l) \<notin> fst ` set out \<and> out' = out @ [mapping_pair l])"
proof (cases "split_once tab l")
  case None
  then have "tab \<notin> set l" using split_once_None by blast
  then show ?thesis by (auto simp add: mapping_line_def mapping_ok_def None)
next
  case (Some p)
  then obtain a b where ab: "split_once tab l = Some (a, b)" by (cases p) simp
  then have "tab \<in> set l" using split_once_Some [OF ab] by simp
  moreover have "starts_with ''github:'' a \<longleftrightarrow> starts_with ''github:'' l" "starts_with ''gitlab:'' a \<longleftrightarrow> starts_with ''gitlab:'' l"
    using starts_with_field [OF _ ab] by simp_all
  ultimately show ?thesis
    by (auto simp: mapping_line_def mapping_ok_def mapping_pair_def ab map_of_eq_None_iff)
qed

lemma mapping_lines_iff:
  "mapping_lines n ls out = Inr m \<longleftrightarrow>
     (let ds = filter (\<lambda>l. \<not> comment_or_blank l) (map trim ls) in
      (\<forall>l\<in>set ds. mapping_ok l) \<and> distinct (map (fst \<circ> mapping_pair) ds) \<and>
      fst ` mapping_pair ` set ds \<inter> fst ` set out = {} \<and> m = out @ map mapping_pair ds)"
proof (induction ls arbitrary: n out)
  case (Cons l ls)
  show ?case
  proof (cases "\<exists>out'. mapping_line (n + 1) (trim l) out = Inr out'")
    case True
    then obtain out' where o: "mapping_line (n + 1) (trim l) out = Inr out'" by blast
    then show ?thesis using Cons.IH [of "n + 1" out'] mapping_line_iff [of "n + 1" "trim l" out out']
      by (auto simp: Let_def split: if_splits)
  next
    case False
    then obtain e where "mapping_line (n + 1) (trim l) out = Inl e" by (metis sum.exhaust)
    moreover have "\<not> comment_or_blank (trim l)" "\<not> (mapping_ok (trim l) \<and> fst (mapping_pair (trim l)) \<notin> fst ` set out)"
      using False unfolding mapping_line_iff by metis+
    ultimately show ?thesis by (auto simp: Let_def)
  qed
qed (auto simp: Let_def)

text \<open>
  The mapping is exactly its file: loading succeeds if and only if every line that counts
  has a tab, a known provider and a valid tree, and no repository appears twice; the map then
  holds one entry for each line and nothing else.
\<close>

theorem mapping_exact:
  "load_repo_mapping (Some s) = Inr m \<longleftrightarrow>
     (let ds = filter (\<lambda>l. \<not> comment_or_blank l) (map trim (lines s)) in
      (\<forall>l\<in>set ds. mapping_ok l) \<and> hm_ok (map mapping_pair ds) \<and> m = map mapping_pair ds)"
  by (simp add: load_repo_mapping_def mapping_lines_iff Let_def hm_ok_def)

theorem mapping_exact_witness:
  "load_repo_mapping (Some (''# hosts'' @ nl # ''github:a/b'' @ tab # ''alpha'')) = Inr [(''github:a/b'', ''alpha'')]"
  unfolding mapping_exact by code_simp

end
