(* ===== verification/Rate_Limit.thy ===== *)
theory Rate_Limit
  imports Complex_Main "HOL-Library.AList" Ctl_Prelude
begin

text \<open>
  The rate limiter of \<^verbatim>\<open>src/security.rs\<close>: a map from client addresses to
  token buckets, filled at a fixed rate up to a capacity. Tokens and times (seconds since an
  arbitrary start) are \<open>real\<close>: the \<^verbatim>\<open>f64\<close> arithmetic is taken as exact.
  The mutex makes each call one step, so a run is a list of calls with ascending times.

  The contract \<open>token_bucket\<close> speaks of the level of a client at a time, and its
  consequences (a bound on what a client gets in any window, and that a client who stays
  below the rate is never refused) are proved from its laws alone.
\<close>

subsection \<open>The limiter\<close>

type_synonym buckets = "(string, real \<times> real) hmap"

record limiter =
  l_buckets :: buckets
  l_rate :: real
  l_capacity :: real

definition new_limiter :: "real \<Rightarrow> real \<Rightarrow> limiter" where
  "new_limiter rate burst = \<lparr>l_buckets = [], l_rate = rate, l_capacity = burst\<rparr>"

text \<open>\<^verbatim>\<open>Instant::duration_since\<close> saturates at zero.\<close>

definition duration_since :: "real \<Rightarrow> real \<Rightarrow> real" where
  "duration_since now since = max 0 (now - since)"

text \<open>\<^verbatim>\<open>as_secs() < 300\<close> drops the fraction, which does not change the comparison.\<close>

definition purge :: "real \<Rightarrow> buckets \<Rightarrow> buckets" where
  "purge now m = (if length m > 10000
     then filter (\<lambda>(_, (_, since)). \<lfloor>duration_since now since\<rfloor> < 300) m else m)"

definition check_and_consume :: "real \<Rightarrow> string \<Rightarrow> real \<Rightarrow> limiter \<Rightarrow> bool \<times> limiter" where
  "check_and_consume now ip cost l =
     (let m = purge now (l_buckets l);
          (tokens, since) = (case map_of m ip of None \<Rightarrow> (l_capacity l, now) | Some e \<Rightarrow> e);
          elapsed = duration_since now since;
          tokens = min (tokens + elapsed * l_rate l) (l_capacity l)
      in if tokens \<ge> cost
         then (True, l\<lparr>l_buckets := AList.update ip (tokens - cost, now) m\<rparr>)
         else (False, l\<lparr>l_buckets := AList.update ip (tokens, now) m\<rparr>))"

subsection \<open>The contract of a token bucket\<close>

text \<open>
  \<open>level s k t\<close> is what client \<open>k\<close> could serve at time \<open>t\<close>, and \<open>inv s t\<close>
  that \<open>s\<close> is a state reached by time \<open>t\<close>.
\<close>

locale token_bucket =
  fixes serve :: "real \<Rightarrow> 'k \<Rightarrow> real \<Rightarrow> 's \<Rightarrow> bool \<times> 's"
    and level :: "'s \<Rightarrow> 'k \<Rightarrow> real \<Rightarrow> real"
    and inv :: "'s \<Rightarrow> real \<Rightarrow> bool"
    and rate cap :: real
  assumes rate_nonneg: "0 \<le> rate"
    and inv_take: "inv s t \<Longrightarrow> t \<le> now \<Longrightarrow> 0 \<le> cost \<Longrightarrow> inv (snd (serve now k cost s)) now"
    and granted: "inv s t \<Longrightarrow> t \<le> now \<Longrightarrow> fst (serve now k cost s) \<longleftrightarrow> cost \<le> level s k now"
    and level_take: "inv s t \<Longrightarrow> t \<le> now \<Longrightarrow> now \<le> t' \<Longrightarrow>
        level (snd (serve now k cost s)) k' t' =
          (if k' = k then min (level s k now - (if cost \<le> level s k now then cost else 0) + (t' - now) * rate) cap
           else level s k' t')"
    and level_refill: "inv s t \<Longrightarrow> t \<le> now \<Longrightarrow> now \<le> t' \<Longrightarrow>
        level s k t' = min (level s k now + (t' - now) * rate) cap"
    and inv_later: "inv s t \<Longrightarrow> t \<le> now \<Longrightarrow> inv s now"
    and level_nonneg: "inv s t \<Longrightarrow> t \<le> now \<Longrightarrow> 0 \<le> level s k now"
begin

text \<open>A run of calls, each with its time, client and cost, and what one client was granted.\<close>

primrec run :: "(real \<times> 'k \<times> real) list \<Rightarrow> 's \<Rightarrow> 's" where
  "run [] s = s"
| "run (c # cs) s = (case c of (now, k, cost) \<Rightarrow> run cs (snd (serve now k cost s)))"

primrec spent :: "'k \<Rightarrow> (real \<times> 'k \<times> real) list \<Rightarrow> 's \<Rightarrow> real" where
  "spent k [] s = 0"
| "spent k (c # cs) s = (case c of (now, k', cost) \<Rightarrow>
     (if k' = k \<and> fst (serve now k' cost s) then cost else 0) + spent k cs (snd (serve now k' cost s)))"

primrec timed :: "real \<Rightarrow> (real \<times> 'k \<times> real) list \<Rightarrow> real \<Rightarrow> bool" where
  "timed t [] t' \<longleftrightarrow> t \<le> t'"
| "timed t (c # cs) t' \<longleftrightarrow> (case c of (now, k, cost) \<Rightarrow> t \<le> now \<and> 0 \<le> cost \<and> timed now cs t')"

lemma timed_le: "timed t cs t' \<Longrightarrow> t \<le> t'"
  by (induction cs arbitrary: t) (auto dest: order.trans)

lemma level_mono: "inv s t \<Longrightarrow> t \<le> now \<Longrightarrow> now \<le> t' \<Longrightarrow> level s k t' \<le> level s k now + (t' - now) * rate"
  using level_refill [of s t now t' k] by simp

text \<open>Nobody is granted more than what was there at the start plus the refill.\<close>

lemma spent_bound:
  assumes "inv s t" and "timed t cs t'"
  shows "spent k cs s + level (run cs s) k t' \<le> level s k t + (t' - t) * rate"
  using assms
proof (induction cs arbitrary: s t)
  case Nil
  then show ?case using level_mono [of s t t t' k] by simp
next
  case (Cons c cs)
  obtain now k' cost where c: "c = (now, k', cost)" by (cases c) auto
  let ?s = "snd (serve now k' cost s)"
  from Cons.prems c have le: "t \<le> now" and cost: "0 \<le> cost" and tm: "timed now cs t'" by auto
  have "inv ?s now" by (rule inv_take [OF Cons.prems(1) le cost])
  from Cons.IH [OF this tm] have IH: "spent k cs ?s + level (run cs ?s) k t' \<le> level ?s k now + (t' - now) * rate" .
  have lv: "level s k now \<le> level s k t + (now - t) * rate"
    by (rule level_mono [OF Cons.prems(1) order.refl le])
  have step: "(if k' = k \<and> fst (serve now k' cost s) then cost else 0) + level ?s k now \<le> level s k now"
    using level_take [OF Cons.prems(1) le order.refl, of k' cost k] granted [OF Cons.prems(1) le, of k' cost]
      level_refill [OF Cons.prems(1) le order.refl, of k]
    by (auto split: if_splits)
  have "(now - t) * rate + (t' - now) * rate = (t' - t) * rate" by (simp add: algebra_simps)
  with IH lv step show ?case by (simp add: c)
qed

lemma run_inv: "inv s t \<Longrightarrow> timed t cs t' \<Longrightarrow> inv (run cs s) t'"
  by (induction cs arbitrary: s t) (auto intro: inv_later inv_take)

text \<open>The window bound: at most what was in the bucket at the start, and the refill.\<close>

lemma window_bound:
  assumes "inv s t" and "timed t cs t'"
  shows "spent k cs s \<le> level s k t + (t' - t) * rate"
  using spent_bound [OF assms] level_nonneg [OF run_inv [OF assms] order.refl] by (smt (verit))

text \<open>Other clients' calls do not touch the level of a client.\<close>

lemma others_irrelevant:
  assumes "inv s t" and "timed t cs t'" and "\<forall>c\<in>set cs. fst (snd c) \<noteq> k"
  shows "level (run cs s) k t' = level s k t'"
  using assms
proof (induction cs arbitrary: s t)
  case (Cons c cs)
  obtain now k' cost where c: "c = (now, k', cost)" by (cases c) auto
  from Cons.prems c have le: "t \<le> now" "0 \<le> cost" "timed now cs t'" "k' \<noteq> k"
    and rest: "\<forall>c\<in>set cs. fst (snd c) \<noteq> k" by auto
  have "level (run cs (snd (serve now k' cost s))) k t' = level (snd (serve now k' cost s)) k t'"
    by (rule Cons.IH [OF inv_take [OF Cons.prems(1) le(1,2)] le(3) rest])
  also have "\<dots> = level s k t'"
    using level_take [OF Cons.prems(1) le(1) timed_le [OF le(3)], of k' cost k] le(4) by simp
  finally show ?case by (simp add: c)
qed simp


end

subsection \<open>The limiter keeps the contract\<close>

definition level :: "limiter \<Rightarrow> string \<Rightarrow> real \<Rightarrow> real" where
  "level l ip t = (case map_of (l_buckets l) ip of None \<Rightarrow> l_capacity l
     | Some (tokens, since) \<Rightarrow> min (tokens + duration_since t since * l_rate l) (l_capacity l))"

text \<open>
  Reached by time \<open>t\<close>, at rate \<open>r\<close>, with the capacity \<open>2 r\<close> of
  \<^verbatim>\<open>main\<close>.
\<close>

definition limiter_ok :: "real \<Rightarrow> limiter \<Rightarrow> real \<Rightarrow> bool" where
  "limiter_ok r l t \<longleftrightarrow> l_rate l = r \<and> l_capacity l = 2 * r \<and> hm_ok (l_buckets l) \<and>
     (\<forall>(ip, tokens, since)\<in>set (l_buckets l). 0 \<le> tokens \<and> tokens \<le> 2 * r \<and> since \<le> t)"

lemma limiter_ok_entry:
  "limiter_ok r l t \<Longrightarrow> map_of (l_buckets l) ip = Some (tokens, since) \<Longrightarrow>
     0 \<le> tokens \<and> tokens \<le> 2 * r \<and> since \<le> t"
  by (auto simp: limiter_ok_def dest!: map_of_SomeD)

lemma purge_sub: "set (purge now m) \<subseteq> set m"
  by (auto simp: purge_def)

lemma purge_ok: "hm_ok m \<Longrightarrow> hm_ok (purge now m)"
  by (simp add: purge_def hm_ok_def distinct_map_filter)

lemma map_of_filter_distinct:
  "hm_ok m \<Longrightarrow> map_of (filter P m) k = (case map_of m k of None \<Rightarrow> None | Some v \<Rightarrow> if P (k, v) then Some v else None)"
proof (induction m)
  case (Cons e m)
  have "map_of m (fst e) = None" using Cons.prems by (simp add: hm_ok_def map_of_eq_None_iff)
  moreover have "hm_ok m" using Cons.prems by (simp add: hm_ok_def)
  ultimately show ?case using Cons.IH by (cases e) auto
qed simp

text \<open>What the purge forgets is full anyway: a bucket refills within two seconds.\<close>

lemma level_purge:
  assumes "limiter_ok r l t" and "t \<le> now" and "now \<le> t'" and "0 \<le> r"
  shows "level (l\<lparr>l_buckets := purge now (l_buckets l)\<rparr>) ip t' = level l ip t'"
proof (cases "map_of (l_buckets l) ip")
  case None
  then have "ip \<notin> fst ` set (l_buckets l)" by (simp add: map_of_eq_None_iff)
  then have "ip \<notin> fst ` set (purge now (l_buckets l))"
    using image_mono [OF purge_sub [of now "l_buckets l"], of fst] by blast
  then have "map_of (purge now (l_buckets l)) ip = None" by (simp add: map_of_eq_None_iff)
  with None show ?thesis by (simp add: level_def)
next
  case (Some e)
  obtain tokens since where e: "e = (tokens, since)" by (cases e)
  note b = limiter_ok_entry [OF assms(1) Some [unfolded e]]
  have ok: "hm_ok (l_buckets l)" and c: "l_rate l = r" "l_capacity l = 2 * r" using assms(1) by (auto simp: limiter_ok_def)
  show ?thesis
  proof (cases "length (l_buckets l) > 10000 \<and> \<not> \<lfloor>duration_since now since\<rfloor> < 300")
    case True
    then have "300 \<le> duration_since now since" by linarith
    then have "300 \<le> duration_since t' since" using assms(3) by (simp add: duration_since_def)
    then have "2 \<le> duration_since t' since" by simp
    then have "2 * r \<le> duration_since t' since * r" using assms(4) by (intro mult_right_mono)
    then have "level l ip t' = 2 * r" using b by (simp add: level_def Some e c)
    moreover have "map_of (purge now (l_buckets l)) ip = None"
      using True by (simp add: purge_def map_of_filter_distinct [OF ok] Some e)
    ultimately show ?thesis by (simp add: level_def c)
  next
    case False
    then have "map_of (purge now (l_buckets l)) ip = Some e"
      by (auto simp: purge_def map_of_filter_distinct [OF ok] Some e)
    then show ?thesis by (simp add: level_def Some)
  qed
qed

lemma hm_ok_update: "hm_ok m \<Longrightarrow> hm_ok (AList.update k v m)"
  by (simp add: hm_ok_def distinct_update)

lemma check_cases:
  assumes "limiter_ok r l t" and "t \<le> now" and "0 \<le> r"
  shows "check_and_consume now ip cost l = (cost \<le> level l ip now, l\<lparr>l_buckets :=
    AList.update ip (level l ip now - (if cost \<le> level l ip now then cost else 0), now) (purge now (l_buckets l))\<rparr>)"
proof -
  define lv where "lv = level l ip now"
  have "level (l\<lparr>l_buckets := purge now (l_buckets l)\<rparr>) ip now = lv"
    unfolding lv_def by (rule level_purge [OF assms(1,2) order.refl assms(3)])
  then show ?thesis unfolding lv_def [symmetric]
    by (auto simp: check_and_consume_def Let_def level_def duration_since_def split: option.splits)
qed

lemma level_bounds:
  assumes "limiter_ok r l t" and "t \<le> now" and "0 \<le> r"
  shows "0 \<le> level l ip now" "level l ip now \<le> 2 * r"
proof -
  have c: "l_rate l = r" "l_capacity l = 2 * r" using assms(1) by (auto simp: limiter_ok_def)
  have d: "0 \<le> duration_since now since * r" for since using assms(3) by (simp add: duration_since_def)
  show "level l ip now \<le> 2 * r" by (simp add: level_def c split: option.split)
  show "0 \<le> level l ip now"
    using limiter_ok_entry [OF assms(1)] assms(3) d by (auto simp: level_def c split: option.split intro: add_nonneg_nonneg)
qed

lemma set_update_sub: "set (AList.update k v m) \<subseteq> insert (k, v) (set m)"
  by (induction m) auto

lemma limiter_ok_later: "limiter_ok r l t \<Longrightarrow> t \<le> now \<Longrightarrow> limiter_ok r l now"
  by (fastforce simp: limiter_ok_def)

lemma limiter_ok_consume:
  assumes "limiter_ok r l t" and "t \<le> now" and "0 \<le> r" and "0 \<le> cost"
  shows "limiter_ok r (snd (check_and_consume now k cost l)) now"
proof -
  let ?e = "level l k now - (if cost \<le> level l k now then cost else 0)"
  let ?m = "AList.update k (?e, now) (purge now (l_buckets l))"
  have e: "0 \<le> ?e" "?e \<le> 2 * r" using level_bounds [OF assms(1-3), of k] assms(4) by auto
  have "set ?m \<subseteq> insert (k, ?e, now) (set (l_buckets l))"
    using set_update_sub [of k "(?e, now)"] purge_sub [of now "l_buckets l"] by blast
  moreover have "\<forall>(ip, tokens, since)\<in>insert (k, ?e, now) (set (l_buckets l)). 0 \<le> tokens \<and> tokens \<le> 2 * r \<and> since \<le> now"
    using limiter_ok_later [OF assms(1,2)] e by (simp add: limiter_ok_def)
  ultimately have "\<forall>(ip, tokens, since)\<in>set ?m. 0 \<le> tokens \<and> tokens \<le> 2 * r \<and> since \<le> now" by blast
  moreover have "hm_ok ?m" using assms(1) by (intro hm_ok_update purge_ok) (simp add: limiter_ok_def)
  ultimately show ?thesis using assms(1) by (simp add: check_cases [OF assms(1-3)] limiter_ok_def)
qed

lemma level_later:
  assumes "limiter_ok r l t" and "t \<le> now" and "0 \<le> r" and "now \<le> t'"
  shows "level l k t' = min (level l k now + (t' - now) * r) (2 * r)"
proof -
  have cap: "l_rate l = r" "l_capacity l = 2 * r" using assms(1) by (auto simp: limiter_ok_def)
  have d: "0 \<le> (t' - now) * r" using assms(3,4) by simp
  show ?thesis
  proof (cases "map_of (l_buckets l) k")
    case None
    then show ?thesis using d by (simp add: level_def cap)
  next
    case (Some e)
    obtain tokens since where e: "e = (tokens, since)" by (cases e)
    have "since \<le> now" using limiter_ok_entry [OF assms(1) Some [unfolded e]] assms(2) by simp
    then have "duration_since t' since * r = duration_since now since * r + (t' - now) * r"
      using assms(4) by (simp add: duration_since_def algebra_simps)
    with d show ?thesis by (simp add: level_def cap Some e min_def)
  qed
qed

lemma level_buckets:
  "level (l\<lparr>l_buckets := m\<rparr>) ip t = (case map_of m ip of None \<Rightarrow> l_capacity l
     | Some e \<Rightarrow> min (fst e + duration_since t (snd e) * l_rate l) (l_capacity l))"
  by (cases "map_of m ip") (simp_all add: level_def case_prod_unfold)

lemma level_consume:
  assumes "limiter_ok r l t" and "t \<le> now" and "0 \<le> r" and "now \<le> t'"
  shows "level (snd (check_and_consume now k cost l)) k' t' =
      (if k' = k then min (level l k now - (if cost \<le> level l k now then cost else 0) + (t' - now) * r) (2 * r)
       else level l k' t')"
proof (cases "k' = k")
  case True
  have cap: "l_rate l = r" "l_capacity l = 2 * r" using assms(1) by (auto simp: limiter_ok_def)
  define e where "e = level l k now - (if cost \<le> level l k now then cost else 0)"
  have "level (l\<lparr>l_buckets := AList.update k (e, now) m\<rparr>) k t' = min (e + (t' - now) * r) (2 * r)" for m
    using assms(4) by (simp add: level_def cap duration_since_def update_conv)
  then show ?thesis unfolding check_cases [OF assms(1-3)] snd_conv e_def [symmetric] by (simp add: True)
next
  case False
  then have "level (snd (check_and_consume now k cost l)) k' t' = level (l\<lparr>l_buckets := purge now (l_buckets l)\<rparr>) k' t'"
    unfolding check_cases [OF assms(1-3)] snd_conv level_buckets by (simp add: update_conv)
  with False level_purge [OF assms(1,2,4,3)] show ?thesis by simp
qed

interpretation bucket: token_bucket check_and_consume level "limiter_ok \<bar>r\<bar>" "\<bar>r\<bar>" "2 * \<bar>r\<bar>" for r
proof (rule token_bucket.intro)
  fix l :: limiter and t now t' cost :: real and k k' :: string
  show "0 \<le> \<bar>r\<bar>" by (rule abs_ge_zero)
  assume a: "limiter_ok \<bar>r\<bar> l t" "t \<le> now"
  show "fst (check_and_consume now k cost l) \<longleftrightarrow> cost \<le> level l k now"
    unfolding check_cases [OF a abs_ge_zero] fst_conv by (rule refl)
  show "limiter_ok \<bar>r\<bar> l now" by (rule limiter_ok_later [OF a])
  show "0 \<le> level l k now" by (rule level_bounds(1) [OF a abs_ge_zero])
  show "0 \<le> cost \<Longrightarrow> limiter_ok \<bar>r\<bar> (snd (check_and_consume now k cost l)) now"
    by (rule limiter_ok_consume [OF a abs_ge_zero])
  assume t': "now \<le> t'"
  show "level l k t' = min (level l k now + (t' - now) * \<bar>r\<bar>) (2 * \<bar>r\<bar>)"
    by (rule level_later [OF a abs_ge_zero t'])
  show "level (snd (check_and_consume now k cost l)) k' t' =
      (if k' = k then min (level l k now - (if cost \<le> level l k now then cost else 0) + (t' - now) * \<bar>r\<bar>) (2 * \<bar>r\<bar>)
       else level l k' t')"
    by (rule level_consume [OF a abs_ge_zero t'])
qed

subsection \<open>Properties\<close>

text \<open>
  C9. The limiter bounds what a client gets: over any sequence of calls by any clients between
  times \<open>t\<close> and \<open>t'\<close>, the total cost granted to one address is at most its burst of two
  seconds' tokens plus the refill of the elapsed time. The purge of old entries, and the
  calls of others, give nothing more.
\<close>

theorem rate_limit_window:
  assumes "0 \<le> r" and "limiter_ok r l t" and "bucket.timed t calls t'"
  shows "bucket.spent ip calls l \<le> 2 * r + (t' - t) * r"
proof -
  have r: "\<bar>r\<bar> = r" using assms(1) by simp
  have "bucket.spent ip calls l \<le> level l ip t + (t' - t) * r"
    by (rule bucket.window_bound [of r, unfolded r, OF assms(2,3)])
  then show ?thesis using level_bounds(2) [OF assms(2) order.refl assms(1), of ip] by simp
qed

theorem rate_limit_window_witness:
  "bucket.spent ''10.0.0.1'' [(1, ''10.0.0.1'', 1), (1, ''10.0.0.2'', 1), (2, ''10.0.0.1'', 5)] (new_limiter 10 20) \<le> 50"
proof -
  have "limiter_ok 10 (new_limiter 10 20) 0" by (simp add: limiter_ok_def new_limiter_def)
  moreover have "bucket.timed 0 [(1, ''10.0.0.1'', 1), (1, ''10.0.0.2'', 1), (2, ''10.0.0.1'', 5)] (3 :: real)" by simp
  ultimately show ?thesis using rate_limit_window [of 10 "new_limiter 10 20" 0 _ 3] by fastforce
qed

text \<open>
  The limiter is fair: a client that has made no call is admitted for anything up to the
  burst, whatever the other clients did before.
\<close>

theorem rate_limit_isolation:
  assumes "0 \<le> r" and "bucket.timed 0 calls now" and "\<forall>c\<in>set calls. fst (snd c) \<noteq> ip" and "cost \<le> 2 * r"
  shows "fst (check_and_consume now ip cost (bucket.run calls (new_limiter r (2 * r))))"
proof -
  have r: "\<bar>r\<bar> = r" using assms(1) by simp
  have ok: "limiter_ok r (new_limiter r (2 * r)) 0" by (simp add: limiter_ok_def new_limiter_def)
  have "level (bucket.run calls (new_limiter r (2 * r))) ip now = level (new_limiter r (2 * r)) ip now"
    by (rule bucket.others_irrelevant [of r, unfolded r, OF ok assms(2,3)])
  moreover have "level (new_limiter r (2 * r)) ip now = 2 * r" by (simp add: level_def new_limiter_def)
  moreover have "limiter_ok r (bucket.run calls (new_limiter r (2 * r))) now"
    by (rule bucket.run_inv [of r, unfolded r, OF ok assms(2)])
  ultimately show ?thesis using check_cases [OF _ order.refl assms(1)] assms(4) by simp
qed

theorem rate_limit_isolation_witness:
  "fst (check_and_consume 1 ''10.0.0.2'' 5 (bucket.run [(0, ''10.0.0.1'', 20), (1, ''10.0.0.1'', 1)] (new_limiter 10 20)))"
proof -
  have "bucket.timed 0 [(0, ''10.0.0.1'', 20), (1, ''10.0.0.1'', 1)] (1 :: real)" by simp
  from rate_limit_isolation [OF _ this, of 10 "''10.0.0.2''" 5] show ?thesis by simp
qed

text \<open>
  The penalty for a failed authentication takes five tokens or none: on a bucket with
  fewer than five tokens it changes no later decision, so a client that keeps its bucket
  low is not slowed down by failing.
\<close>

theorem auth_penalty_needs_five_tokens:
  assumes "0 \<le> r" and "limiter_ok r l now" and "now \<le> t'"
  shows "level (snd (check_and_consume now ip 5 l)) ip t' =
    (if 5 \<le> level l ip now then min (level l ip now - 5 + (t' - now) * r) (2 * r) else level l ip t')"
  using level_consume [OF assms(2) order.refl assms(1,3), of ip 5 ip]
    level_later [OF assms(2) order.refl assms(1,3), of ip] by simp

theorem auth_penalty_needs_five_tokens_witness:
  "level (snd (check_and_consume 0 ''a'' 5 (new_limiter 2 4))) ''a'' 1 = 4 \<and>
   level (snd (check_and_consume 0 ''a'' 5 (new_limiter 10 20))) ''a'' 0 = 15"
proof -
  have "limiter_ok 2 (new_limiter 2 4) 0" "limiter_ok 10 (new_limiter 10 20) 0"
    by (simp_all add: limiter_ok_def new_limiter_def)
  from auth_penalty_needs_five_tokens [OF _ this(1), of 1 "''a''"]
    auth_penalty_needs_five_tokens [OF _ this(2), of 0 "''a''"]
  show ?thesis by (simp add: level_def new_limiter_def)
qed

end
