(* ===== verification/Hot_Reload.thy ===== *)
theory Hot_Reload
  imports Rights
begin

text \<open>
  The files the server re-reads when their modification time moves: the rights file
  (\<^verbatim>\<open>rights::Watched\<close>), the token file (\<^verbatim>\<open>auth::Tokens\<close>)
  and the key set (\<^verbatim>\<open>auth::Oidc::keys\<close>). All three use one scheme, the
  contract \<open>hot_reload\<close>: the time is read first, then, under the lock, the file if the
  time differs from the cached one. Requests run concurrently and the file changes under them;
  the time read and the locked part are therefore two moments of a history of the file, and
  the results are about all interleavings.
\<close>

subsection \<open>Files and their history\<close>

text \<open>A file that is there has a modification time and a content.\<close>

type_synonym fs_file = "(nat \<times> string) option"

definition mtime_of :: "fs_file \<Rightarrow> nat option" where
  "mtime_of f = map_option fst f"

text \<open>\<^verbatim>\<open>std::fs::read_to_string(path)\<close>, \<open>None\<close> for an error.\<close>

definition read_to_string :: "fs_file \<Rightarrow> string option" where
  "read_to_string f = (case f of None \<Rightarrow> None | Some (_, text) \<Rightarrow> if utf8_valid text then Some text else None)"

subsection \<open>The scheme\<close>

type_synonym 'v cache = "nat option \<times> 'v"

text \<open>\<open>mtime\<close> was read before the lock was taken, \<open>f\<close> is the file under the lock.\<close>

definition reload :: "(fs_file \<Rightarrow> 'v) \<Rightarrow> nat option \<Rightarrow> fs_file \<Rightarrow> 'v cache \<Rightarrow> 'v \<times> 'v cache" where
  "reload load mtime f c = (let c' = (if fst c \<noteq> mtime then (mtime, load f) else c) in (snd c', c'))"

text \<open>
  A run: the requests in the order in which they get the lock, each with the moment it read
  the time and the moment it held the lock.
\<close>

primrec reload_run :: "(fs_file \<Rightarrow> 'v) \<Rightarrow> (nat \<Rightarrow> fs_file) \<Rightarrow> (nat \<times> nat) list \<Rightarrow> 'v cache \<Rightarrow> 'v list" where
  "reload_run load h [] c = []"
| "reload_run load h (r # rs) c =
     (case reload load (mtime_of (h (fst r))) (h (snd r)) c of (v, c') \<Rightarrow> v # reload_run load h rs c')"

primrec lock_order :: "nat \<Rightarrow> (nat \<times> nat) list \<Rightarrow> bool" where
  "lock_order t [] \<longleftrightarrow> True"
| "lock_order t (r # rs) \<longleftrightarrow> fst r \<le> snd r \<and> t \<le> snd r \<and> lock_order (snd r) rs"

locale hot_reload =
  fixes load :: "fs_file \<Rightarrow> 'v" and initial :: 'v
  assumes load_absent: "load None = initial"
begin

text \<open>Some request put the cached value there: its time at one moment, its content at a later one.\<close>

definition cache_ok :: "(nat \<Rightarrow> fs_file) \<Rightarrow> nat \<Rightarrow> 'v cache \<Rightarrow> bool" where
  "cache_ok h t c \<longleftrightarrow> c = (None, initial) \<or>
     (\<exists>i j. i \<le> j \<and> j \<le> t \<and> fst c = mtime_of (h i) \<and> snd c = load (h j))"

lemma cache_ok_later: "cache_ok h t c \<Longrightarrow> t \<le> t' \<Longrightarrow> cache_ok h t' c"
  unfolding cache_ok_def by (meson le_trans)

text \<open>
  What the cache gives back is the file at a moment \<open>k\<close>, and \<open>k\<close> is not before a moment \<open>a\<close> up to
  which the file never had the time that is read now. Nothing is asked of the file system.
\<close>

lemma reload_since:
  assumes "cache_ok h t c" and "t \<le> j" and "i \<le> j" and "a \<le> i" and "\<forall>b<a. mtime_of (h b) \<noteq> mtime_of (h i)"
  shows "\<exists>k. a \<le> k \<and> k \<le> j \<and> fst (reload load (mtime_of (h i)) (h j) c) = load (h k)"
proof (cases "fst c = mtime_of (h i)")
  case False
  then have "fst (reload load (mtime_of (h i)) (h j) c) = load (h j)" by (simp add: reload_def Let_def)
  then show ?thesis using assms(3,4) by (intro exI [of _ j]) simp
next
  case hit: True
  then have r: "fst (reload load (mtime_of (h i)) (h j) c) = snd c" by (simp add: reload_def Let_def)
  from assms(1) consider (init) "c = (None, initial)"
    | (filled) i' j' where "i' \<le> j'" "j' \<le> t" "fst c = mtime_of (h i')" "snd c = load (h j')"
    unfolding cache_ok_def by blast
  then show ?thesis
  proof cases
    case init
    then have "h i = None" using hit by (simp add: mtime_of_def)
    then show ?thesis using init r load_absent assms(3,4) by (intro exI [of _ i]) simp
  next
    case filled
    then have "mtime_of (h i') = mtime_of (h i)" using hit by simp
    then have "\<not> i' < a" using assms(5) by blast
    then show ?thesis using filled r assms(2) by (intro exI [of _ j']) simp
  qed
qed

lemma reload_ok:
  assumes "cache_ok h t c" and "t \<le> j" and "i \<le> j"
  shows "cache_ok h j (snd (reload load (mtime_of (h i)) (h j) c))"
proof (cases "fst c = mtime_of (h i)")
  case True
  then show ?thesis using cache_ok_later [OF assms(1,2)] by (simp add: reload_def Let_def)
next
  case False
  then show ?thesis using assms(3) by (auto simp: reload_def Let_def cache_ok_def)
qed

lemma run_since:
  assumes "cache_ok h t c" and "lock_order t rs"
  shows "list_all2 (\<lambda>(i, j) v. \<forall>a\<le>i. (\<forall>b<a. mtime_of (h b) \<noteq> mtime_of (h i)) \<longrightarrow> (\<exists>k. a \<le> k \<and> k \<le> j \<and> v = load (h k)))
    rs (reload_run load h rs c)"
  using assms
proof (induction rs arbitrary: t c)
  case (Cons r rs)
  obtain i j where r: "r = (i, j)" by (cases r)
  from Cons.prems r have le: "t \<le> j" "i \<le> j" "lock_order j rs" by auto
  obtain v c' where rl: "reload load (mtime_of (h i)) (h j) c = (v, c')" by (cases "reload load (mtime_of (h i)) (h j) c")
  have "\<forall>a\<le>i. (\<forall>b<a. mtime_of (h b) \<noteq> mtime_of (h i)) \<longrightarrow> (\<exists>k. a \<le> k \<and> k \<le> j \<and> v = load (h k))"
    using reload_since [OF Cons.prems(1) le(1,2)] rl by (metis fst_conv)
  moreover have "cache_ok h j c'" using reload_ok [OF Cons.prems(1) le(1,2)] rl by simp
  ultimately show ?case using Cons.IH [of j c'] le(3) by (simp add: r rl)
qed simp

text \<open>The other side: of two requests in a row that read the same time, the second gets what the first got.\<close>

lemma run_same_time:
  "\<lbrakk>Suc n < length rs; mtime_of (h (fst (rs ! n))) = mtime_of (h (fst (rs ! Suc n)))\<rbrakk> \<Longrightarrow>
     reload_run load h rs c ! Suc n = reload_run load h rs c ! n"
proof (induction rs arbitrary: n c)
  case (Cons r rs)
  obtain v c' where rl: "reload load (mtime_of (h (fst r))) (h (snd r)) c = (v, c')"
    by (cases "reload load (mtime_of (h (fst r))) (h (snd r)) c")
  show ?case
  proof (cases n)
    case 0
    then obtain r' rs' where rs: "rs = r' # rs'" using Cons.prems(1) by (cases rs) auto
    have "fst c' = mtime_of (h (fst r))" "snd c' = v" using rl by (auto simp: reload_def Let_def split: if_splits)
    then have "reload load (mtime_of (h (fst r'))) (h (snd r')) c' = (v, c')"
      using Cons.prems(2) by (simp add: 0 rs reload_def Let_def)
    then show ?thesis by (simp add: 0 rs rl)
  next
    case (Suc m)
    then show ?thesis using Cons.IH [of m c'] Cons.prems by (simp add: rl)
  qed
qed simp

lemma initial_ok: "cache_ok h t (None, initial)"
  by (simp add: cache_ok_def)

end

subsection \<open>The rights file\<close>

text \<open>\<^verbatim>\<open>parse(&read_to_string(..).unwrap_or_default())\<close>\<close>

definition load_rights :: "fs_file \<Rightarrow> rights" where
  "load_rights f = (case read_to_string f of None \<Rightarrow> parse [] | Some text \<Rightarrow> parse text)"

definition watched_new :: "rights cache" where
  "watched_new = (None, rights_default)"

definition watched_current :: "nat option \<Rightarrow> fs_file \<Rightarrow> rights cache \<Rightarrow> rights \<times> rights cache" where
  "watched_current = reload load_rights"

text \<open>The freshness lease: a modification time in the future is not fresh.\<close>

definition is_fresh :: "nat \<Rightarrow> nat \<Rightarrow> fs_file \<Rightarrow> bool" where
  "is_fresh now max_age f = (case mtime_of f of None \<Rightarrow> False | Some m \<Rightarrow> m \<le> now \<and> now - m \<le> max_age)"

lemma parse_Nil: "parse [] = rights_default"
  by (simp add: parse_def lines_def)

interpretation watched: hot_reload load_rights rights_default
  by unfold_locales (simp add: load_rights_def read_to_string_def parse_Nil)

subsection \<open>Properties\<close>


text \<open>A grant, its revocation at moment 5 in a later tick, and at moment 8 a second change in the same tick.\<close>

definition sample_history :: "nat \<Rightarrow> fs_file" where
  "sample_history t = (if t < 5 then Some (1, join [tab] [''grant'', ''anna'', ''alpha''])
     else if t < 8 then Some (2, []) else Some (2, join [tab] [''grant'', ''bob'', ''alpha'']))"


text \<open>
  A missing or unreadable rights file denies everything: it grants no user any tree and
  makes nobody an administrator.
\<close>

theorem unreadable_file_denies:
  assumes "read_to_string f = None"
  shows "\<not> may_with_groups (load_rights f) u gs t \<and> admin_scope_of (load_rights f) u gs = None \<and>
    visible_workspaces (load_rights f) u gs = []"
proof -
  have l: "load_rights f = rights_default" by (simp add: load_rights_def assms parse_Nil)
  have "roles_for rights_default u gs = []"
    by (induction gs) (simp_all add: roles_for_def)
  then show ?thesis
    by (simp add: l may_iff admin_scope_of_def is_admin_with_groups_def visible_workspaces_def)
qed

theorem unreadable_file_denies_witness:
  "\<not> may_with_groups (load_rights None) ''anna'' [''staff''] ''alpha''"
  using unreadable_file_denies [of None] by (simp add: read_to_string_def)

end
