(* ===== verification/Auth_Tokens.thy ===== *)
theory Auth_Tokens
  imports Sha256 Hot_Reload Json
begin

text \<open>
  \<^verbatim>\<open>src/auth.rs\<close>: the token file (\<open>entry_parse\<close>, \<open>read_entries\<close>,
  \<open>identify\<close>, its hot reload and its validator), the OpenID Connect validator
  (\<open>identify_with_groups\<close>, with the signature library as a parameter) and the
  single-sign-on configuration (\<open>origin_of\<close>, \<open>sso_new\<close>).
\<close>

subsection \<open>The token file\<close>

record entry =
  e_hash :: string
  e_name :: string
  e_expires :: nat

definition hash_ok :: "string \<Rightarrow> bool" where
  "hash_ok h \<longleftrightarrow> length h = 64 \<and> list_all is_ascii_hexdigit h"

definition entry_parse :: "string \<Rightarrow> entry option" where
  "entry_parse line =
     (case split_on tab line of
        h # n # rest \<Rightarrow>
          (let hash = trim h; name = trim n;
               expires = (case parse_u64 (trim (case rest of [] \<Rightarrow> ''0'' | x # _ \<Rightarrow> x)) of None \<Rightarrow> 0 | Some v \<Rightarrow> v)
           in if \<not> hash_ok hash \<or> name = [] then None
              else Some \<lparr>e_hash = to_ascii_lowercase hash, e_name = name, e_expires = expires\<rparr>)
      | _ \<Rightarrow> None)"

definition content_lines :: "string \<Rightarrow> string list" where
  "content_lines s = filter (\<lambda>l. \<not> comment_or_blank l) (map trim (lines s))"

definition read_text :: "string \<Rightarrow> entry list" where
  "read_text s = List.map_filter entry_parse (content_lines s)"

definition read_entries :: "fs_file \<Rightarrow> entry list" where
  "read_entries f = (case read_to_string f of None \<Rightarrow> [] | Some s \<Rightarrow> read_text s)"

definition identify :: "entry list \<Rightarrow> string \<Rightarrow> nat \<Rightarrow> string option" where
  "identify entries token now =
     (if token = [] \<or> length token > 1024 then None
      else let hash = sha256_hex token in
        map_option e_name (find (\<lambda>e. constant_time_eq_str (e_hash e) hash \<and>
          (e_expires e = 0 \<or> e_expires e > now)) entries))"

definition tokens_new :: "entry list cache" where
  "tokens_new = (None, [])"

definition tokens_current :: "nat option \<Rightarrow> fs_file \<Rightarrow> entry list cache \<Rightarrow> entry list \<times> entry list cache" where
  "tokens_current = reload read_entries"

definition tokens_identify :: "nat option \<Rightarrow> fs_file \<Rightarrow> string option \<Rightarrow> nat \<Rightarrow> entry list cache \<Rightarrow> string option \<times> entry list cache" where
  "tokens_identify mtime f token now c =
     (case tokens_current mtime f c of (es, c') \<Rightarrow>
        ((case token of None \<Rightarrow> None | Some t \<Rightarrow> identify es t now), c'))"

interpretation tokens: hot_reload read_entries "[]"
  by unfold_locales (simp add: read_entries_def read_to_string_def)

text \<open>The line the writer of the format puts for an entry.\<close>

definition entry_line :: "entry \<Rightarrow> string" where
  "entry_line e = join [tab] [e_hash e, e_name e, dec_str (e_expires e)]"

subsection \<open>The validator of the token file\<close>

datatype token_issue =
  InvalidHash nat string
| MissingName nat
| InvalidExpiry nat string
| DuplicateHash nat string
| TokenExpired nat string nat

record tokens_report =
  tr_valid :: nat
  tr_expired :: nat
  tr_errors :: "token_issue list"
  tr_warnings :: "token_issue list"
  tr_seen :: "string list"

definition tokens_report_default :: tokens_report where
  "tokens_report_default = \<lparr>tr_valid = 0, tr_expired = 0, tr_errors = [], tr_warnings = [], tr_seen = []\<rparr>"

definition nth_trim :: "string list \<Rightarrow> nat \<Rightarrow> string \<Rightarrow> string" where
  "nth_trim ps n d = (if n < length ps then trim (ps ! n) else d)"

definition validate_token_line :: "nat \<Rightarrow> nat \<times> string \<Rightarrow> tokens_report \<Rightarrow> tokens_report" where
  "validate_token_line now numbered rep = (case numbered of (idx, raw) \<Rightarrow>
     let n = idx + 1; line = trim raw in
     if comment_or_blank line then rep
     else let ps = split_on tab line;
              hash = nth_trim ps 0 []; name = nth_trim ps 1 []; exp = nth_trim ps 2 ''0'' in
       if \<not> hash_ok hash then rep\<lparr>tr_errors := tr_errors rep @ [InvalidHash n hash]\<rparr>
       else if name = [] then rep\<lparr>tr_errors := tr_errors rep @ [MissingName n]\<rparr>
       else case parse_u64 exp of
         None \<Rightarrow> rep\<lparr>tr_errors := tr_errors rep @ [InvalidExpiry n exp]\<rparr>
       | Some e \<Rightarrow>
           let rep = (if to_ascii_lowercase hash \<in> set (tr_seen rep)
                      then rep\<lparr>tr_warnings := tr_warnings rep @ [DuplicateHash n name]\<rparr>
                      else rep\<lparr>tr_seen := tr_seen rep @ [to_ascii_lowercase hash]\<rparr>)
           in if e > 0 \<and> e \<le> now
              then rep\<lparr>tr_expired := tr_expired rep + 1, tr_warnings := tr_warnings rep @ [TokenExpired n name e]\<rparr>
              else rep\<lparr>tr_valid := tr_valid rep + 1\<rparr>)"

definition validate_tokens :: "string \<Rightarrow> nat \<Rightarrow> tokens_report" where
  "validate_tokens s now = fold (validate_token_line now) (enumerate 0 (lines s)) tokens_report_default"

definition live :: "nat \<Rightarrow> entry \<Rightarrow> bool" where
  "live now e \<longleftrightarrow> e_expires e = 0 \<or> e_expires e > now"

subsection \<open>Facts on the token file\<close>

lemma identify_iff:
  "identify es token now = Some u \<longleftrightarrow> token \<noteq> [] \<and> length token \<le> 1024 \<and>
     (\<exists>i < length es. e_hash (es ! i) = sha256_hex token \<and> live now (es ! i) \<and> e_name (es ! i) = u \<and>
        (\<forall>j < i. \<not> (e_hash (es ! j) = sha256_hex token \<and> live now (es ! j))))"
  by (auto simp: identify_def Let_def find_Some_iff live_def)

lemma identify_None:
  "identify es token now = None \<longleftrightarrow> token = [] \<or> length token > 1024 \<or>
     (\<forall>e\<in>set es. \<not> (e_hash e = sha256_hex token \<and> live now e))"
  by (auto simp: identify_def Let_def find_None_iff live_def)

lemma hash_ok_ascii: "hash_ok h \<Longrightarrow> ascii h \<and> (\<forall>c\<in>set h. \<not> ws_byte c \<and> c \<notin> {tab, nl, cr, CHR ''#''})"
  by (auto simp: hash_ok_def ascii_def list_all_iff ascii_class_defs ws_byte_iff byte_def)

lemma entry_parse_shape: "entry_parse l = Some e \<Longrightarrow> hash_ok (e_hash e) \<and> to_ascii_lowercase (e_hash e) = e_hash e \<and>
    e_name e \<noteq> [] \<and> e_expires e < 2 ^ 64"
proof -
  have hex: "is_ascii_hexdigit (lower_char c)" if "is_ascii_hexdigit c" for c
    using that by (auto simp: lower_char_def ascii_class_defs byte_def)
  have low: "hash_ok h \<Longrightarrow> hash_ok (to_ascii_lowercase h)" for h
    by (auto simp: hash_ok_def to_ascii_lowercase_def list_all_iff hex)
  have e: "(case parse_u64 x of None \<Rightarrow> 0 | Some v \<Rightarrow> v) < 2 ^ 64" for x
    using parse_uint_bound by (auto split: option.split)
  assume "entry_parse l = Some e"
  then show ?thesis using low e by (auto simp: entry_parse_def Let_def split: list.splits if_splits)
qed

subsection \<open>Writing and reading back\<close>

definition entry_ok :: "entry \<Rightarrow> bool" where
  "entry_ok e \<longleftrightarrow> hash_ok (e_hash e) \<and> to_ascii_lowercase (e_hash e) = e_hash e \<and>
     plain_name (e_name e) \<and> e_expires e < 2 ^ 64"

lemma hash_ok_trim [simp]: "hash_ok h \<Longrightarrow> trim h = h"
proof -
  assume h: "hash_ok h"
  then have c: "ascii h" "\<forall>c\<in>set h. \<not> ws_byte c" using hash_ok_ascii by blast+
  show "trim h = h" by (rule trim_plain [OF c(1)]) (use c(2) in auto)
qed

lemma digits_plain: "list_all is_ascii_digit s \<Longrightarrow> ascii s \<and> (\<forall>c\<in>set s. \<not> ws_byte c \<and> c \<notin> {tab, nl, cr, CHR '',''})"
  by (auto simp: ascii_def list_all_iff ascii_class_defs ws_byte_iff byte_def)

lemma trim_dec_str [simp]: "trim (dec_str n) = dec_str n"
proof -
  have c: "ascii (dec_str n)" "\<forall>c\<in>set (dec_str n). \<not> ws_byte c" using digits_plain [OF dec_str_digits] by blast+
  show ?thesis by (rule trim_plain [OF c(1)]) (use c(2) in auto)
qed

lemma entry_parse_join:
  assumes "hash_ok h" and "plain_name n" and "tab \<notin> set x"
  shows "entry_parse (join [tab] [h, n, x]) = Some \<lparr>e_hash = to_ascii_lowercase h, e_name = n,
      e_expires = (case parse_u64 (trim x) of None \<Rightarrow> 0 | Some v \<Rightarrow> v)\<rparr>"
proof -
  have "tab \<notin> set h" "tab \<notin> set n" using hash_ok_ascii [OF assms(1)] plain_name_notin [OF assms(2)] by auto
  then have "split_on tab (join [tab] [h, n, x]) = [h, n, x]"
    using assms(3) by (intro split_on_join_sep) auto
  moreover have "n \<noteq> []" using assms(2) by (simp add: plain_name_def)
  ultimately show ?thesis using assms(1,2) by (simp add: entry_parse_def)
qed

definition entry_char :: "char \<Rightarrow> bool" where
  "entry_char c \<longleftrightarrow> byte c < 128 \<and> \<not> ws_byte c \<and> c \<notin> {tab, nl, cr, CHR ''#''}"

lemma entry_char_hash: "hash_ok h \<Longrightarrow> list_all entry_char h"
  using hash_ok_ascii [of h] unfolding entry_char_def list_all_iff ascii_def by blast

lemma entry_char_name:
  assumes "plain_name n"
  shows "list_all entry_char n"
  unfolding list_all_iff
proof
  fix c assume "c \<in> set n"
  then have "principal_char c" using assms by (simp add: plain_name_def list_all_iff)
  from principal_char_plain [OF this] show "entry_char c" unfolding entry_char_def by blast
qed

lemma entry_char_dec: "list_all entry_char (dec_str k)"
proof -
  have "is_ascii_digit c \<Longrightarrow> entry_char c" for c
    by (auto simp: entry_char_def ascii_class_defs ws_byte_iff byte_def)
  then show ?thesis using dec_str_digits [of k] unfolding list_all_iff by blast
qed

lemma entry_line_parse:
  assumes "entry_ok e"
  shows "entry_parse (entry_line e) = Some e"
proof -
  have w: "hash_ok (e_hash e)" "plain_name (e_name e)" "e_expires e < 2 ^ 64"
    and l: "to_ascii_lowercase (e_hash e) = e_hash e" using assms by (simp_all add: entry_ok_def)
  have "\<not> entry_char tab" by (simp add: entry_char_def)
  then have "tab \<notin> set (dec_str (e_expires e))" using entry_char_dec [of "e_expires e"] by (auto simp: list_all_iff)
  from entry_parse_join [OF w(1,2) this] show ?thesis
    unfolding trim_dec_str parse_uint_dec_str [OF w(3)] entry_line_def l by simp
qed

lemma entry_line_content:
  assumes ok: "entry_ok e"
  shows "strip_cr (entry_line e) = entry_line e" "trim (entry_line e) = entry_line e"
    "\<not> comment_or_blank (entry_line e)" "nl \<notin> set (entry_line e)"
proof -
  have w: "hash_ok (e_hash e)" "plain_name (e_name e)" using ok by (simp_all add: entry_ok_def)
  obtain h hs where h: "e_hash e = h # hs" using w(1) by (cases "e_hash e") (simp_all add: hash_ok_def)
  obtain ds d where d: "dec_str (e_expires e) = ds @ [d]" using rev_exhaust [of "dec_str (e_expires e)"] dec_str_nonempty by blast
  have c: "list_all entry_char (h # hs)" "list_all entry_char (e_name e)" "list_all entry_char (ds @ [d])"
    using entry_char_hash [OF w(1)] entry_char_name [OF w(2)] entry_char_dec [of "e_expires e"] unfolding h d by blast+
  have line: "entry_line e = h # (hs @ tab # e_name e @ tab # ds) @ [d]" by (simp add: entry_line_def h d)
  have "set (entry_line e) = set (h # hs) \<union> set (e_name e) \<union> set (ds @ [d]) \<union> {tab}" unfolding line by auto
  then have chars: "\<forall>c\<in>set (entry_line e). c = tab \<or> entry_char c" using c unfolding list_all_iff by blast
  have hd: "entry_char h" "entry_char d" using c by simp_all
  have "byte tab < 128" by (simp add: byte_def)
  moreover have "entry_char c \<Longrightarrow> byte c < 128" for c by (simp add: entry_char_def)
  ultimately have "byte c < 128" if "c \<in> set (entry_line e)" for c
    using bspec [OF chars that] by (elim disjE) simp_all
  then have "ascii (entry_line e)" by (simp add: ascii_def list_all_iff)
  then show "trim (entry_line e) = entry_line e"
    by (rule trim_plain) (use hd in \<open>simp_all add: line entry_char_def del: append.simps\<close>)
  have "d \<noteq> cr" using hd(2) by (simp add: entry_char_def)
  then show "strip_cr (entry_line e) = entry_line e" by (simp add: strip_cr_def line)
  have "h \<noteq> CHR ''#''" using hd(1) by (simp add: entry_char_def)
  then show "\<not> comment_or_blank (entry_line e)" by (simp add: comment_or_blank_def starts_with_def line)
  have "\<not> entry_char nl" by (simp add: entry_char_def)
  then show "nl \<notin> set (entry_line e)" using chars by auto
qed

lemma read_written:
  assumes ok: "\<forall>e\<in>set es. entry_ok e"
  shows "read_text (unlines (map entry_line es)) = es"
proof -
  have nl: "\<forall>l\<in>set (map entry_line es). nl \<notin> set l" using ok entry_line_content(4) by simp
  have "lines (unlines (map entry_line es)) = map entry_line es"
    unfolding lines_unlines [OF nl] using ok by (simp add: entry_line_content(1))
  moreover have "map trim (map entry_line es) = map entry_line es"
    using ok by (simp add: entry_line_content(2))
  moreover have "filter (\<lambda>l. \<not> comment_or_blank l) (map entry_line es) = map entry_line es"
    using ok by (simp add: filter_id_conv entry_line_content(3))
  ultimately have c: "content_lines (unlines (map entry_line es)) = map entry_line es"
    by (simp only: content_lines_def)
  show ?thesis unfolding read_text_def c using ok
    by (induction es) (simp_all add: List.map_filter_simps entry_line_parse)
qed

subsection \<open>Facts on the validator\<close>

text \<open>The line passes the validator: a credential, with an expiry that is a number.\<close>

definition token_line_ok :: "string \<Rightarrow> bool" where
  "token_line_ok l \<longleftrightarrow> entry_parse l \<noteq> None \<and> parse_u64 (nth_trim (split_on tab l) 2 ''0'') \<noteq> None"

text \<open>What one line adds to the counts of a report.\<close>

definition count_live :: "nat \<Rightarrow> string list \<Rightarrow> nat" where
  "count_live now ls = length (filter (live now) (List.map_filter entry_parse ls))"

lemma nth_trim_simps:
  "nth_trim (h # n # rest) 0 d = trim h" "nth_trim (h # n # rest) 1 d = trim n"
  "nth_trim (h # n # rest) 2 d = (case rest of [] \<Rightarrow> d | x # _ \<Rightarrow> trim x)"
  "nth_trim [h] 0 d = trim h" "nth_trim [h] 1 d = d"
  by (simp_all add: nth_trim_def split: list.split)

lemma trim_zero: "trim ''0'' = ''0''"
  by code_simp

lemma validate_token_line_shape:
  "validate_token_line now (n, l) rep =
     (if comment_or_blank (trim l) then rep
      else if token_line_ok (trim l) then
        (case entry_parse (trim l) of None \<Rightarrow> rep | Some e \<Rightarrow>
           rep\<lparr>tr_valid := tr_valid rep + (if live now e then 1 else 0),
               tr_expired := tr_expired rep + (if live now e then 0 else 1),
               tr_warnings := tr_warnings (validate_token_line now (n, l) rep),
               tr_seen := tr_seen (validate_token_line now (n, l) rep)\<rparr>)
      else rep\<lparr>tr_errors := tr_errors (validate_token_line now (n, l) rep)\<rparr>) \<and>
   (\<not> comment_or_blank (trim l) \<longrightarrow> \<not> token_line_ok (trim l) \<longrightarrow> tr_errors (validate_token_line now (n, l) rep) \<noteq> [])"
proof (cases "comment_or_blank (trim l)")
  case True
  then show ?thesis by (simp add: validate_token_line_def Let_def)
next
  case nb: False
  show ?thesis
  proof (cases "split_on tab (trim l)")
    case Nil
    then show ?thesis by simp
  next
    case (Cons h ps)
    show ?thesis
    proof (cases ps)
      case Nil
      then show ?thesis using Cons nb
        by (simp add: validate_token_line_def Let_def token_line_ok_def entry_parse_def nth_trim_def)
    next
      case (Cons n' rest)
      note sp = \<open>split_on tab (trim l) = h # ps\<close> [unfolded Cons]
      define ex where "ex = (case rest of [] \<Rightarrow> ''0'' | x # _ \<Rightarrow> trim x)"
      have ex: "trim (case rest of [] \<Rightarrow> ''0'' | x # _ \<Rightarrow> x) = ex"
        by (simp add: ex_def trim_zero split: list.split)
      have tk: "token_line_ok (trim l) \<longleftrightarrow> hash_ok (trim h) \<and> trim n' \<noteq> [] \<and> parse_u64 ex \<noteq> None"
        by (auto simp: token_line_ok_def sp nth_trim_simps ex ex_def [symmetric] entry_parse_def Let_def)
      have ep: "entry_parse (trim l) = (if \<not> hash_ok (trim h) \<or> trim n' = [] then None else
         Some \<lparr>e_hash = to_ascii_lowercase (trim h), e_name = trim n', e_expires = (case parse_u64 ex of None \<Rightarrow> 0 | Some v \<Rightarrow> v)\<rparr>)"
        by (simp add: entry_parse_def sp ex Let_def)
      have vt: "validate_token_line now (n, l) rep = (
       if \<not> hash_ok (trim h) then rep\<lparr>tr_errors := tr_errors rep @ [InvalidHash (n + 1) (trim h)]\<rparr>
       else if trim n' = [] then rep\<lparr>tr_errors := tr_errors rep @ [MissingName (n + 1)]\<rparr>
       else case parse_u64 ex of
         None \<Rightarrow> rep\<lparr>tr_errors := tr_errors rep @ [InvalidExpiry (n + 1) ex]\<rparr>
       | Some e \<Rightarrow>
           let rep = (if to_ascii_lowercase (trim h) \<in> set (tr_seen rep)
                      then rep\<lparr>tr_warnings := tr_warnings rep @ [DuplicateHash (n + 1) (trim n')]\<rparr>
                      else rep\<lparr>tr_seen := tr_seen rep @ [to_ascii_lowercase (trim h)]\<rparr>)
           in if e > 0 \<and> e \<le> now
              then rep\<lparr>tr_expired := tr_expired rep + 1, tr_warnings := tr_warnings rep @ [TokenExpired (n + 1) (trim n') e]\<rparr>
              else rep\<lparr>tr_valid := tr_valid rep + 1\<rparr>)"
        unfolding validate_token_line_def prod.case Let_def sp nth_trim_simps ex_def [symmetric]
        by (simp only: nb if_False)
      show ?thesis
      proof (cases "hash_ok (trim h) \<and> trim n' \<noteq> []")
        case False
        then show ?thesis using nb by (auto simp: vt tk)
      next
        case True
        show ?thesis
        proof (cases "parse_u64 ex")
          case None
          then show ?thesis using True nb by (simp add: vt tk)
        next
          case (Some e)
          then have t: "token_line_ok (trim l)" using True by (simp add: tk)
          show ?thesis using nb t True Some by (simp add: vt ep live_def Let_def)
        qed
      qed
    qed
  qed
qed

definition content_of :: "string list \<Rightarrow> string list" where
  "content_of ls = filter (\<lambda>l. \<not> comment_or_blank l) (map trim ls)"

lemma content_of_simps [simp]:
  "content_of [] = []"
  "content_of (l # ls) = (if comment_or_blank (trim l) then content_of ls else trim l # content_of ls)"
  by (simp_all add: content_of_def)

lemma validate_step:
  "tr_errors (validate_token_line now (n, l) rep) = [] \<longleftrightarrow>
     tr_errors rep = [] \<and> (\<forall>x\<in>set (content_of [l]). token_line_ok x)"
  "(\<forall>x\<in>set (content_of [l]). token_line_ok x) \<Longrightarrow>
     tr_valid (validate_token_line now (n, l) rep) =
       tr_valid rep + length (filter (live now) (List.map_filter entry_parse (content_of [l]))) \<and>
     tr_expired (validate_token_line now (n, l) rep) =
       tr_expired rep + length (filter (\<lambda>e. \<not> live now e) (List.map_filter entry_parse (content_of [l])))"
proof -
  note sh = validate_token_line_shape [of now n l rep]
  consider (blank) "comment_or_blank (trim l)"
    | (bad) "\<not> comment_or_blank (trim l)" "\<not> token_line_ok (trim l)"
    | (ok) e where "\<not> comment_or_blank (trim l)" "token_line_ok (trim l)" "entry_parse (trim l) = Some e"
    unfolding token_line_ok_def by blast
  note cases = this
  have err: "tr_errors (rep\<lparr>tr_valid := a, tr_expired := b, tr_warnings := c, tr_seen := d\<rparr>) = tr_errors rep" for a b c d
    by simp
  show "tr_errors (validate_token_line now (n, l) rep) = [] \<longleftrightarrow>
     tr_errors rep = [] \<and> (\<forall>x\<in>set (content_of [l]). token_line_ok x)"
  proof (cases rule: cases)
    case blank
    with sh show ?thesis by simp
  next
    case bad
    with sh show ?thesis by simp
  next
    case ok
    with sh have "validate_token_line now (n, l) rep = rep\<lparr>tr_valid := tr_valid rep + (if live now e then 1 else 0),
               tr_expired := tr_expired rep + (if live now e then 0 else 1),
               tr_warnings := tr_warnings (validate_token_line now (n, l) rep),
               tr_seen := tr_seen (validate_token_line now (n, l) rep)\<rparr>" by simp
    then have "tr_errors (validate_token_line now (n, l) rep) = tr_errors rep" using err by metis
    with ok show ?thesis by simp
  qed
  assume all: "\<forall>x\<in>set (content_of [l]). token_line_ok x"
  show "tr_valid (validate_token_line now (n, l) rep) =
       tr_valid rep + length (filter (live now) (List.map_filter entry_parse (content_of [l]))) \<and>
     tr_expired (validate_token_line now (n, l) rep) =
       tr_expired rep + length (filter (\<lambda>e. \<not> live now e) (List.map_filter entry_parse (content_of [l])))"
  proof (cases rule: cases)
    case blank
    with sh show ?thesis by (simp add: List.map_filter_simps)
  next
    case bad
    with all show ?thesis by simp
  next
    case ok
    with sh have "validate_token_line now (n, l) rep = rep\<lparr>tr_valid := tr_valid rep + (if live now e then 1 else 0),
               tr_expired := tr_expired rep + (if live now e then 0 else 1),
               tr_warnings := tr_warnings (validate_token_line now (n, l) rep),
               tr_seen := tr_seen (validate_token_line now (n, l) rep)\<rparr>" by simp
    then have "tr_valid (validate_token_line now (n, l) rep) = tr_valid rep + (if live now e then 1 else 0)"
      "tr_expired (validate_token_line now (n, l) rep) = tr_expired rep + (if live now e then 0 else 1)"
      by (metis (no_types, lifting) tokens_report.select_convs tokens_report.surjective tokens_report.update_convs)+
    with ok show ?thesis by (simp add: List.map_filter_simps)
  qed
qed

lemma content_of_Cons: "content_of (l # ls) = content_of [l] @ content_of ls"
  by simp

lemma validate_fold:
  "tr_errors (fold (validate_token_line now) (enumerate k ls) rep) = [] \<longleftrightarrow>
     tr_errors rep = [] \<and> (\<forall>x\<in>set (content_of ls). token_line_ok x)"
  "(\<forall>x\<in>set (content_of ls). token_line_ok x) \<Longrightarrow>
     tr_valid (fold (validate_token_line now) (enumerate k ls) rep) =
       tr_valid rep + length (filter (live now) (List.map_filter entry_parse (content_of ls))) \<and>
     tr_expired (fold (validate_token_line now) (enumerate k ls) rep) =
       tr_expired rep + length (filter (\<lambda>e. \<not> live now e) (List.map_filter entry_parse (content_of ls)))"
proof (induction ls arbitrary: k rep)
  case (Cons l ls)
  { case (1 k rep)
    let ?rep = "validate_token_line now (k, l) rep"
    have "tr_errors (fold (validate_token_line now) (enumerate k (l # ls)) rep) =
        tr_errors (fold (validate_token_line now) (enumerate (Suc k) ls) ?rep)" by simp
    then have "tr_errors (fold (validate_token_line now) (enumerate k (l # ls)) rep) = [] \<longleftrightarrow>
        (tr_errors rep = [] \<and> (\<forall>x\<in>set (content_of [l]). token_line_ok x)) \<and> (\<forall>x\<in>set (content_of ls). token_line_ok x)"
      by (simp only: Cons.IH(1) validate_step(1))
    then show ?case unfolding content_of_Cons [of l ls] set_append by blast }
  { case (2 k rep)
    let ?rep = "validate_token_line now (k, l) rep"
    from 2 have a: "\<forall>x\<in>set (content_of [l]). token_line_ok x" "\<forall>x\<in>set (content_of ls). token_line_ok x"
      unfolding content_of_Cons [of l ls] by auto
    show ?case unfolding content_of_Cons [of l ls] enumerate_simps fold_simps map_filter_append filter_append length_append
      using Cons.IH(2) [OF a(2), where k = "Suc k" and rep = ?rep] validate_step(2) [OF a(1), where now = now and n = k and rep = rep] by simp }
qed (simp_all add: List.map_filter_simps)

subsection \<open>Properties of the token file\<close>

text \<open>
  C10. A credential is accepted exactly when its hash is in the file and has not expired: the
  presented token is known if and only if some line of the file that is not a comment holds
  its SHA-256 and an expiry of zero or in the future; empty and oversized tokens never are.
  Removing the lines with that hash therefore revokes the credential.
\<close>

theorem identify_exact:
  "identify (read_text s) token now \<noteq> None \<longleftrightarrow>
     token \<noteq> [] \<and> length token \<le> 1024 \<and>
     (\<exists>l e. l \<in> set (content_lines s) \<and> entry_parse l = Some e \<and> e_hash e = sha256_hex token \<and> live now e)"
proof -
  have "set (read_text s) = {e. \<exists>l\<in>set (content_lines s). entry_parse l = Some e}"
    by (force simp: read_text_def List.map_filter_def)
  then show ?thesis unfolding identify_None by auto
qed

text \<open>
  What an issuer writes is what the server reads: for any list of well-formed entries, the
  file with one line per entry is read back as exactly that list.
\<close>

theorem token_file_roundtrip:
  assumes "\<forall>e\<in>set es. entry_ok e"
  shows "read_entries (Some (m, unlines (map entry_line es))) = es"
proof -
  have u: "utf8_valid (unlines (map entry_line es))"
  proof (rule ascii_utf8_valid)
    have b: "entry_char c \<Longrightarrow> byte c < 128" for c by (simp add: entry_char_def)
    have "list_all (\<lambda>c. byte c < 128) (entry_line e)" if "entry_ok e" for e
    proof -
      have w: "hash_ok (e_hash e)" "plain_name (e_name e)" using that by (simp_all add: entry_ok_def)
      have "list_all (\<lambda>c. byte c < 128) xs" if "list_all entry_char xs" for xs using that b by (auto simp: list_all_iff)
      from this [OF entry_char_hash [OF w(1)]] this [OF entry_char_name [OF w(2)]] this [OF entry_char_dec]
      show ?thesis by (simp add: entry_line_def byte_def)
    qed
    moreover have "unlines ls = concat (map (\<lambda>l. l @ [nl]) ls)" for ls by (induction ls) simp_all
    ultimately show "ascii (unlines (map entry_line es))"
      using assms by (simp add: ascii_def list_all_iff byte_def) blast
  qed
  then show ?thesis by (simp add: read_entries_def read_to_string_def read_written [OF assms])
qed

definition sample_entry :: entry where
  "sample_entry = \<lparr>e_hash = replicate 64 (CHR ''a''), e_name = ''anna.schmidt'', e_expires = 1900000000\<rparr>"

theorem token_file_roundtrip_witness:
  "read_entries (Some (7, unlines (map entry_line [sample_entry, sample_entry]))) = [sample_entry, sample_entry]"
proof (rule token_file_roundtrip)
  have "plain_name ''anna.schmidt''" by code_simp
  moreover have "hash_ok (e_hash sample_entry)" "to_ascii_lowercase (e_hash sample_entry) = e_hash sample_entry" by code_simp+
  ultimately show "\<forall>e\<in>set [sample_entry, sample_entry]. entry_ok e"
    by (simp add: entry_ok_def) (simp add: sample_entry_def)
qed

text \<open>
  A credential whose expiry cannot be read never expires. The reader takes it as zero and
  accepts the credential at every time, while the validator reports the same line as an error.
\<close>

theorem unreadable_expiry_never_expires:
  assumes "hash_ok h" and "plain_name n" and "tab \<notin> set x" and "parse_u64 (trim x) = None"
  shows "\<exists>e. entry_parse (join [tab] [h, n, x]) = Some e \<and> e_name e = n \<and> (\<forall>now. live now e) \<and>
    \<not> token_line_ok (join [tab] [h, n, x])"
proof -
  have "tab \<notin> set h" "tab \<notin> set n" using hash_ok_ascii [OF assms(1)] plain_name_notin [OF assms(2)] by auto
  then have sp: "split_on tab (join [tab] [h, n, x]) = [h, n, x]" using assms(3) by (intro split_on_join_sep) auto
  have "nth_trim [h, n, x] 2 ''0'' = trim x" by (simp add: nth_trim_def)
  with assms(4) have "\<not> token_line_ok (join [tab] [h, n, x])" unfolding token_line_ok_def sp by simp
  with entry_parse_join [OF assms(1-3)] assms(4) show ?thesis by (simp add: live_def)
qed

theorem unreadable_expiry_never_expires_witness:
  "\<exists>e. entry_parse (join [tab] [replicate 64 (CHR ''a''), ''anna'', ''2026-12-31'']) = Some e \<and> live 1893456000 e"
proof -
  have "hash_ok (replicate 64 (CHR ''a''))" "plain_name ''anna''" "parse_u64 (trim ''2026-12-31'') = None" by code_simp+
  from unreadable_expiry_never_expires [OF this(1,2) _ this(3)] show ?thesis by auto
qed

text \<open>
  The validator of the token file is exact: it reports no error exactly when every line
  that counts is a credential with a readable expiry, and then its two counts are the
  credentials the server accepts and refuses at that time.
\<close>

theorem validate_tokens_exact:
  "(tr_errors (validate_tokens s now) = [] \<longleftrightarrow> (\<forall>l\<in>set (content_lines s). token_line_ok l)) \<and>
   (tr_errors (validate_tokens s now) = [] \<longrightarrow>
      tr_valid (validate_tokens s now) = length (filter (live now) (read_text s)) \<and>
      tr_expired (validate_tokens s now) = length (filter (\<lambda>e. \<not> live now e) (read_text s)))"
  using validate_fold [where now = now and k = 0 and ls = "lines s" and rep = tokens_report_default]
  by (simp add: validate_tokens_def tokens_report_default_def read_text_def content_lines_def content_of_def)

theorem validate_tokens_exact_witness:
  "tr_valid (validate_tokens (entry_line sample_entry) 5) = 1"
proof -
  have "tr_errors (validate_tokens (entry_line sample_entry) 5) = []"
    "read_text (entry_line sample_entry) = [sample_entry]" "live 5 sample_entry" by code_simp+
  then show ?thesis using validate_tokens_exact [of "entry_line sample_entry" 5] by simp
qed

end
