(* ===== verification/Oidc.thy ===== *)
theory Oidc
  imports Hot_Reload Json
begin

text \<open>
  \<^verbatim>\<open>src/auth.rs\<close>, the OpenID Connect resource server (\<open>oidc_keys\<close>,
  \<open>identify_with_groups\<close>) and the configuration of the console's single sign-on
  (\<open>origin_of\<close>, \<open>sso_new\<close>). The signature library is a parameter: its header
  decoder, its key constructor and its \<^verbatim>\<open>decode\<close>, which checks a token
  against a \<^verbatim>\<open>Validation\<close>. What the library documents of the last is the
  hypothesis \<open>jwt_contract\<close>.
\<close>

subsection \<open>Keys\<close>

record jwk =
  k_kid :: "string option"
  k_kty :: string
  k_n :: "string option"
  k_e :: "string option"

text \<open>\<open>parse_jwks\<close> stands for \<^verbatim>\<open>serde_json::from_slice::<Jwks>\<close>.\<close>

definition oidc_keys :: "(string \<Rightarrow> jwk list option) \<Rightarrow> fs_file \<Rightarrow> jwk list" where
  "oidc_keys parse_jwks f = (case f of None \<Rightarrow> []
     | Some (_, text) \<Rightarrow> (case parse_jwks text of None \<Rightarrow> [] | Some ks \<Rightarrow> ks))"

interpretation jwks: hot_reload "oidc_keys parse_jwks" "[]" for parse_jwks
  by unfold_locales (simp add: oidc_keys_def)

subsection \<open>Tokens\<close>

datatype jwt_alg = RS256 | OtherAlg string

record validation =
  val_algorithm :: jwt_alg
  val_issuer :: "string list"
  val_audience :: "string list"
  val_exp :: bool
  val_required :: "string list"

record oidc =
  o_issuer :: string
  o_audience :: string
  o_subject_claim :: string
  o_groups_claim :: string

record identity =
  id_subject :: string
  id_groups :: "string list"

record 'k jwt_lib =
  decode_header :: "string \<Rightarrow> (jwt_alg \<times> string option) option"
  rsa_key :: "string \<Rightarrow> string \<Rightarrow> 'k option"
  jwt_decode :: "string \<Rightarrow> 'k \<Rightarrow> validation \<Rightarrow> json option"

definition oidc_validation :: "oidc \<Rightarrow> validation" where
  "oidc_validation o' = \<lparr>val_algorithm = RS256, val_issuer = [o_issuer o'], val_audience = [o_audience o'],
     val_exp = True, val_required = [''exp'', ''iss'', ''aud'']\<rparr>"

definition groups_claim :: "oidc \<Rightarrow> json \<Rightarrow> string list" where
  "groups_claim o' claims =
     (case Option.bind (json_get (o_groups_claim o') claims) as_array of
        None \<Rightarrow> []
      | Some vs \<Rightarrow> filter is_valid_principal (List.map_filter as_str vs))"

definition subject_claim :: "oidc \<Rightarrow> json \<Rightarrow> string option" where
  "subject_claim o' claims =
     (case Option.bind (json_get (o_subject_claim o') claims) as_str of
        None \<Rightarrow> None
      | Some s \<Rightarrow> if is_valid_principal s then Some s else None)"

definition identify_with_groups :: "'k jwt_lib \<Rightarrow> oidc \<Rightarrow> jwk list \<Rightarrow> string option \<Rightarrow> identity option" where
  "identify_with_groups lib o' keys token =
     (case token of None \<Rightarrow> None | Some t \<Rightarrow>
        if t = [] \<or> length t > 16 * 1024 then None
        else case decode_header lib t of None \<Rightarrow> None | Some (alg, kid_opt) \<Rightarrow>
        if alg \<noteq> RS256 then None
        else case kid_opt of None \<Rightarrow> None | Some kid \<Rightarrow>
        (case find (\<lambda>key. k_kty key = ''RSA'' \<and> k_kid key = Some kid) keys of None \<Rightarrow> None | Some key \<Rightarrow>
        (case (k_n key, k_e key) of
           (Some n, Some e) \<Rightarrow>
             (case rsa_key lib n e of None \<Rightarrow> None | Some dk \<Rightarrow>
             (case jwt_decode lib t dk (oidc_validation o') of None \<Rightarrow> None | Some claims \<Rightarrow>
             (case subject_claim o' claims of None \<Rightarrow> None | Some s \<Rightarrow>
                Some \<lparr>id_subject = s, id_groups = groups_claim o' claims\<rparr>)))
         | _ \<Rightarrow> None)))"

subsection \<open>What the signature library promises\<close>

text \<open>An issuer or audience claim is a string or a list of strings; one of them has to be a configured one.\<close>

definition claim_matches :: "string list \<Rightarrow> json \<Rightarrow> bool" where
  "claim_matches allowed v \<longleftrightarrow> (\<exists>a\<in>set allowed. as_str v = Some a \<or> a \<in> set (strs_of v))"

text \<open>
  As \<^verbatim>\<open>jsonwebtoken\<close> documents its \<^verbatim>\<open>Validation\<close>: the signature is checked under
  the key and the algorithm named, of the required claims only the registered ones count and
  those have to be there, the expiry is a number of seconds (\<open>seconds\<close> is how the library
  reads it, fractions included) that lies at most the leeway in the past, 60 seconds by default, and
  issuer and audience are checked where they are present. Nothing is asked of other claims.
\<close>

definition registered_claims :: "string set" where
  "registered_claims = {''exp'', ''nbf'', ''aud'', ''iss'', ''sub''}"

definition jwt_contract :: "'k jwt_lib \<Rightarrow> ('k \<Rightarrow> string \<Rightarrow> json \<Rightarrow> bool) \<Rightarrow> (json \<Rightarrow> nat option) \<Rightarrow> nat \<Rightarrow> bool" where
  "jwt_contract lib sealed seconds now \<longleftrightarrow> (\<forall>t k v claims. jwt_decode lib t k v = Some claims \<longrightarrow>
     sealed k t claims \<and>
     (\<forall>r\<in>set (val_required v) \<inter> registered_claims. json_get r claims \<noteq> None) \<and>
     (val_exp v \<longrightarrow> (\<forall>x. json_get ''exp'' claims = Some x \<longrightarrow> (\<exists>e. seconds x = Some e \<and> now \<le> e + 60))) \<and>
     (\<forall>x. json_get ''iss'' claims = Some x \<longrightarrow> claim_matches (val_issuer v) x) \<and>
     (\<forall>x. json_get ''aud'' claims = Some x \<longrightarrow> claim_matches (val_audience v) x))"

lemma identify_with_groups_Some:
  "identify_with_groups lib o' keys token = Some i \<longleftrightarrow>
     (\<exists>t kid key n e dk claims s. token = Some t \<and> t \<noteq> [] \<and> length t \<le> 16 * 1024 \<and>
        decode_header lib t = Some (RS256, Some kid) \<and>
        find (\<lambda>key. k_kty key = ''RSA'' \<and> k_kid key = Some kid) keys = Some key \<and>
        k_n key = Some n \<and> k_e key = Some e \<and> rsa_key lib n e = Some dk \<and>
        jwt_decode lib t dk (oidc_validation o') = Some claims \<and>
        subject_claim o' claims = Some s \<and> i = \<lparr>id_subject = s, id_groups = groups_claim o' claims\<rparr>)"
  by (auto simp: identify_with_groups_def split: option.splits if_splits prod.splits)

lemma groups_claim_says:
  "groups_claim o' claims = (case json_get (o_groups_claim o') claims of
     Some (JArr vs) \<Rightarrow> [g. JStr g \<leftarrow> vs, is_valid_principal g] | _ \<Rightarrow> [])"
proof -
  have "filter is_valid_principal (List.map_filter as_str vs) = [g. JStr g \<leftarrow> vs, is_valid_principal g]" for vs
    by (induction vs) (simp_all add: List.map_filter_simps split: json.split)
  then show ?thesis by (simp add: groups_claim_def split: option.split json.split)
qed

lemma subject_claim_says:
  "subject_claim o' claims = Some s \<Longrightarrow> json_get (o_subject_claim o') claims = Some (JStr s) \<and> is_valid_principal s"
  by (cases "json_get (o_subject_claim o') claims"; cases "the (json_get (o_subject_claim o') claims)")
    (simp_all add: subject_claim_def split: if_splits)

subsection \<open>Single sign-on\<close>

definition split_once_str :: "string \<Rightarrow> string \<Rightarrow> (string \<times> string) option" where
  "split_once_str p s = (case find_str p s of None \<Rightarrow> None
     | Some i \<Rightarrow> Some (take i s, drop (i + length p) s))"

definition origin_host :: "string \<Rightarrow> string" where
  "origin_host authority = (case rsplit_once (CHR '':'') authority of
     None \<Rightarrow> authority
   | Some (host, port) \<Rightarrow> if list_all is_ascii_digit port then host else authority)"

definition origin_char :: "char \<Rightarrow> bool" where
  "origin_char c \<longleftrightarrow> is_ascii_alphanumeric c \<or> c \<in> set ''-.:[]''"

definition origin_of :: "string \<Rightarrow> string option" where
  "origin_of url = (case split_once_str ''://'' url of None \<Rightarrow> None
     | Some (scheme, rest) \<Rightarrow>
         (let authority = takeWhile (\<lambda>c. c \<notin> set ''/?#'') rest;
              host = origin_host authority;
              plain = (authority \<noteq> [] \<and> list_all origin_char authority);
              loopback = (host \<in> {''localhost'', ''127.0.0.1'', ''[::1]''})
          in if plain \<and> (scheme = ''https'' \<or> (scheme = ''http'' \<and> loopback))
             then Some (scheme @ ''://'' @ authority) else None))"

datatype sso_error = AuthorizationEndpoint string | TokenEndpoint string | EmptySetting

record sso =
  s_client_id :: string
  s_authorization_endpoint :: string
  s_token_endpoint :: string
  s_scope :: string
  s_token_origin :: string

definition sso_new :: "string \<Rightarrow> string \<Rightarrow> string \<Rightarrow> string \<Rightarrow> (sso_error, sso) result" where
  "sso_new client_id auth_endpoint token_endpoint scope =
     (case origin_of auth_endpoint of None \<Rightarrow> Inl (AuthorizationEndpoint auth_endpoint)
      | Some _ \<Rightarrow>
     (case origin_of token_endpoint of None \<Rightarrow> Inl (TokenEndpoint token_endpoint)
      | Some token_origin \<Rightarrow>
          if client_id = [] \<or> scope = [] then Inl EmptySetting
          else Inr \<lparr>s_client_id = client_id, s_authorization_endpoint = auth_endpoint,
                 s_token_endpoint = token_endpoint, s_scope = scope, s_token_origin = token_origin\<rparr>))"

definition sso_public_json :: "sso \<Rightarrow> json" where
  "sso_public_json s = JObj [(''client_id'', JStr (s_client_id s)),
     (''authorization_endpoint'', JStr (s_authorization_endpoint s)),
     (''token_endpoint'', JStr (s_token_endpoint s)), (''scope'', JStr (s_scope s))]"

text \<open>What may stand in a source list of a Content-Security-Policy as one source.\<close>

definition csp_source :: "string \<Rightarrow> bool" where
  "csp_source s \<longleftrightarrow> s \<noteq> [] \<and> (\<forall>c\<in>set s. 32 < byte c \<and> byte c < 127 \<and> c \<notin> set ''; ,'' \<and> c \<noteq> CHR 0x27 \<and> c \<noteq> quote_char \<and> c \<noteq> CHR ''*'')"

lemma rsplit_once_Some: "rsplit_once c s = Some (a, b) \<Longrightarrow> s = a @ c # b"
proof -
  assume a: "rsplit_once c s = Some (a, b)"
  then obtain i where i: "find_char (\<lambda>x. x = c) (rev s) = Some i" "a = take (length s - Suc i) s" "b = drop (length s - i) s"
    by (auto simp: rsplit_once_def split: option.splits)
  from find_char_Some [OF i(1)] have l: "i < length s" "rev s ! i = c" by auto
  then have "s ! (length s - Suc i) = c" by (simp add: rev_nth)
  then show ?thesis using i(2,3) l(1) id_take_nth_drop [of "length s - Suc i" s] by (simp add: Suc_diff_Suc)
qed

lemma origin_of_Some:
  assumes "origin_of url = Some r"
  shows "\<exists>scheme authority. r = scheme @ ''://'' @ authority \<and> authority \<noteq> [] \<and> list_all origin_char authority \<and>
     (scheme = ''https'' \<or> scheme = ''http'' \<and> origin_host authority \<in> {''localhost'', ''127.0.0.1'', ''[::1]''})"
  using assms by (auto simp: origin_of_def Let_def split: option.splits prod.splits if_splits)

subsection \<open>Properties\<close>

text \<open>
  C11. An identity is what a token sealed for this service says, and nothing else. If the signature library
  keeps its documented contract, then every identity the server accepts was read from a token whose header names
  RS256 and the id of an RSA key of the mounted key set, signed under the key with that id, with an issuer claim
  that has the configured issuer, an audience claim that has the configured audience and an expiry not more than the library's
  leeway in the past. The subject is the string that the configured claim of this token holds and a valid name, and the groups are
  the valid names among the strings of the configured list, in their order, or none.
\<close>

theorem oidc_identity_is_sealed:
  assumes "jwt_contract lib sealed seconds now"
    and "identify_with_groups lib o' keys token = Some i"
  shows "\<exists>t kid key n e dk claims x y z w. token = Some t \<and> decode_header lib t = Some (RS256, Some kid) \<and>
     key \<in> set keys \<and> k_kty key = ''RSA'' \<and> k_kid key = Some kid \<and>
     k_n key = Some n \<and> k_e key = Some e \<and> rsa_key lib n e = Some dk \<and> sealed dk t claims \<and>
     json_get ''exp'' claims = Some x \<and> seconds x = Some y \<and> now \<le> y + 60 \<and>
     json_get ''iss'' claims = Some z \<and> claim_matches [o_issuer o'] z \<and>
     json_get ''aud'' claims = Some w \<and> claim_matches [o_audience o'] w \<and>
     json_get (o_subject_claim o') claims = Some (JStr (id_subject i)) \<and> is_valid_principal (id_subject i) \<and>
     (case json_get (o_groups_claim o') claims of
        Some (JArr vs) \<Rightarrow> id_groups i = [g. JStr g \<leftarrow> vs, is_valid_principal g]
      | _ \<Rightarrow> id_groups i = [])"
proof -
  from assms(2) obtain t kid key n e dk claims s where a: "token = Some t"
      "find (\<lambda>key. k_kty key = ''RSA'' \<and> k_kid key = Some kid) keys = Some key"
      "k_n key = Some n" "k_e key = Some e" "rsa_key lib n e = Some dk"
      "jwt_decode lib t dk (oidc_validation o') = Some claims"
      "subject_claim o' claims = Some s" "i = \<lparr>id_subject = s, id_groups = groups_claim o' claims\<rparr>"
      "decode_header lib t = Some (RS256, Some kid)"
    unfolding identify_with_groups_Some by blast
  have key: "key \<in> set keys" "k_kty key = ''RSA''" "k_kid key = Some kid" using a(2) by (auto simp: find_Some_iff)
  note c = assms(1) [unfolded jwt_contract_def, rule_format, OF a(6)]
  have req: "json_get ''exp'' claims \<noteq> None" "json_get ''iss'' claims \<noteq> None" "json_get ''aud'' claims \<noteq> None"
    using c by (auto simp: oidc_validation_def registered_claims_def)
  then obtain x z w where g: "json_get ''exp'' claims = Some x" "json_get ''iss'' claims = Some z" "json_get ''aud'' claims = Some w"
    by blast
  moreover obtain y where "seconds x = Some y" "now \<le> y + 60" using c g(1) by (auto simp: oidc_validation_def)
  moreover have "claim_matches [o_issuer o'] z" "claim_matches [o_audience o'] w" using c g(2,3) by (auto simp: oidc_validation_def)
  moreover have "json_get (o_subject_claim o') claims = Some (JStr (id_subject i)) \<and> is_valid_principal (id_subject i)"
    using subject_claim_says [OF a(7)] a(8) by simp
  moreover have "case json_get (o_groups_claim o') claims of
      Some (JArr vs) \<Rightarrow> id_groups i = [g. JStr g \<leftarrow> vs, is_valid_principal g] | _ \<Rightarrow> id_groups i = []"
    using groups_claim_says [of o' claims] a(8) by (simp split: option.split json.split)
  ultimately show ?thesis using a(1,3,4,5,9) key c by blast
qed

definition sample_claims :: json where
  "sample_claims = JObj [(''iss'', JStr ''https://idp''), (''aud'', JArr [JStr ''glasir-control'']), (''exp'', JNum 500),
     (''sub'', JStr ''anna@example.com''), (''groups'', JArr [JStr ''pay-dev'', JNum 3, JStr ''../x''])]"

text \<open>A library that knows one token and one key and checks what it must.\<close>

definition sample_jwt :: "string jwt_lib" where
  "sample_jwt = \<lparr>decode_header = (\<lambda>t. if t = ''tok'' then Some (RS256, Some ''k1'') else None),
     rsa_key = (\<lambda>n e. Some n),
     jwt_decode = (\<lambda>t k v. if t = ''tok'' \<and> k = ''n1'' \<and> val_issuer v = [''https://idp''] \<and>
         val_audience v = [''glasir-control''] \<and> val_required v = [''exp'', ''iss'', ''aud''] then Some sample_claims else None)\<rparr>"

definition sample_oidc :: oidc where
  "sample_oidc = \<lparr>o_issuer = ''https://idp'', o_audience = ''glasir-control'', o_subject_claim = ''sub'', o_groups_claim = ''groups''\<rparr>"

definition sample_jwk :: jwk where
  "sample_jwk = \<lparr>k_kid = Some ''k1'', k_kty = ''RSA'', k_n = Some ''n1'', k_e = Some ''AQAB''\<rparr>"

theorem oidc_identity_is_sealed_witness:
  "identify_with_groups sample_jwt sample_oidc [sample_jwk] (Some ''tok'') =
     Some \<lparr>id_subject = ''anna@example.com'', id_groups = [''pay-dev'']\<rparr> \<and>
   is_valid_principal ''anna@example.com''"
proof -
  have i: "identify_with_groups sample_jwt sample_oidc [sample_jwk] (Some ''tok'') =
     Some \<lparr>id_subject = ''anna@example.com'', id_groups = [''pay-dev'']\<rparr>" by code_simp
  have "jwt_contract sample_jwt (\<lambda>k t claims. k = ''n1'' \<and> t = ''tok'') as_u64 550"
    by (auto simp: jwt_contract_def sample_jwt_def sample_claims_def claim_matches_def strs_of_def List.map_filter_simps split: if_splits)
  from oidc_identity_is_sealed [OF this i] have "is_valid_principal (id_subject \<lparr>id_subject = ''anna@example.com'', id_groups = [''pay-dev'']\<rparr>)"
    by blast
  with i show ?thesis by simp
qed

text \<open>
  No fallback: without a key id, without a matching RSA key, or with a library that
  rejects the token, nobody is identified; and a groups claim that is missing or not a list
  gives no groups.
\<close>

theorem oidc_no_fallback:
  "(decode_header lib t = Some (RS256, None) \<longrightarrow> identify_with_groups lib o' keys (Some t) = None) \<and>
   (decode_header lib t = Some (OtherAlg a, k) \<longrightarrow> identify_with_groups lib o' keys (Some t) = None) \<and>
   identify_with_groups lib o' [] token = None \<and>
   ((\<forall>k. jwt_decode lib t k (oidc_validation o') = None) \<longrightarrow> identify_with_groups lib o' keys (Some t) = None) \<and>
   (Option.bind (json_get (o_groups_claim o') claims) as_array = None \<longrightarrow> groups_claim o' claims = [])"
  by (auto simp: identify_with_groups_def groups_claim_def split: option.splits prod.splits)

theorem oidc_no_fallback_witness:
  "identify_with_groups sample_jwt sample_oidc [] (Some ''tok'') = None \<and>
   identify_with_groups (sample_jwt\<lparr>decode_header := (\<lambda>_. Some (RS256, None))\<rparr>) sample_oidc [sample_jwk] (Some ''tok'') = None"
  using oidc_no_fallback [of sample_jwt "''tok''" sample_oidc]
    oidc_no_fallback [of "sample_jwt\<lparr>decode_header := (\<lambda>_. Some (RS256, None))\<rparr>" "''tok''" sample_oidc "[sample_jwk]"]
  by simp

text \<open>
  The origin taken from an endpoint is safe to write into a Content-Security-Policy: it is
  one source, without separators, quotes or wildcards, its scheme is https, or http for a host
  that is the local machine.
\<close>

theorem origin_is_one_csp_source:
  assumes "origin_of url = Some r"
  shows "csp_source r \<and> (starts_with ''https://'' r \<or>
    (\<exists>host port. (r = ''http://'' @ host \<or> r = ''http://'' @ host @ '':'' @ port) \<and>
       host \<in> {''localhost'', ''127.0.0.1'', ''[::1]''} \<and> list_all is_ascii_digit port))"
proof -
  from origin_of_Some [OF assms] obtain scheme authority where r: "r = scheme @ ''://'' @ authority"
    and a: "list_all origin_char authority"
    and s: "scheme = ''https'' \<or> scheme = ''http'' \<and> origin_host authority \<in> {''localhost'', ''127.0.0.1'', ''[::1]''}" by blast
  define ok where "ok c = (32 < byte c \<and> byte c < 127 \<and> c \<notin> set ''; ,'' \<and> c \<noteq> CHR 0x27 \<and> c \<noteq> quote_char \<and> c \<noteq> CHR ''*'')" for c
  have "origin_char c \<Longrightarrow> ok c" for c by (auto simp: ok_def origin_char_def ascii_class_defs byte_def)
  then have "\<forall>c\<in>set authority. ok c" using a by (auto simp: list_all_iff)
  moreover have "\<forall>c\<in>set ''https://http://''. ok c" by (simp add: ok_def byte_def)
  ultimately have "\<forall>c\<in>set r. ok c" using s by (auto simp: r)
  moreover have "r \<noteq> []" by (simp add: r)
  ultimately have csp: "csp_source r" by (simp add: csp_source_def ok_def)
  show ?thesis
  proof (cases "scheme = ''https''")
    case True
    then show ?thesis using csp by (simp add: r starts_with_def)
  next
    case False
    then have h: "scheme = ''http''" "origin_host authority \<in> {''localhost'', ''127.0.0.1'', ''[::1]''}" using s by auto
    have "\<exists>port. (authority = origin_host authority \<or> authority = origin_host authority @ '':'' @ port) \<and> list_all is_ascii_digit port"
    proof (cases "rsplit_once (CHR '':'') authority")
      case None
      then show ?thesis by (intro exI [of _ "[]"]) (simp add: origin_host_def)
    next
      case (Some p)
      obtain u v where p: "p = (u, v)" by (cases p)
      from rsplit_once_Some [OF Some [unfolded p]] have "authority = u @ '':'' @ v" by simp
      moreover have "origin_host authority = (if list_all is_ascii_digit v then u else authority)"
        by (simp add: origin_host_def Some p)
      ultimately show ?thesis
        by (cases "list_all is_ascii_digit v") (auto intro: exI [of _ v] exI [of _ "[]"])
    qed
    then show ?thesis using csp h by (auto simp: r)
  qed
qed

theorem origin_is_one_csp_source_witness:
  "csp_source ''http://localhost:8080'' \<and> origin_of ''http://example.com/auth'' = None"
proof -
  have "origin_of ''http://localhost:8080/auth?x=1'' = Some ''http://localhost:8080''"
    "origin_of ''http://example.com/auth'' = None" by code_simp+
  then show ?thesis using origin_is_one_csp_source [of "''http://localhost:8080/auth?x=1''"] by simp
qed

end
