(* ===== verification/Policy.thy ===== *)
theory Policy
  imports Rights_Report Rights_Edit Sha256 "HOL-Library.AList" "HOL-Library.Product_Lexorder"
begin

text \<open>
  \<^verbatim>\<open>src/policy.rs\<close>, the four-eyes store of policy proposals: a directory of JSON
  documents beside the active rights file. \<open>pstore\<close> holds both. How a document is written
  and parsed is a parameter (\<open>codec\<close>), as the program leaves it to a library; a write may fail
  and may then leave a torn document behind. \<^verbatim>\<open>approve\<close> first reads and decides, then
  writes, without a lock, so it is given as two steps, and the transition system at the end lets
  the steps of many requests interleave.
\<close>

subsection \<open>The store\<close>

record 'doc codec =
  from_slice :: "'doc \<Rightarrow> json option"
  to_vec :: "json \<Rightarrow> 'doc"

record 'doc pstore =
  ps_active :: "string option"
  ps_dir :: "(string, 'doc) hmap"

datatype policy_error =
  NoActivePolicy | OutsideTenant nat | InvalidRights "issue list" | ProposalExists | NoProposal | InvalidProposal
| OwnProposal | NotPending | BeyondScope | StaleProposal | NoLongerValid | NotFound | WriteFailed

datatype 'doc write_result = Written | NotWritten | Torn 'doc

definition put_file :: "'doc write_result \<Rightarrow> string \<Rightarrow> 'doc \<Rightarrow> 'doc pstore \<Rightarrow> (policy_error, unit) result \<times> 'doc pstore" where
  "put_file w name d st = (case w of
       Written \<Rightarrow> (Inr (), st\<lparr>ps_dir := AList.update name d (ps_dir st)\<rparr>)
     | NotWritten \<Rightarrow> (Inl WriteFailed, st)
     | Torn d' \<Rightarrow> (Inl WriteFailed, st\<lparr>ps_dir := AList.update name d' (ps_dir st)\<rparr>))"

definition proposal_path :: "string \<Rightarrow> string" where
  "proposal_path pid = pid @ ''.json''"

text \<open>Reading a file and parsing it; either may fail.\<close>

definition load_proposal :: "'doc codec \<Rightarrow> string \<Rightarrow> 'doc pstore \<Rightarrow> (policy_error, json) result" where
  "load_proposal c pid st = (case map_of (ps_dir st) (proposal_path pid) of None \<Rightarrow> Inl NoProposal
     | Some d \<Rightarrow> ok_or InvalidProposal (from_slice c d))"

subsection \<open>Scopes\<close>

definition proposal_trees :: "json \<Rightarrow> string set option" where
  "proposal_trees v = map_option (\<lambda>ts. set (List.map_filter as_str ts)) (as_array (json_index v ''scope''))"

definition covers :: "admin_scope \<Rightarrow> json \<Rightarrow> bool" where
  "covers scope v = (case (scope, proposal_trees v) of
       (Global, _) \<Rightarrow> True
     | (Trees _, None) \<Rightarrow> False
     | (_, Some ts) \<Rightarrow> scope_covers scope ts)"

definition scope_value :: "admin_scope \<Rightarrow> json" where
  "scope_value scope = (case scope of Global \<Rightarrow> JStr ''global'' | Trees ts \<Rightarrow> json_strs (sorted_list_of_set ts))"

definition active_view :: "string \<Rightarrow> admin_scope \<Rightarrow> string" where
  "active_view s scope = (case scope of Global \<Rightarrow> s | Trees ts \<Rightarrow> scoped_text s ts)"

lemma map_filter_map_Str: "List.map_filter as_str (map JStr ss) = ss"
  by (induction ss) (simp_all add: List.map_filter_simps)

subsection \<open>Creating\<close>

definition proposal_doc :: "string \<Rightarrow> string \<Rightarrow> nat \<Rightarrow> string \<Rightarrow> string \<Rightarrow> admin_scope \<Rightarrow> json" where
  "proposal_doc pid author now rights current scope = JObj
     [(''schema'', JStr ''glasir.policy-proposal.v1''), (''id'', JStr pid), (''author'', JStr author),
      (''created_at'', JNum (int now)), (''rights'', JStr rights), (''rights_sha256'', JStr (sha256_hex rights)),
      (''base_sha256'', JStr (sha256_hex current)), (''scope'', scope_value scope), (''state'', JStr ''pending'')]"

definition proposed_rights :: "string \<Rightarrow> string \<Rightarrow> admin_scope \<Rightarrow> (nat, string) result" where
  "proposed_rights current submitted scope =
     (case scope of Global \<Rightarrow> Inr submitted | Trees ts \<Rightarrow> compose current submitted ts)"

definition create :: "'doc codec \<Rightarrow> 'doc write_result \<Rightarrow> nat \<Rightarrow> string \<Rightarrow> string \<Rightarrow> string \<Rightarrow> admin_scope \<Rightarrow> 'doc pstore \<Rightarrow>
    (policy_error, unit) result \<times> 'doc pstore" where
  "create c w now pid author submitted scope st =
     (case ps_active st of None \<Rightarrow> (Inl NoActivePolicy, st) | Some current \<Rightarrow>
     (case proposed_rights current submitted scope of Inl n \<Rightarrow> (Inl (OutsideTenant n), st) | Inr rights \<Rightarrow>
        if \<not> report_is_valid (validate_text rights) then (Inl (InvalidRights (rep_errors (validate_text rights))), st)
        else if map_of (ps_dir st) (proposal_path pid) \<noteq> None then (Inl ProposalExists, st)
        else put_file w (proposal_path pid) (to_vec c (proposal_doc pid author now rights current scope)) st))"

subsection \<open>Approving\<close>

definition json_set :: "string \<Rightarrow> json \<Rightarrow> json \<Rightarrow> json" where
  "json_set k x v = (case v of JObj kvs \<Rightarrow> JObj (AList.update k x kvs) | JNull \<Rightarrow> JObj [(k, x)] | _ \<Rightarrow> v)"

text \<open>What \<^verbatim>\<open>approve\<close> reads and decides: the document and the text to put in force.\<close>

definition approve_check :: "'doc codec \<Rightarrow> string \<Rightarrow> string \<Rightarrow> admin_scope \<Rightarrow> 'doc pstore \<Rightarrow> (policy_error, json \<times> string) result" where
  "approve_check c pid approver scope st =
     (case load_proposal c pid st of Inl e \<Rightarrow> Inl e | Inr v \<Rightarrow>
     (case as_str (json_index v ''author'') of None \<Rightarrow> Inl InvalidProposal | Some author \<Rightarrow>
        if author = approver then Inl OwnProposal
        else if json_index v ''state'' \<noteq> JStr ''pending'' then Inl NotPending
        else if \<not> covers scope v then Inl BeyondScope
        else case ps_active st of None \<Rightarrow> Inl NoActivePolicy | Some current \<Rightarrow>
          if as_str (json_index v ''base_sha256'') \<noteq> Some (sha256_hex current) then Inl StaleProposal
          else case as_str (json_index v ''rights'') of None \<Rightarrow> Inl InvalidProposal | Some rights \<Rightarrow>
            if \<not> report_is_valid (validate_text rights) then Inl NoLongerValid else Inr (v, rights)))"

definition approved_doc :: "nat \<Rightarrow> string \<Rightarrow> json \<Rightarrow> json" where
  "approved_doc now approver v =
     json_set ''approved_at'' (JNum (int now)) (json_set ''approver'' (JStr approver) (json_set ''state'' (JStr ''approved'') v))"

text \<open>What it then writes; \<open>swap\<close> says whether the temporary file could be written and renamed.\<close>

definition approve_commit :: "'doc codec \<Rightarrow> bool \<Rightarrow> 'doc write_result \<Rightarrow> nat \<Rightarrow> string \<Rightarrow> string \<Rightarrow> json \<times> string \<Rightarrow> 'doc pstore \<Rightarrow>
    (policy_error, unit) result \<times> 'doc pstore" where
  "approve_commit c swap w now pid approver decided st =
     (if \<not> swap then (Inl WriteFailed, st)
      else put_file w (proposal_path pid) (to_vec c (approved_doc now approver (fst decided)))
             (st\<lparr>ps_active := Some (snd decided)\<rparr>))"

definition approve :: "'doc codec \<Rightarrow> bool \<Rightarrow> 'doc write_result \<Rightarrow> nat \<Rightarrow> string \<Rightarrow> string \<Rightarrow> admin_scope \<Rightarrow> 'doc pstore \<Rightarrow>
    (policy_error, unit) result \<times> 'doc pstore" where
  "approve c swap w now pid approver scope st =
     (case approve_check c pid approver scope st of Inl e \<Rightarrow> (Inl e, st)
      | Inr decided \<Rightarrow> approve_commit c swap w now pid approver decided st)"

subsection \<open>Reading and listing\<close>

definition read_proposal :: "'doc codec \<Rightarrow> string \<Rightarrow> admin_scope \<Rightarrow> 'doc pstore \<Rightarrow> (policy_error, json) result" where
  "read_proposal c pid scope st =
     (case load_proposal c pid st of Inl e \<Rightarrow> Inl e | Inr v \<Rightarrow>
        if \<not> covers scope v then Inl NotFound
        else case ps_active st of None \<Rightarrow> Inl NoActivePolicy | Some current \<Rightarrow>
          let v' = (case as_str (json_index v ''rights'') of None \<Rightarrow> v
                    | Some rights \<Rightarrow> json_set ''rights'' (JStr (active_view rights scope)) v)
          in Inr (JObj [(''proposal'', v'), (''active_rights'', JStr (active_view current scope))]))"

definition extension :: "string \<Rightarrow> string option" where
  "extension name = (case rsplit_once (CHR ''.'') name of None \<Rightarrow> None
     | Some (stem, e) \<Rightarrow> if stem = [] then None else Some e)"

definition metadata :: "json \<Rightarrow> json" where
  "metadata v = JObj (map (\<lambda>k. (k, json_index v k))
     [''id'', ''author'', ''created_at'', ''scope'', ''state'', ''approver'', ''approved_at''])"

definition newest_first :: "json \<Rightarrow> (nat \<times> int) \<times> string option" where
  "newest_first v = ((case as_u64 (json_index v ''created_at'') of None \<Rightarrow> (1, 0) | Some n \<Rightarrow> (0, - int n)),
     as_str (json_index v ''id''))"

definition list_proposals :: "'doc codec \<Rightarrow> admin_scope \<Rightarrow> 'doc pstore \<Rightarrow> json list" where
  "list_proposals c scope st =
     sort_key newest_first (map metadata (filter (covers scope)
       (List.map_filter (\<lambda>(name, d). if extension name = Some ''json'' then from_slice c d else None) (ps_dir st))))"

subsection \<open>The store over time\<close>

text \<open>
  A world is the store, the proposals ever created (with the policy they were made against),
  and the approvals that have been decided and not yet written. Between any two steps the active
  file may be changed by others: an operator, a webhook, a reconciliation.
\<close>

record creation =
  cr_pid :: string
  cr_author :: string
  cr_submitted :: string
  cr_base :: string
  cr_scope :: admin_scope
  cr_rights :: string

record decision =
  de_pid :: string
  de_approver :: string
  de_scope :: admin_scope
  de_decided :: "json \<times> string"

record 'doc world =
  w_store :: "'doc pstore"
  w_created :: "creation list"
  w_decided :: "decision list"

definition torn_ok :: "'doc codec \<Rightarrow> 'doc write_result \<Rightarrow> bool" where
  "torn_ok c w = (case w of Torn d \<Rightarrow> from_slice c d = None | _ \<Rightarrow> True)"

inductive policy_step :: "'doc codec \<Rightarrow> 'doc world \<Rightarrow> 'doc world \<Rightarrow> bool" for c where
  Create: "\<lbrakk>create c w now pid author submitted scope (w_store s) = (r, st'); torn_ok c w;
      ps_active (w_store s) = Some base; proposed_rights base submitted scope = Inr rights;
      \<forall>T. scope = Trees T \<longrightarrow> finite T\<rbrakk> \<Longrightarrow>
    policy_step c s (s\<lparr>w_store := st', w_created :=
      (if r = Inr () then \<lparr>cr_pid = pid, cr_author = author, cr_submitted = submitted, cr_base = base,
         cr_scope = scope, cr_rights = rights\<rparr> # w_created s else w_created s)\<rparr>)"
| Decide: "approve_check c pid approver scope (w_store s) = Inr decided \<Longrightarrow>
    policy_step c s (s\<lparr>w_decided := \<lparr>de_pid = pid, de_approver = approver, de_scope = scope, de_decided = decided\<rparr> # w_decided s\<rparr>)"
| Commit: "\<lbrakk>d \<in> set (w_decided s); approve_commit c swap w now (de_pid d) (de_approver d) (de_decided d) (w_store s) = (r, st');
      torn_ok c w\<rbrakk> \<Longrightarrow> policy_step c s (s\<lparr>w_store := st', w_decided := remove1 d (w_decided s)\<rparr>)"
| Edit: "policy_step c s (s\<lparr>w_store := (w_store s)\<lparr>ps_active := f\<rparr>\<rparr>)"

inductive policy_reachable :: "'doc codec \<Rightarrow> 'doc world \<Rightarrow> bool" for c where
  Init: "policy_reachable c \<lparr>w_store = \<lparr>ps_active = f, ps_dir = []\<rparr>, w_created = [], w_decided = []\<rparr>"
| Step: "policy_reachable c s \<Longrightarrow> policy_step c s s' \<Longrightarrow> policy_reachable c s'"

inductive_cases policy_stepE: "policy_step c s s'"

subsection \<open>What the documents say\<close>

text \<open>A printed object parses back to one with the same members.\<close>

definition same_members :: "json \<Rightarrow> json \<Rightarrow> bool" where
  "same_members v v' \<longleftrightarrow> (\<forall>k. json_index v' k = json_index v k)"

definition codec_law :: "'doc codec \<Rightarrow> bool" where
  "codec_law c \<longleftrightarrow> (\<forall>kvs. \<exists>v'. from_slice c (to_vec c (JObj kvs)) = Some v' \<and> same_members (JObj kvs) v')"

definition records_creation :: "json \<Rightarrow> creation \<Rightarrow> bool" where
  "records_creation v cn \<longleftrightarrow>
     json_index v ''author'' = JStr (cr_author cn) \<and> json_index v ''rights'' = JStr (cr_rights cn) \<and>
     json_index v ''base_sha256'' = JStr (sha256_hex (cr_base cn)) \<and> json_index v ''scope'' = scope_value (cr_scope cn) \<and>
     proposed_rights (cr_base cn) (cr_submitted cn) (cr_scope cn) = Inr (cr_rights cn) \<and>
     (\<forall>T. cr_scope cn = Trees T \<longrightarrow> finite T)"

definition store_ok :: "'doc codec \<Rightarrow> creation list \<Rightarrow> 'doc pstore \<Rightarrow> bool" where
  "store_ok c crs st \<longleftrightarrow> (\<forall>name d v. map_of (ps_dir st) name = Some d \<and> from_slice c d = Some v \<longrightarrow>
     (\<exists>cn\<in>set crs. name = proposal_path (cr_pid cn) \<and> records_creation v cn))"

definition decision_ok :: "creation list \<Rightarrow> decision \<Rightarrow> bool" where
  "decision_ok crs d \<longleftrightarrow> (\<exists>cn\<in>set crs. cr_pid cn = de_pid d \<and> cr_author cn \<noteq> de_approver d \<and>
     records_creation (fst (de_decided d)) cn \<and> snd (de_decided d) = cr_rights cn \<and> covers (de_scope d) (fst (de_decided d)))"

definition world_ok :: "'doc codec \<Rightarrow> 'doc world \<Rightarrow> bool" where
  "world_ok c s \<longleftrightarrow> store_ok c (w_created s) (w_store s) \<and> (\<forall>d\<in>set (w_decided s). decision_ok (w_created s) d)"

lemma proposal_path_inj [simp]: "proposal_path a = proposal_path b \<longleftrightarrow> a = b"
  by (simp add: proposal_path_def)

lemma records_same_members: "records_creation v cn \<Longrightarrow> same_members v v' \<Longrightarrow> records_creation v' cn"
  by (simp add: records_creation_def same_members_def)

lemma store_ok_mono: "store_ok c crs st \<Longrightarrow> set crs \<subseteq> set crs' \<Longrightarrow> store_ok c crs' st"
  unfolding store_ok_def by blast

lemma decision_ok_mono: "decision_ok crs d \<Longrightarrow> set crs \<subseteq> set crs' \<Longrightarrow> decision_ok crs' d"
  unfolding decision_ok_def by blast

lemma put_file_store_ok:
  assumes "put_file w name d st = (r, st')" and "torn_ok c w" and "store_ok c crs st" and "set crs \<subseteq> set crs'"
    and "w = Written \<Longrightarrow> \<forall>v. from_slice c d = Some v \<longrightarrow> (\<exists>cn\<in>set crs'. name = proposal_path (cr_pid cn) \<and> records_creation v cn)"
  shows "store_ok c crs' st'"
proof (cases w)
  case Written
  with assms show ?thesis by (auto simp: put_file_def store_ok_def update_conv split: if_splits) blast+
next
  case NotWritten
  with assms show ?thesis by (auto simp: put_file_def intro: store_ok_mono)
next
  case (Torn d')
  with assms show ?thesis by (auto simp: put_file_def store_ok_def update_conv torn_ok_def split: if_splits) blast+
qed

lemma store_ok_active [simp]: "store_ok c crs (st\<lparr>ps_active := f\<rparr>) = store_ok c crs st"
  by (simp add: store_ok_def)

lemma approve_check_Inr:
  assumes "approve_check c pid approver scope st = Inr (v, rights)"
  obtains d author current where "map_of (ps_dir st) (proposal_path pid) = Some d" and "from_slice c d = Some v"
    and "json_index v ''author'' = JStr author" and "author \<noteq> approver" and "json_index v ''state'' = JStr ''pending''"
    and "covers scope v" and "ps_active st = Some current" and "as_str (json_index v ''base_sha256'') = Some (sha256_hex current)"
    and "as_str (json_index v ''rights'') = Some rights" and "report_is_valid (validate_text rights)"
proof -
  obtain d where d: "map_of (ps_dir st) (proposal_path pid) = Some d"
    using assms by (cases "map_of (ps_dir st) (proposal_path pid)") (simp_all add: approve_check_def load_proposal_def)
  obtain v' where v': "from_slice c d = Some v'"
    using assms d by (cases "from_slice c d") (simp_all add: approve_check_def load_proposal_def)
  obtain author where a: "as_str (json_index v' ''author'') = Some author"
    using assms d v' by (cases "as_str (json_index v' ''author'')") (simp_all add: approve_check_def load_proposal_def)
  obtain current where cur: "ps_active st = Some current"
    using assms d v' a by (cases "ps_active st") (simp_all add: approve_check_def load_proposal_def split: if_splits)
  obtain r where r: "as_str (json_index v' ''rights'') = Some r"
    using assms d v' a cur by (cases "as_str (json_index v' ''rights'')") (simp_all add: approve_check_def load_proposal_def split: if_splits)
  have "v' = v" "r = rights" "author \<noteq> approver" "json_index v' ''state'' = JStr ''pending''" "covers scope v'"
    "as_str (json_index v' ''base_sha256'') = Some (sha256_hex current)" "report_is_valid (validate_text r)"
    using assms d v' a cur r by (simp_all add: approve_check_def load_proposal_def split: if_splits)
  moreover have "json_index v' ''author'' = JStr author" using a by (cases "json_index v' ''author''") simp_all
  ultimately show ?thesis using that d v' cur r by simp
qed

lemma codec_member: "codec_law c \<Longrightarrow> from_slice c (to_vec c (JObj kvs)) = Some v \<Longrightarrow> same_members (JObj kvs) v"
  unfolding codec_law_def by (metis option.inject)

lemma json_index_set:
  "json_index (json_set k x (JObj kvs)) k' = (if k' = k then x else json_index (JObj kvs) k')"
  by (simp add: json_set_def json_index_def update_conv)

lemma json_set_obj: "json_set k x (JObj kvs) = JObj (AList.update k x kvs)"
  by (simp add: json_set_def)

lemma json_index_str_obj: "json_index v k = JStr s \<Longrightarrow> \<exists>kvs. v = JObj kvs"
  by (cases v) (simp_all add: json_index_def)

lemma approved_doc_records:
  assumes "records_creation v cn" and "codec_law c" and "from_slice c (to_vec c (approved_doc now approver v)) = Some v'"
  shows "records_creation v' cn \<and> json_index v' ''state'' = JStr ''approved''"
proof -
  obtain kvs where v: "v = JObj kvs"
    using assms(1) json_index_str_obj [of v "''author''"] unfolding records_creation_def by blast
  let ?d = "approved_doc now approver v"
  obtain kvs' where d: "?d = JObj kvs'" by (simp add: approved_doc_def v json_set_obj)
  have k: "json_index ?d k = (if k = ''approved_at'' then JNum (int now) else if k = ''approver'' then JStr approver
      else if k = ''state'' then JStr ''approved'' else json_index v k)" for k
    by (simp add: approved_doc_def v json_set_obj json_index_set [unfolded json_set_obj])
  have "records_creation ?d cn" using assms(1) by (simp add: records_creation_def k)
  moreover have "same_members ?d v'" using codec_member [OF assms(2), of kvs' v'] assms(3) unfolding d by blast
  ultimately show ?thesis using records_same_members by (auto simp: same_members_def k)
qed

lemma create_cases:
  assumes "create c w now pid author submitted scope st = (r, st')" and "ps_active st = Some base"
    and "proposed_rights base submitted scope = Inr rights"
  obtains "r \<noteq> Inr ()" and "st' = st"
  | "map_of (ps_dir st) (proposal_path pid) = None" and "report_is_valid (validate_text rights)"
    and "put_file w (proposal_path pid) (to_vec c (proposal_doc pid author now rights base scope)) st = (r, st')"
  using assms by (auto simp: create_def split: if_splits)

lemma proposal_doc_records:
  assumes "codec_law c" and "from_slice c (to_vec c (proposal_doc pid author now rights base scope)) = Some v"
    and "proposed_rights base submitted scope = Inr rights" and "\<forall>T. scope = Trees T \<longrightarrow> finite T"
  shows "records_creation v \<lparr>cr_pid = pid, cr_author = author, cr_submitted = submitted, cr_base = base, cr_scope = scope, cr_rights = rights\<rparr>"
proof -
  have "same_members (proposal_doc pid author now rights base scope) v"
    using assms(2) codec_member [OF assms(1)] unfolding proposal_doc_def by blast
  moreover have "records_creation (proposal_doc pid author now rights base scope)
      \<lparr>cr_pid = pid, cr_author = author, cr_submitted = submitted, cr_base = base, cr_scope = scope, cr_rights = rights\<rparr>"
    using assms(3,4) by (simp add: records_creation_def proposal_doc_def)
  ultimately show ?thesis by (rule records_same_members [rotated])
qed

lemma put_file_ok_iff: "put_file w name d st = (Inr (), st') \<longleftrightarrow> w = Written \<and> st' = st\<lparr>ps_dir := AList.update name d (ps_dir st)\<rparr>"
  by (auto simp: put_file_def split: write_result.split)

lemma put_file_active: "put_file w name d st = (r, st') \<Longrightarrow> ps_active st' = ps_active st"
  by (auto simp: put_file_def split: write_result.splits)

lemma check_decision_ok:
  assumes "store_ok c crs st" and "approve_check c pid approver scope st = Inr decided"
  shows "decision_ok crs \<lparr>de_pid = pid, de_approver = approver, de_scope = scope, de_decided = decided\<rparr>"
proof -
  obtain v rights where dc: "decided = (v, rights)" by (cases decided)
  from assms(2) [unfolded dc] obtain d author current where a:
    "map_of (ps_dir st) (proposal_path pid) = Some d" "from_slice c d = Some v" "json_index v ''author'' = JStr author"
    "author \<noteq> approver" "covers scope v" "as_str (json_index v ''rights'') = Some rights" by (rule approve_check_Inr)
  from assms(1) a(1,2) obtain cn where cn: "cn \<in> set crs" "proposal_path pid = proposal_path (cr_pid cn)" "records_creation v cn"
    unfolding store_ok_def by blast
  then show ?thesis using a by (auto simp: decision_ok_def dc records_creation_def intro!: bexI [of _ cn])
qed

lemma step_world_ok:
  assumes "codec_law c" and "policy_step c s s'" and "world_ok c s"
  shows "world_ok c s'"
  using assms(2)
proof cases
  case (Create w now pid author submitted scope r st' base rights)
  let ?cn = "\<lparr>cr_pid = pid, cr_author = author, cr_submitted = submitted, cr_base = base, cr_scope = scope, cr_rights = rights\<rparr>"
  have sub: "set (w_created s) \<subseteq> set (w_created s')" by (simp add: Create(1) subset_insertI)
  from Create(2,4,5) have "store_ok c (w_created s') st'"
  proof (cases rule: create_cases)
    case 1
    moreover have "store_ok c (w_created s) (w_store s)" using assms(3) by (simp add: world_ok_def)
    ultimately show ?thesis using store_ok_mono [OF _ sub] by simp
  next
    case 2
    have w: "\<forall>v. from_slice c (to_vec c (proposal_doc pid author now rights base scope)) = Some v \<longrightarrow>
        (\<exists>cn\<in>set (w_created s'). proposal_path pid = proposal_path (cr_pid cn) \<and> records_creation v cn)" if "w = Written"
    proof -
      have "r = Inr ()" using 2(3) that by (simp add: put_file_def)
      then show ?thesis using proposal_doc_records [OF assms(1) _ Create(5,6), of pid author now]
        by (auto simp: Create(1) intro!: bexI [of _ ?cn])
    qed
    show ?thesis
      by (rule put_file_store_ok [OF 2(3) Create(3) _ sub w]) (use assms(3) in \<open>simp_all add: world_ok_def\<close>)
  qed
  then show ?thesis using assms(3) decision_ok_mono [OF _ sub] by (auto simp: world_ok_def Create(1))
next
  case (Decide pid approver scope decided)
  have "store_ok c (w_created s) (w_store s)" using assms(3) by (simp add: world_ok_def)
  from check_decision_ok [OF this Decide(2)] show ?thesis using assms(3) by (simp add: world_ok_def Decide(1))
next
  case (Commit d swap w now r st')
  from assms(3) Commit(2) have "decision_ok (w_created s) d" by (simp add: world_ok_def)
  then obtain cn where cn: "cn \<in> set (w_created s)" "cr_pid cn = de_pid d" "records_creation (fst (de_decided d)) cn"
    by (auto simp: decision_ok_def)
  have "store_ok c (w_created s) st'"
  proof (cases swap)
    case True
    have w: "\<forall>v. from_slice c (to_vec c (approved_doc now (de_approver d) (fst (de_decided d)))) = Some v \<longrightarrow>
        (\<exists>cn\<in>set (w_created s). proposal_path (de_pid d) = proposal_path (cr_pid cn) \<and> records_creation v cn)"
    proof (intro allI impI bexI [OF _ cn(1)] conjI)
      fix v assume v: "from_slice c (to_vec c (approved_doc now (de_approver d) (fst (de_decided d)))) = Some v"
      show "records_creation v cn" using approved_doc_records [OF cn(3) assms(1) v] by blast
    qed (simp add: cn(2))
    show ?thesis
      by (rule put_file_store_ok [OF _ Commit(4), where crs = "w_created s"])
        (use Commit(3) True assms(3) w in \<open>auto simp: approve_commit_def world_ok_def\<close>)
  next
    case False
    then show ?thesis using Commit(3) assms(3) by (simp add: approve_commit_def world_ok_def)
  qed
  then show ?thesis using assms(3) by (auto simp: world_ok_def Commit(1) dest: notin_set_remove1)
next
  case (Edit f)
  then show ?thesis using assms(3) by (simp add: world_ok_def)
qed

lemma reachable_world_ok: "policy_reachable c s \<Longrightarrow> codec_law c \<Longrightarrow> world_ok c s"
proof (induction rule: policy_reachable.induct)
  case (Init f)
  then show ?case by (simp add: world_ok_def store_ok_def)
next
  case (Step s s')
  then show ?case using step_world_ok by blast
qed

subsection \<open>Properties\<close>

lemma covers_tenant:
  assumes "records_creation v cn" and "covers (Trees own) v"
  shows "\<exists>T. cr_scope cn = Trees T \<and> T \<noteq> {} \<and> T \<subseteq> own"
proof (cases "cr_scope cn")
  case Global
  then show ?thesis using assms by (simp add: records_creation_def covers_def proposal_trees_def scope_value_def)
next
  case (Trees T)
  then have "finite T" using assms(1) by (simp add: records_creation_def)
  have "json_index v ''scope'' = json_strs (sorted_list_of_set T)"
    using assms(1) Trees by (simp add: records_creation_def scope_value_def)
  then have "proposal_trees v = Some T"
    using \<open>finite T\<close> by (simp add: proposal_trees_def json_strs_def map_filter_map_Str)
  then show ?thesis using assms(2) Trees by (simp add: covers_def scope_covers_def)
qed

lemma approval_traced:
  assumes "codec_law c" and "policy_reachable c s"
    and "approve c swap w now pid approver scope (w_store s) = (Inr (), st')"
  shows "\<exists>cn\<in>set (w_created s). cr_pid cn = pid \<and> cr_author cn \<noteq> approver \<and>
    ps_active st' = Some (cr_rights cn) \<and> report_is_valid (validate_text (cr_rights cn)) \<and>
    proposed_rights (cr_base cn) (cr_submitted cn) (cr_scope cn) = Inr (cr_rights cn) \<and>
    (\<exists>current. ps_active (w_store s) = Some current \<and> sha256_hex (cr_base cn) = sha256_hex current) \<and>
    (\<forall>own. scope = Trees own \<longrightarrow> (\<exists>T. cr_scope cn = Trees T \<and> T \<noteq> {} \<and> T \<subseteq> own))"
proof -
  obtain v rights where c: "approve_check c pid approver scope (w_store s) = Inr (v, rights)"
    using assms(3) by (auto simp: approve_def split: sum.splits)
  have st: "store_ok c (w_created s) (w_store s)" using reachable_world_ok [OF assms(2,1)] by (simp add: world_ok_def)
  have "ps_active st' = Some rights"
    using assms(3) by (auto simp: approve_def c approve_commit_def put_file_ok_iff split: if_splits)
  moreover from check_decision_ok [OF st c] obtain cn where cn: "cn \<in> set (w_created s)" "cr_pid cn = pid" "cr_author cn \<noteq> approver"
    "records_creation v cn" "rights = cr_rights cn" "covers scope v" by (auto simp: decision_ok_def)
  moreover from c obtain current where "ps_active (w_store s) = Some current"
    "as_str (json_index v ''base_sha256'') = Some (sha256_hex current)" "report_is_valid (validate_text rights)"
    by (rule approve_check_Inr)
  ultimately show ?thesis
    using covers_tenant [OF cn(4)] by (intro bexI [of _ cn]) (auto simp: records_creation_def)
qed

text \<open>
  C15. Four eyes, whatever happened before. In every state the store can reach, with creations,
  decisions, torn writes and outside edits in any order, an approval that succeeds puts in force
  exactly the text of a proposal that someone else created: composed from the submission and the
  policy it was made against, valid, made against a policy with the hash of the one it
  replaces, and inside the approver's own trees when the approver is a tenant administrator.
\<close>

theorem four_eyes:
  assumes "codec_law c" and "policy_reachable c s"
    and "approve c swap w now pid approver scope (w_store s) = (Inr (), st')"
  shows "\<exists>cn\<in>set (w_created s). cr_pid cn = pid \<and> cr_author cn \<noteq> approver \<and>
    ps_active st' = Some (cr_rights cn) \<and> report_is_valid (validate_text (cr_rights cn)) \<and>
    proposed_rights (cr_base cn) (cr_submitted cn) (cr_scope cn) = Inr (cr_rights cn) \<and>
    (\<exists>current. ps_active (w_store s) = Some current \<and> sha256_hex (cr_base cn) = sha256_hex current) \<and>
    (\<forall>own. scope = Trees own \<longrightarrow> (\<exists>T. cr_scope cn = Trees T \<and> T \<noteq> {} \<and> T \<subseteq> own))"
  using assms by (rule approval_traced)

text \<open>A store of documents kept as values, and a run: paula proposes, root decides.\<close>

definition value_codec :: "json codec" where
  "value_codec = \<lparr>from_slice = Some, to_vec = (\<lambda>v. v)\<rparr>"

lemma value_codec_law: "codec_law value_codec"
  by (simp add: codec_law_def value_codec_def same_members_def)

definition sample_store :: "json pstore" where
  "sample_store = \<lparr>ps_active = Some sample_policy,
     ps_dir = [(''p1.json'', proposal_doc ''p1'' ''paula'' 7 sample_composed sample_policy (Trees {''alpha''}))]\<rparr>"

definition sample_created :: creation where
  "sample_created = \<lparr>cr_pid = ''p1'', cr_author = ''paula'', cr_submitted = sample_edit, cr_base = sample_policy,
     cr_scope = Trees {''alpha''}, cr_rights = sample_composed\<rparr>"

lemma sample_valid: "report_is_valid (validate_text sample_composed)"
  by code_simp

lemma sample_reachable:
  "policy_reachable value_codec \<lparr>w_store = sample_store, w_created = [sample_created], w_decided = []\<rparr>"
proof -
  let ?s0 = "\<lparr>w_store = \<lparr>ps_active = Some sample_policy, ps_dir = []\<rparr>, w_created = [], w_decided = []\<rparr>"
  have cr: "create value_codec Written 7 ''p1'' ''paula'' sample_edit (Trees {''alpha''}) (w_store ?s0) = (Inr (), sample_store)"
    by (simp add: create_def proposed_rights_def sample_compose sample_valid put_file_def sample_store_def value_codec_def proposal_path_def)
  have "torn_ok value_codec (Written :: json write_result)" by (simp add: torn_ok_def)
  moreover have "ps_active (w_store ?s0) = Some sample_policy" by simp
  moreover have "proposed_rights sample_policy sample_edit (Trees {''alpha''}) = Inr sample_composed"
    by (simp add: proposed_rights_def sample_compose)
  moreover have "\<forall>T. Trees {''alpha''} = Trees T \<longrightarrow> finite T" by auto
  ultimately have "policy_step value_codec ?s0 \<lparr>w_store = sample_store, w_created = [sample_created], w_decided = []\<rparr>"
    using policy_step.Create [where c = value_codec and s = ?s0 and w = Written and now = 7 and pid = "''p1''" and author = "''paula''"
        and submitted = sample_edit and scope = "Trees {''alpha''}" and r = "Inr ()" and st' = sample_store
        and base = sample_policy and rights = sample_composed, OF cr]
    by (simp add: sample_created_def)
  from policy_reachable.Step [OF policy_reachable.Init this] show ?thesis .
qed

lemma sample_approve:
  "approve value_codec True Written 9 ''p1'' ''root'' Global sample_store =
     (Inr (), \<lparr>ps_active = Some sample_composed, ps_dir = [(''p1.json'',
        approved_doc 9 ''root'' (proposal_doc ''p1'' ''paula'' 7 sample_composed sample_policy (Trees {''alpha''})))]\<rparr>)"
  by (simp add: approve_def approve_check_def load_proposal_def sample_store_def proposal_path_def value_codec_def
      proposal_doc_def covers_def sample_valid approve_commit_def put_file_def)

theorem four_eyes_witness:
  "\<exists>cn\<in>set [sample_created]. cr_author cn \<noteq> ''root'' \<and> cr_rights cn = sample_composed \<and>
     proposed_rights (cr_base cn) (cr_submitted cn) (cr_scope cn) = Inr sample_composed"
  using four_eyes [OF value_codec_law sample_reachable, of True Written 9 "''p1''" "''root''" Global, simplified, OF sample_approve]
  by auto

text \<open>
  C16. An approval in force touches only its tenant. When a proposal scoped to a tenant is approved
  and the hash does not confuse the policy it was made against with the one it replaces, every
  access and tool decision on trees outside the tenant, and who administers what, is the
  same before and after.
\<close>

theorem approval_confined:
  assumes "codec_law c" and "policy_reachable c s"
    and "approve c swap w now pid approver scope (w_store s) = (Inr (), st')"
    and "ps_active (w_store s) = Some current" and "inj_on sha256_hex (insert current (cr_base ` set (w_created s)))"
  shows "\<exists>cn\<in>set (w_created s). cr_pid cn = pid \<and> (\<exists>out. ps_active st' = Some out \<and>
    (\<forall>T. cr_scope cn = Trees T \<longrightarrow>
       (\<forall>t u gs tool. t \<notin> T \<longrightarrow> (may_with_groups (parse out) u gs t \<longleftrightarrow> may_with_groups (parse current) u gs t) \<and>
          (may_tool_with_groups (parse out) u gs t tool \<longleftrightarrow> may_tool_with_groups (parse current) u gs t tool)) \<and>
       (\<forall>u gs. admin_scope_of (parse out) u gs = admin_scope_of (parse current) u gs)))"
proof -
  from approval_traced [OF assms(1-3)] assms(4) obtain cn where cn: "cn \<in> set (w_created s)" "cr_pid cn = pid"
    "ps_active st' = Some (cr_rights cn)" "proposed_rights (cr_base cn) (cr_submitted cn) (cr_scope cn) = Inr (cr_rights cn)"
    "sha256_hex (cr_base cn) = sha256_hex current" by auto
  have base: "cr_base cn = current" using inj_onD [OF assms(5) cn(5)] cn(1) by simp
  have "compose current (cr_submitted cn) T = Inr (cr_rights cn)" if "cr_scope cn = Trees T" for T
    using cn(4) that by (simp add: proposed_rights_def base)
  then show ?thesis
    using cn(1-3) compose_confines compose_keeps_scope by (intro bexI [of _ cn] conjI exI [of _ "cr_rights cn"]) auto
qed

theorem approval_confined_witness:
  "may_with_groups (parse sample_composed) ''bruno'' [] ''beta'' = may_with_groups (parse sample_policy) ''bruno'' [] ''beta''"
proof -
  have "inj_on sha256_hex (insert sample_policy (cr_base ` set [sample_created]))" by (simp add: sample_created_def)
  from approval_confined [OF value_codec_law sample_reachable, of True Written 9 "''p1''" "''root''" Global _ sample_policy, simplified,
      OF sample_approve] this
  show ?thesis by (simp add: sample_store_def sample_created_def)
qed

subsection \<open>Two approvals at once\<close>

lemma load_proposal_put:
  "p \<noteq> q \<Longrightarrow> load_proposal c q (st\<lparr>ps_active := f, ps_dir := AList.update (proposal_path p) d (ps_dir st)\<rparr>) = load_proposal c q st"
  by (simp add: load_proposal_def update_conv)

lemma approve_check_stale:
  assumes "approve_check c pid approver scope st = Inr decided" and "load_proposal c pid st' = load_proposal c pid st"
    and "ps_active st = Some current" and "ps_active st' = Some current'" and "sha256_hex current' \<noteq> sha256_hex current"
  shows "approve_check c pid approver scope st' = Inl StaleProposal"
proof -
  obtain v rights where dc: "decided = (v, rights)" by (cases decided)
  from assms(1) [unfolded dc] show ?thesis
    by (rule approve_check_Inr) (use assms in \<open>simp add: approve_check_def load_proposal_def\<close>)
qed

text \<open>
  The check against undoing an approval works for one approval after another and not for two at
  once. Of two proposals that may both be approved in some state, once the first is approved the
  second is refused as stale; but when both were checked before either was written,
  both are reported as approved and the text of the first is lost.
\<close>

theorem approvals_race:
  assumes "approve_check c p1 a1 s1 st = Inr (v1, r1)" and "approve_check c p2 a2 s2 st = Inr (v2, r2)" and "p1 \<noteq> p2"
    and "ps_active st = Some current"
  shows "\<exists>st1. approve_commit c True Written n1 p1 a1 (v1, r1) st = (Inr (), st1) \<and> ps_active st1 = Some r1 \<and>
    (approve c True Written n2 p2 a2 s2 st1 = (Inl StaleProposal, st1) \<or> sha256_hex r1 = sha256_hex current) \<and>
    (\<exists>st2. approve_commit c True Written n2 p2 a2 (v2, r2) st1 = (Inr (), st2) \<and> ps_active st2 = Some r2)"
proof -
  let ?st1 = "st\<lparr>ps_active := Some r1, ps_dir := AList.update (proposal_path p1) (to_vec c (approved_doc n1 a1 v1)) (ps_dir st)\<rparr>"
  have c: "approve_commit c True Written n1 p1 a1 (v1, r1) st = (Inr (), ?st1)"
    by (simp add: approve_commit_def put_file_def)
  have "approve_check c p2 a2 s2 ?st1 = Inl StaleProposal" if "sha256_hex r1 \<noteq> sha256_hex current"
    by (rule approve_check_stale [OF assms(2) load_proposal_put [OF assms(3)] assms(4) _ that]) simp
  then show ?thesis using c by (auto simp: approve_def approve_commit_def put_file_def)
qed

definition race_store :: "string \<Rightarrow> json pstore" where
  "race_store other = \<lparr>ps_active = Some sample_policy,
     ps_dir = [(''p1.json'', proposal_doc ''p1'' ''paula'' 7 sample_composed sample_policy (Trees {''alpha''})),
               (''p2.json'', proposal_doc ''p2'' ''anna'' 8 other sample_policy Global)]\<rparr>"

theorem approvals_race_witness:
  "\<exists>st1. ps_active st1 = Some sample_composed \<and>
     (approve value_codec True Written 10 ''p2'' ''root'' Global st1 = (Inl StaleProposal, st1) \<or>
        sha256_hex sample_composed = sha256_hex sample_policy)"
proof -
  let ?st = "race_store sample_composed"
  have "approve_check value_codec ''p1'' ''root'' Global ?st = Inr (proposal_doc ''p1'' ''paula'' 7 sample_composed sample_policy (Trees {''alpha''}), sample_composed)"
    "approve_check value_codec ''p2'' ''root'' Global ?st = Inr (proposal_doc ''p2'' ''anna'' 8 sample_composed sample_policy Global, sample_composed)"
    by (simp_all add: approve_check_def load_proposal_def race_store_def proposal_path_def value_codec_def
      proposal_doc_def covers_def sample_valid)
  from approvals_race [OF this, of sample_policy 9 10] show ?thesis
    by (auto simp: race_store_def)
qed

subsection \<open>What a tenant administrator is shown\<close>

lemma scoped_text_inside: "l \<in> set (lines (scoped_text s T)) \<Longrightarrow> inside T (line_trees (trim l) (parse s))"
proof -
  assume l: "l \<in> set (lines (scoped_text s T))"
  let ?ls = "filter (\<lambda>l. inside T (line_trees (trim l) (parse s))) (lines s)"
  have "\<forall>l\<in>set ?ls. nl \<notin> set l" by (auto dest: lines_no_nl)
  then have "lines (scoped_text s T) = map strip_cr ?ls" by (simp only: scoped_text_def Let_def lines_unlines)
  with l show ?thesis by (auto simp: trim_strip_cr)
qed

text \<open>
  C17. A tenant administrator who reads a proposal sees only lines about the tenant's own trees:
  every line of the active policy shown, and every line of the proposed text shown, is
  inside those trees, and a proposal that reaches beyond them is answered as not found.
\<close>

theorem tenant_reads_own_lines:
  assumes "read_proposal c pid (Trees own) st = Inr doc"
  shows "\<exists>v current shown. load_proposal c pid st = Inr v \<and> ps_active st = Some current \<and>
    (\<exists>T. proposal_trees v = Some T \<and> T \<noteq> {} \<and> T \<subseteq> own) \<and>
    json_index doc ''active_rights'' = JStr shown \<and>
    (\<forall>l\<in>set (lines shown). inside own (line_trees (trim l) (parse current))) \<and>
    (\<forall>rights. json_index v ''rights'' = JStr rights \<longrightarrow>
       (\<exists>text'. json_index (json_index doc ''proposal'') ''rights'' = JStr text' \<and>
          (\<forall>l\<in>set (lines text'). inside own (line_trees (trim l) (parse rights)))))"
proof -
  obtain v where v: "load_proposal c pid st = Inr v" using assms by (cases "load_proposal c pid st") (simp_all add: read_proposal_def)
  have cv: "covers (Trees own) v" using assms by (simp add: read_proposal_def v split: if_splits)
  obtain current where a: "ps_active st = Some current" using assms cv by (cases "ps_active st") (simp_all add: read_proposal_def v)
  let ?v' = "case as_str (json_index v ''rights'') of None \<Rightarrow> v
     | Some rights \<Rightarrow> json_set ''rights'' (JStr (active_view rights (Trees own))) v"
  have doc: "doc = JObj [(''proposal'', ?v'), (''active_rights'', JStr (scoped_text current own))]"
    using assms by (simp add: read_proposal_def v cv a Let_def active_view_def [of current])
  have T: "\<exists>T. proposal_trees v = Some T \<and> T \<noteq> {} \<and> T \<subseteq> own"
    using cv by (cases "proposal_trees v") (simp_all add: covers_def scope_covers_def)
  have r: "json_index ?v' ''rights'' = JStr (scoped_text rights own)" if h: "json_index v ''rights'' = JStr rights" for rights
  proof -
    obtain kvs where "v = JObj kvs" using json_index_str_obj [OF h] by blast
    then show ?thesis using h by (simp add: json_index_set active_view_def)
  qed
  show ?thesis
    using v a T doc r scoped_text_inside by (intro exI [of _ v] exI [of _ current] exI [of _ "scoped_text current own"]) (simp add: doc)
qed

theorem tenant_reads_own_lines_witness:
  "\<exists>doc. read_proposal value_codec ''p1'' (Trees {''alpha''}) sample_store = Inr doc \<and>
     (\<exists>shown. json_index doc ''active_rights'' = JStr shown \<and>
       (\<forall>l\<in>set (lines shown). inside {''alpha''} (line_trees (trim l) (parse sample_policy))))"
proof -
  obtain doc where d: "read_proposal value_codec ''p1'' (Trees {''alpha''}) sample_store = Inr doc"
    by (simp add: read_proposal_def load_proposal_def sample_store_def proposal_path_def value_codec_def covers_def
      proposal_trees_def proposal_doc_def scope_value_def json_strs_def scope_covers_def List.map_filter_simps)
  have "ps_active sample_store = Some sample_policy" by (simp add: sample_store_def)
  with tenant_reads_own_lines [OF d] d show ?thesis by fastforce
qed

end
