(* ===== verification/Cross_Repo.thy ===== *)
theory Cross_Repo
  imports Json
begin

text \<open>
  \<^verbatim>\<open>src/crossrepo.rs\<close>: from the HTTP surface each tree reports (its routes and its
  requests, as segments with a parameter as \<open>*\<close>), the requests of one tree that reach a route
  of another, and the callers of changed handlers.
\<close>

record route =
  rt_tree :: string
  rt_handler :: string
  rt_verb :: string
  rt_segments :: "string list"

definition elements :: "json \<Rightarrow> string \<Rightarrow> json list" where
  "elements v k = (case as_array (json_index v k) of None \<Rightarrow> [] | Some xs \<Rightarrow> xs)"

definition segments :: "json \<Rightarrow> string list" where
  "segments v = strs_of v"

definition reaches :: "string \<times> string list \<Rightarrow> string \<times> string list \<Rightarrow> bool" where
  "reaches request route \<longleftrightarrow>
     (fst request = ''ANY'' \<or> fst route = ''ANY'' \<or> fst request = fst route) \<and>
     length (snd request) = length (snd route) \<and>
     list_all (\<lambda>(q, r). r = ''*'' \<or> (q \<noteq> ''*'' \<and> q = r)) (zip (snd request) (snd route))"

definition route_of :: "string \<Rightarrow> json \<Rightarrow> route option" where
  "route_of t r = (case as_str (json_index r ''handler'') of None \<Rightarrow> None | Some h \<Rightarrow>
     (case as_str (json_index r ''verb'') of None \<Rightarrow> None | Some verb \<Rightarrow>
        Some \<lparr>rt_tree = t, rt_handler = h, rt_verb = verb, rt_segments = segments (json_index r ''segments'')\<rparr>))"

definition routes_of :: "(string \<times> json) list \<Rightarrow> route list" where
  "routes_of surfaces = concat (map (\<lambda>(t, surface). List.map_filter (route_of t) (elements surface ''routes'')) surfaces)"

definition literals :: "route \<Rightarrow> nat" where
  "literals r = length (filter (\<lambda>s. s \<noteq> ''*'') (rt_segments r))"

definition link :: "string \<Rightarrow> string \<Rightarrow> string \<Rightarrow> json \<Rightarrow> route \<Rightarrow> json" where
  "link t sender verb path r = JObj [(''from_tree'', JStr t), (''sender'', JStr sender), (''verb'', JStr verb),
     (''path'', path), (''to_tree'', JStr (rt_tree r)), (''handler'', JStr (rt_handler r))]"

text \<open>\<^verbatim>\<open>iter().max()\<close>\<close>

definition max_of :: "nat list \<Rightarrow> nat option" where
  "max_of ns = (case ns of [] \<Rightarrow> None | n # ns' \<Rightarrow> Some (fold max ns' n))"

definition request_links :: "route list \<Rightarrow> string \<Rightarrow> json \<Rightarrow> json list" where
  "request_links routes t request =
     (case (as_str (json_index request ''sender''), as_str (json_index request ''verb'')) of
        (Some sender, Some verb) \<Rightarrow>
          let asked = segments (json_index request ''segments'') in
          if asked = [] then []
          else let reached = map (\<lambda>r. (r, literals r))
                 (filter (\<lambda>r. rt_tree r \<noteq> t \<and> reaches (verb, asked) (rt_verb r, rt_segments r)) routes);
                   best = max_of (map snd reached)
               in map (\<lambda>(r, _). link t sender verb (json_index request ''path'') r)
                    (filter (\<lambda>(_, literal). Some literal = best) reached)
      | _ \<Rightarrow> [])"

definition links :: "(string \<times> json) list \<Rightarrow> json list" where
  "links surfaces = concat (map (\<lambda>(t, surface).
     concat (map (request_links (routes_of surfaces) t) (elements surface ''requests''))) surfaces)"

definition caller :: "json \<Rightarrow> json" where
  "caller l = JObj [(''tree'', json_index l ''from_tree''), (''sender'', json_index l ''sender''),
     (''verb'', json_index l ''verb''), (''path'', json_index l ''path'')]"

definition callers_of_changes :: "json list \<Rightarrow> (string \<times> string list) list \<Rightarrow> json list" where
  "callers_of_changes ls changed = concat (map (\<lambda>(t, symbols). concat (map (\<lambda>symbol.
     let callers = map caller (filter (\<lambda>l. json_index l ''to_tree'' = JStr t \<and> json_index l ''handler'' = JStr symbol) ls)
     in if callers \<noteq> [] then [JObj [(''tree'', JStr t), (''handler'', JStr symbol), (''callers'', JArr callers)]] else [])
     symbols)) changed)"

subsection \<open>What a request reaches\<close>

text \<open>The concrete paths a pattern stands for: a star is any one segment.\<close>

definition stands_for :: "string list \<Rightarrow> string list \<Rightarrow> bool" where
  "stands_for pat path \<longleftrightarrow> list_all2 (\<lambda>p s. p = ''*'' \<or> p = s) pat path"

lemma stands_for_all:
  "(\<forall>path. stands_for qs path \<longrightarrow> stands_for rs path) \<longleftrightarrow>
     length qs = length rs \<and> list_all (\<lambda>(q, r). r = ''*'' \<or> (q \<noteq> ''*'' \<and> q = r)) (zip qs rs)"
proof (induction qs arbitrary: rs)
  case Nil
  show ?case by (cases rs) (auto simp: stands_for_def)
next
  case (Cons q qs)
  have some: "\<exists>path. stands_for qs path" for qs
    by (rule exI [of _ qs]) (simp add: stands_for_def list_all2_refl)
  show ?case
  proof (cases rs)
    case Nil
    then show ?thesis using some [of "q # qs"] by (auto simp: stands_for_def)
  next
    case (Cons r rs')
    have fresh: "\<exists>s. s \<noteq> r" for r :: string by (rule exI [of _ "CHR ''x'' # r"]) simp
    have "(\<forall>path. stands_for (q # qs) path \<longrightarrow> stands_for (r # rs') path) \<longleftrightarrow>
        (\<forall>s path. (q = ''*'' \<or> q = s) \<and> stands_for qs path \<longrightarrow> (r = ''*'' \<or> r = s) \<and> stands_for rs' path)"
      by (auto simp: stands_for_def list_all2_Cons1)
    also have "\<dots> \<longleftrightarrow> (\<forall>s. q = ''*'' \<or> q = s \<longrightarrow> r = ''*'' \<or> r = s) \<and> (\<forall>path. stands_for qs path \<longrightarrow> stands_for rs' path)"
      using some [of qs] by blast
    also have "(\<forall>s. q = ''*'' \<or> q = s \<longrightarrow> r = ''*'' \<or> r = s) \<longleftrightarrow> r = ''*'' \<or> (q \<noteq> ''*'' \<and> q = r)"
      using fresh [of r] by blast
    finally show ?thesis using Cons.IH [of rs'] Cons by auto
  qed
qed

text \<open>
  The rule that joins requests and routes is the routers' one: with agreeing verbs, a request
  reaches a route exactly when the route matches every concrete path the request can stand
  for, whatever its parameters turn out to be.
\<close>

theorem reaches_is_matching:
  "reaches (v, q) (v', r) \<longleftrightarrow> (v = ''ANY'' \<or> v' = ''ANY'' \<or> v = v') \<and> (\<forall>path. stands_for q path \<longrightarrow> stands_for r path)"
  by (simp add: reaches_def stands_for_all)

theorem reaches_is_matching_witness:
  "reaches (''GET'', [''users'', ''*'']) (''ANY'', [''users'', ''*'']) \<and> \<not> reaches (''GET'', [''users'', ''*'']) (''GET'', [''users'', ''me''])"
proof -
  have "stands_for [''users'', ''*''] [''users'', ''x'']" "\<not> stands_for [''users'', ''me''] [''users'', ''x'']"
    by (simp_all add: stands_for_def)
  then show ?thesis by (auto simp: reaches_is_matching)
qed

subsection \<open>The links\<close>

lemma max_of_iff: "Some n = max_of ns \<longleftrightarrow> n \<in> set ns \<and> (\<forall>k\<in>set ns. k \<le> n)"
proof (cases ns)
  case (Cons m ms)
  have "max_of ns = Some (Max (set ns))" by (simp add: max_of_def Cons Max.set_eq_fold [symmetric])
  moreover have "n = Max (set ns) \<longleftrightarrow> n \<in> set ns \<and> (\<forall>k\<in>set ns. k \<le> n)"
    by (subst eq_commute, rule Max_eq_iff) (simp_all add: Cons)
  ultimately show ?thesis by simp
qed (simp add: max_of_def)

lemma map_tagged: "map (\<lambda>(r, _). f r) (filter (\<lambda>(_, n). Some n = best) (map (\<lambda>r. (r, g r)) rs)) =
    map f (filter (\<lambda>r. Some (g r) = best) rs)"
  by (induction rs) auto

text \<open>A request of tree \<open>t\<close>, as reported, and what it may reach elsewhere.\<close>

definition reachable_routes :: "(string \<times> json) list \<Rightarrow> string \<Rightarrow> string \<Rightarrow> string list \<Rightarrow> route set" where
  "reachable_routes surfaces t verb asked =
     {r \<in> set (routes_of surfaces). rt_tree r \<noteq> t \<and> reaches (verb, asked) (rt_verb r, rt_segments r)}"

lemma request_links_iff:
  "l \<in> set (request_links (routes_of surfaces) t request) \<longleftrightarrow>
     (\<exists>sender verb r. json_index request ''sender'' = JStr sender \<and> json_index request ''verb'' = JStr verb \<and>
        segments (json_index request ''segments'') \<noteq> [] \<and>
        r \<in> reachable_routes surfaces t verb (segments (json_index request ''segments'')) \<and>
        (\<forall>r'\<in>reachable_routes surfaces t verb (segments (json_index request ''segments'')). literals r' \<le> literals r) \<and>
        l = link t sender verb (json_index request ''path'') r)"
proof -
  have str: "as_str x = Some s \<longleftrightarrow> x = JStr s" for x s by (cases x) auto
  show ?thesis
  proof (cases "as_str (json_index request ''sender'')")
    case None
    then show ?thesis by (auto simp: request_links_def)
  next
    case (Some sender)
    note s = this
    show ?thesis
    proof (cases "as_str (json_index request ''verb'')")
      case None
      then show ?thesis by (auto simp: request_links_def s)
    next
      case (Some verb)
      show ?thesis
        unfolding request_links_def Let_def map_tagged
        using s [unfolded str] Some [unfolded str] by (auto simp: max_of_iff reachable_routes_def)
    qed
  qed
qed

text \<open>
  C24. The links are exactly the cross-tree calls: a link is reported if and only if some tree
  makes a request, with a sender and a non-empty path, that reaches a route of another tree,
  and no other route of another tree that the request reaches has more literal segments.
\<close>

theorem links_exact:
  "l \<in> set (links surfaces) \<longleftrightarrow>
     (\<exists>t surface request sender verb r. (t, surface) \<in> set surfaces \<and> request \<in> set (elements surface ''requests'') \<and>
        json_index request ''sender'' = JStr sender \<and> json_index request ''verb'' = JStr verb \<and>
        segments (json_index request ''segments'') \<noteq> [] \<and>
        r \<in> reachable_routes surfaces t verb (segments (json_index request ''segments'')) \<and>
        (\<forall>r'\<in>reachable_routes surfaces t verb (segments (json_index request ''segments'')). literals r' \<le> literals r) \<and>
        l = link t sender verb (json_index request ''path'') r)"
proof -
  have "l \<in> set (links surfaces) \<longleftrightarrow> (\<exists>t surface request. (t, surface) \<in> set surfaces \<and>
      request \<in> set (elements surface ''requests'') \<and> l \<in> set (request_links (routes_of surfaces) t request))"
    by (force simp: links_def)
  then show ?thesis unfolding request_links_iff by blast
qed

definition sample_surfaces :: "(string \<times> json) list" where
  "sample_surfaces =
    [(''shop'', JObj [(''requests'', JArr [JObj [(''sender'', JStr ''pay''), (''verb'', JStr ''POST''), (''path'', JStr ''/pay/7''),
        (''segments'', json_strs [''pay'', ''*''])]])]),
     (''billing'', JObj [(''routes'', JArr [
        JObj [(''handler'', JStr ''charge''), (''verb'', JStr ''POST''), (''segments'', json_strs [''pay'', ''*''])],
        JObj [(''handler'', JStr ''fallback''), (''verb'', JStr ''ANY''), (''segments'', json_strs [''*'', ''*''])]])])]"

theorem links_exact_witness:
  "link ''shop'' ''pay'' ''POST'' (JStr ''/pay/7'')
     \<lparr>rt_tree = ''billing'', rt_handler = ''charge'', rt_verb = ''POST'', rt_segments = [''pay'', ''*'']\<rparr> \<in> set (links sample_surfaces)"
proof -
  let ?c = "\<lparr>rt_tree = ''billing'', rt_handler = ''charge'', rt_verb = ''POST'', rt_segments = [''pay'', ''*'']\<rparr>"
  let ?f = "\<lparr>rt_tree = ''billing'', rt_handler = ''fallback'', rt_verb = ''ANY'', rt_segments = [''*'', ''*'']\<rparr>"
  let ?q = "JObj [(''sender'', JStr ''pay''), (''verb'', JStr ''POST''), (''path'', JStr ''/pay/7''), (''segments'', json_strs [''pay'', ''*''])]"
  have "routes_of sample_surfaces = [?c, ?f]" by code_simp
  then have "reachable_routes sample_surfaces ''shop'' ''POST'' [''pay'', ''*''] = {?c, ?f}"
    by (auto simp: reachable_routes_def reaches_def)
  moreover have "literals ?f \<le> literals ?c" by (simp add: literals_def)
  moreover have "(''shop'', JObj [(''requests'', JArr [?q])]) \<in> set sample_surfaces" by (simp add: sample_surfaces_def)
  moreover have "?q \<in> set (elements (JObj [(''requests'', JArr [?q])]) ''requests'')" by (simp add: elements_def)
  moreover have "segments (json_index ?q ''segments'') = [''pay'', ''*'']" by (simp add: segments_def)
  ultimately show ?thesis
    by (subst links_exact, intro exI [of _ "''shop''"] exI [of _ "JObj [(''requests'', JArr [?q])]"] exI [of _ ?q]
      exI [of _ "''pay''"] exI [of _ "''POST''"] exI [of _ ?c]) simp
qed

text \<open>
  The impact of a change lists every caller and no other: an entry is reported for exactly
  the changed symbols some link points at, and its callers are those links in their order.
\<close>

theorem callers_exact:
  "e \<in> set (callers_of_changes ls changed) \<longleftrightarrow>
     (\<exists>t symbols symbol. (t, symbols) \<in> set changed \<and> symbol \<in> set symbols \<and>
        (\<exists>l\<in>set ls. json_index l ''to_tree'' = JStr t \<and> json_index l ''handler'' = JStr symbol) \<and>
        e = JObj [(''tree'', JStr t), (''handler'', JStr symbol), (''callers'', JArr (map caller
          (filter (\<lambda>l. json_index l ''to_tree'' = JStr t \<and> json_index l ''handler'' = JStr symbol) ls)))])"
proof -
  let ?hit = "\<lambda>t symbol l. json_index l ''to_tree'' = JStr t \<and> json_index l ''handler'' = JStr symbol"
  have "e \<in> set (callers_of_changes ls changed) \<longleftrightarrow>
     (\<exists>t symbols symbol. (t, symbols) \<in> set changed \<and> symbol \<in> set symbols \<and> filter (?hit t symbol) ls \<noteq> [] \<and>
        e = JObj [(''tree'', JStr t), (''handler'', JStr symbol), (''callers'', JArr (map caller (filter (?hit t symbol) ls)))])"
    by (force simp: callers_of_changes_def Let_def split: if_splits)
  moreover have "filter (?hit t symbol) ls \<noteq> [] \<longleftrightarrow> (\<exists>l\<in>set ls. ?hit t symbol l)" for t symbol
    by (auto simp: filter_empty_conv)
  ultimately show ?thesis by simp
qed

end
