(* ===== verification/Audit_Log.thy ===== *)
theory Audit_Log
  imports Sha256 Json
begin

text \<open>
  \<^verbatim>\<open>src/audit.rs\<close>: the audit records and their rendering as JSON lines, the signed hash
  chain over two log segments with its rotation, the verification of the chain, the
  timeline, the ingest of remote events, and the bounded queue in front of the writer. Parsing a
  line is left to a library and is a parameter (\<open>from_str\<close>). The log is two files,
  the current segment and the one retained from before the last rotation; a call that holds the
  lock is one step.
\<close>

subsection \<open>Records\<close>

record audit_record =
  a_ts :: nat
  a_who :: "string option"
  a_tree :: "string option"
  a_method :: string
  a_path :: string
  a_status :: nat
  a_bytes :: nat
  a_duration_ms :: nat
  a_client_addr :: string

text \<open>
  The characters to escape are ASCII, or the control characters U+0080 to U+009F, which
  UTF-8 writes as the byte \<open>0xC2\<close> and the byte of their number.
\<close>

definition escape_byte :: "char \<Rightarrow> string" where
  "escape_byte c =
     (if c = quote_char then [backslash, quote_char] else if c = backslash then [backslash, backslash]
      else if c = nl then backslash # ''n'' else if c = CHR 0x0D then backslash # ''r''
      else if c = CHR 0x09 then backslash # ''t''
      else if byte c < 32 \<or> byte c = 127 then backslash # ''u00'' @ hex_byte c
      else [c])"

fun escape_json :: "string \<Rightarrow> string" where
  "escape_json [] = []"
| "escape_json [c] = escape_byte c"
| "escape_json (c # d # s) =
     (if byte c = 194 \<and> 128 \<le> byte d \<and> byte d < 160 then (backslash # ''u00'') @ hex_byte d @ escape_json s
      else escape_byte c @ escape_json (d # s))"

definition in_quotes :: "string \<Rightarrow> string" where
  "in_quotes s = quote_char # escape_json s @ [quote_char]"

definition key_of :: "string \<Rightarrow> string" where
  "key_of k = quote_char # k @ [quote_char, CHR '':'']"

definition or_null :: "string option \<Rightarrow> string" where
  "or_null x = (case x of None \<Rightarrow> ''null'' | Some s \<Rightarrow> in_quotes s)"

definition format_jsonl :: "audit_record \<Rightarrow> nat \<Rightarrow> string" where
  "format_jsonl r missed =
     ''{'' @ key_of ''ts'' @ dec_str (a_ts r) @ '','' @ key_of ''who'' @ or_null (a_who r) @
     '','' @ key_of ''tree'' @ or_null (a_tree r) @ '','' @ key_of ''method'' @ in_quotes (a_method r) @
     '','' @ key_of ''path'' @ in_quotes (a_path r) @ '','' @ key_of ''status'' @ dec_str (a_status r) @
     '','' @ key_of ''bytes'' @ dec_str (a_bytes r) @ '','' @ key_of ''duration_ms'' @ dec_str (a_duration_ms r) @
     '','' @ key_of ''client_addr'' @ in_quotes (a_client_addr r) @
     (if missed > 0 then '','' @ key_of ''dropped_before'' @ dec_str missed else []) @ ''}''"

subsection \<open>The log\<close>

record audit_log =
  al_current :: "string option"
  al_backup :: "string option"

definition max_bytes :: nat where
  "max_bytes = 10 * 1024 * 1024"

definition is_hmac :: "string \<Rightarrow> bool" where
  "is_hmac h \<longleftrightarrow> length h = 64 \<and> list_all is_ascii_hexdigit h"

definition line_hmac :: "(string \<Rightarrow> json option) \<Rightarrow> string \<Rightarrow> string option" where
  "line_hmac from_str line = (case from_str line of None \<Rightarrow> None | Some v \<Rightarrow>
     (case json_get ''hmac'' v of None \<Rightarrow> None | Some h \<Rightarrow>
        (case as_str h of None \<Rightarrow> None | Some s \<Rightarrow> if is_hmac s then Some s else None)))"

text \<open>\<^verbatim>\<open>iter().find_map(f)\<close>\<close>

fun find_map :: "('a \<Rightarrow> 'b option) \<Rightarrow> 'a list \<Rightarrow> 'b option" where
  "find_map f [] = None"
| "find_map f (x # xs) = (case f x of None \<Rightarrow> find_map f xs | Some y \<Rightarrow> Some y)"

definition last_hmac :: "(string \<Rightarrow> json option) \<Rightarrow> audit_log \<Rightarrow> string option" where
  "last_hmac from_str fs = find_map (\<lambda>segment. case segment of None \<Rightarrow> None
     | Some s \<Rightarrow> find_map (line_hmac from_str) (rev (lines s))) [al_current fs, al_backup fs]"

definition signed_line :: "string \<Rightarrow> string \<Rightarrow> string \<Rightarrow> string" where
  "signed_line previous event hmac =
     ''{'' @ key_of ''event'' @ event @ '','' @ key_of ''previous_hmac'' @ (quote_char # previous @ [quote_char]) @
     '','' @ key_of ''hmac'' @ (quote_char # hmac @ [quote_char]) @ ''}''"

text \<open>A rename that fails (\<open>renames = False\<close>) is ignored, and the segment grows on.\<close>

definition rotate :: "bool \<Rightarrow> audit_log \<Rightarrow> audit_log" where
  "rotate renames fs = (case al_current fs of None \<Rightarrow> fs
     | Some s \<Rightarrow> if max_bytes \<le> length s \<and> renames then \<lparr>al_current = None, al_backup = Some s\<rparr> else fs)"

definition append_line :: "string \<Rightarrow> audit_log \<Rightarrow> audit_log" where
  "append_line l fs = fs\<lparr>al_current := Some ((case al_current fs of None \<Rightarrow> [] | Some s \<Rightarrow> s) @ l @ [nl])\<rparr>"

text \<open>\<open>io\<close> says whether the rename worked and whether the line could be written.\<close>

definition write_record_locked :: "(string \<Rightarrow> json option) \<Rightarrow> bool \<times> bool \<Rightarrow> string option \<Rightarrow> audit_record \<Rightarrow> nat \<Rightarrow> audit_log \<Rightarrow>
    (unit, string option) result \<times> audit_log" where
  "write_record_locked from_str io key r missed fs =
     (let fs' = rotate (fst io) fs; event = format_jsonl r missed;
          (line, next) = (case key of
             Some k \<Rightarrow> let previous = (case last_hmac from_str fs' of None \<Rightarrow> [] | Some h \<Rightarrow> h);
                          h = hmac_sha256_hex k (previous @ nl # event)
                      in (signed_line previous event h, Some h)
           | None \<Rightarrow> (event, None))
      in if snd io then (Inr next, append_line line fs') else (Inl (), fs'))"

text \<open>The lock around it: \<open>lock\<close> and \<open>unlock\<close> say whether taking and releasing it worked.\<close>

definition write_record :: "(string \<Rightarrow> json option) \<Rightarrow> bool \<times> (bool \<times> bool) \<times> bool \<Rightarrow> string option \<Rightarrow> audit_record \<Rightarrow> nat \<Rightarrow> audit_log \<Rightarrow>
    (unit, string option) result \<times> audit_log" where
  "write_record from_str io key r missed fs =
     (case io of (lock, inner, unlock) \<Rightarrow>
        if \<not> lock then (Inl (), fs)
        else (case write_record_locked from_str inner key r missed fs of
                (Inr next, fs') \<Rightarrow> (if unlock then (Inr next, fs') else (Inl (), fs'))
              | (Inl e, fs') \<Rightarrow> (Inl e, fs')))"

subsection \<open>Reading a record back\<close>

datatype audit_error =
  ShortKey | NoSegment | InvalidJson nat | BadEvent nat | Unsigned nat | Discontinuity nat | Mismatch nat
| EventTooLong | BadSignature | BadEventJson | NotAnObject | AppendFailed | NoLog

definition field_num :: "(string \<times> json) list \<Rightarrow> string \<Rightarrow> nat option" where
  "field_num event k = Option.bind (map_of event k) as_u64"

definition field_str :: "(string \<times> json) list \<Rightarrow> string \<Rightarrow> string option" where
  "field_str event k = Option.bind (map_of event k) as_str"

definition field_opt :: "(string \<times> json) list \<Rightarrow> string \<Rightarrow> string option option" where
  "field_opt event k = (case map_of event k of
     Some (JStr s) \<Rightarrow> Some (Some s) | Some JNull \<Rightarrow> Some None | _ \<Rightarrow> None)"

text \<open>
  Which field was wrong is only text in the message, so a single error stands for them all;
  \<^verbatim>\<open>status\<close> must fit 16 bits, a byte count any 64 bits.
\<close>

definition canonical_event :: "json \<Rightarrow> string option" where
  "canonical_event entry =
     Option.bind (Option.bind (json_get ''event'' entry) as_object) (\<lambda>event.
     Option.bind (field_num event ''status'') (\<lambda>status. if \<not> status < 2 ^ 16 then None else
     Option.bind (field_num event ''bytes'') (\<lambda>bytes.
     Option.bind (field_num event ''ts'') (\<lambda>ts.
     Option.bind (field_opt event ''who'') (\<lambda>who.
     Option.bind (field_opt event ''tree'') (\<lambda>tr.
     Option.bind (field_str event ''method'') (\<lambda>meth.
     Option.bind (field_str event ''path'') (\<lambda>path.
     Option.bind (field_num event ''duration_ms'') (\<lambda>dur.
     Option.bind (field_str event ''client_addr'') (\<lambda>addr.
       Some (format_jsonl \<lparr>a_ts = ts, a_who = who, a_tree = tr, a_method = meth, a_path = path, a_status = status,
               a_bytes = bytes, a_duration_ms = dur, a_client_addr = addr\<rparr>
             (case field_num event ''dropped_before'' of None \<Rightarrow> 0 | Some n \<Rightarrow> n))))))))))))"

subsection \<open>Verification\<close>

text \<open>One line: the hash it must follow is \<open>previous\<close>, and its own is the result.\<close>

definition verify_line :: "(string \<Rightarrow> json option) \<Rightarrow> string \<Rightarrow> string \<Rightarrow> nat \<Rightarrow> string \<Rightarrow> (audit_error, string) result" where
  "verify_line from_str key previous n line =
     (case from_str line of None \<Rightarrow> Inl (InvalidJson n) | Some v \<Rightarrow>
     (case canonical_event v of None \<Rightarrow> Inl (BadEvent n) | Some event \<Rightarrow>
     (case Option.bind (json_get ''previous_hmac'' v) as_str of None \<Rightarrow> Inl (Unsigned n) | Some recorded_previous \<Rightarrow>
     (case Option.bind (json_get ''hmac'' v) as_str of None \<Rightarrow> Inl (Unsigned n) | Some recorded_hmac \<Rightarrow>
        if \<not> constant_time_eq recorded_previous previous then Inl (Discontinuity n)
        else if \<not> constant_time_eq recorded_hmac (hmac_sha256_hex key (previous @ nl # event)) then Inl (Mismatch n)
        else Inr recorded_hmac))))"

fun verify_lines :: "(string \<Rightarrow> json option) \<Rightarrow> string \<Rightarrow> nat \<Rightarrow> string list \<Rightarrow> string \<times> nat \<Rightarrow> (audit_error, string \<times> nat) result" where
  "verify_lines from_str key n [] acc = Inr acc"
| "verify_lines from_str key n (l # ls) (previous, count) =
     (case verify_line from_str key previous (n + 1) l of Inl e \<Rightarrow> Inl e
      | Inr h \<Rightarrow> verify_lines from_str key (n + 1) ls (h, count + 1))"

definition verify_segment :: "(string \<Rightarrow> json option) \<Rightarrow> string \<Rightarrow> string option \<Rightarrow> string \<times> nat \<Rightarrow> (audit_error, string \<times> nat) result" where
  "verify_segment from_str key segment acc = (case segment of None \<Rightarrow> Inl NoSegment
     | Some s \<Rightarrow> verify_lines from_str key 0 (lines s) acc)"

definition verify :: "(string \<Rightarrow> json option) \<Rightarrow> string \<Rightarrow> audit_log \<Rightarrow> (audit_error, nat) result" where
  "verify from_str key fs =
     (if length key < 32 then Inl ShortKey
      else case (case al_backup fs of None \<Rightarrow> Inr ([], 0) | Some s \<Rightarrow> verify_segment from_str key (Some s) ([], 0)) of
          Inl e \<Rightarrow> Inl e
        | Inr acc \<Rightarrow> (case verify_segment from_str key (al_current fs) acc of Inl e \<Rightarrow> Inl e | Inr (_, count) \<Rightarrow> Inr count))"

subsection \<open>The timeline and the ingest\<close>

definition recent :: "(string \<Rightarrow> json option) \<Rightarrow> audit_log \<Rightarrow> nat \<Rightarrow> (json \<Rightarrow> bool) \<Rightarrow> (audit_error, json list) result" where
  "recent from_str fs limit keep = (case al_current fs of None \<Rightarrow> Inl NoLog
     | Some s \<Rightarrow> Inr (take (min limit 200) (filter keep (List.map_filter from_str (rev (lines s))))))"

definition append_remote_event :: "(string \<Rightarrow> json option) \<Rightarrow> bool \<Rightarrow> string \<Rightarrow> string \<Rightarrow> string \<Rightarrow> audit_log \<Rightarrow> (audit_error, unit) result \<times> audit_log" where
  "append_remote_event from_slice io event signature key fs =
     (if 1024 * 1024 < length event then (Inl EventTooLong, fs)
      else if \<not> constant_time_eq (''sha256='' @ hmac_sha256_hex key event) signature then (Inl BadSignature, fs)
      else case from_slice event of None \<Rightarrow> (Inl BadEventJson, fs) | Some v \<Rightarrow>
        if as_object v = None then (Inl NotAnObject, fs)
        else if \<not> io then (Inl AppendFailed, fs) else (Inr (), append_line event fs))"

subsection \<open>Rendering is unambiguous\<close>

definition push :: "string \<Rightarrow> string \<times> string \<Rightarrow> string \<times> string" where
  "push x p = (x @ fst p, snd p)"

text \<open>The inverse of \<open>escape_json\<close>: what a reader makes of the text up to the closing quote.\<close>

fun unescape :: "string \<Rightarrow> string \<times> string" where
  "unescape (c # s) =
     (if c = quote_char then ([], s)
      else if c = backslash then (case s of
          d # s' \<Rightarrow>
            if d = CHR ''n'' then push [nl] (unescape s')
            else if d = CHR ''r'' then push [CHR 0x0D] (unescape s')
            else if d = CHR ''t'' then push [CHR 0x09] (unescape s')
            else if d = CHR ''u'' then (case s' of
                _ # _ # h # l # s'' \<Rightarrow>
                  let v = 16 * the (hex_digit_val h) + the (hex_digit_val l)
                  in push (if v < 128 then [char_of v] else [char_of (194::nat), char_of v]) (unescape s'')
              | _ \<Rightarrow> ([], []))
            else push [d] (unescape s')
        | [] \<Rightarrow> ([], []))
      else push [c] (unescape s))"
| "unescape [] = ([], [])"

lemma char_of_byte [simp]: "char_of (byte c) = c"
  by (simp add: byte_def)

lemma hex_byte_val: "16 * the (hex_digit_val (hex_char (byte c div 16))) + the (hex_digit_val (hex_char (byte c mod 16))) = byte c"
  by simp

lemma unescape_u: "unescape (backslash # ''u00'' @ hex_byte c @ x) =
    push (if byte c < 128 then [c] else [char_of (194::nat), c]) (unescape x)"
  using hex_byte_val [of c] by (simp add: hex_byte_def Let_def)

lemma unescape_byte: "unescape (escape_byte c @ x) = push [c] (unescape x)"
proof -
  consider "c = quote_char" | "c = backslash" | "c = nl" | "c = CHR 0x0D" | "c = CHR 0x09"
    | "c \<notin> {quote_char, backslash, nl, CHR 0x0D, CHR 0x09}" by auto
  then show ?thesis
  proof cases
    case 6
    then show ?thesis using unescape_u [of c x] by (auto simp: escape_byte_def)
  qed (simp_all add: escape_byte_def)
qed

lemma unescape_escape: "unescape (escape_json s @ quote_char # x) = (s, x)"
proof (induction s rule: escape_json.induct)
  case (3 c d s)
  show ?case
  proof (cases "byte c = 194 \<and> 128 \<le> byte d \<and> byte d < 160")
    case True
    then have "char_of (194::nat) = c" using char_of_byte [of c] by simp
    then show ?thesis using True 3 unescape_u [of d "escape_json s @ quote_char # x"] by (simp add: push_def)
  next
    case False
    then have "escape_json (c # d # s) = escape_byte c @ escape_json (d # s)" by auto
    then show ?thesis using 3(2) [OF False] by (simp add: unescape_byte push_def)
  qed
qed (simp_all add: unescape_byte push_def)

lemma in_quotes_iff: "in_quotes s @ x = in_quotes t @ y \<longleftrightarrow> s = t \<and> x = y"
proof
  assume "in_quotes s @ x = in_quotes t @ y"
  then have "escape_json s @ quote_char # x = escape_json t @ quote_char # y" by (simp add: in_quotes_def)
  then have "unescape (escape_json s @ quote_char # x) = unescape (escape_json t @ quote_char # y)" by (rule arg_cong)
  then show "s = t \<and> x = y" by (simp only: unescape_escape prod.inject)
qed simp

lemma or_null_iff: "or_null a @ x = or_null b @ y \<longleftrightarrow> a = b \<and> x = y"
proof (cases a; cases b)
  fix s t assume "a = Some s" "b = Some t"
  then show ?thesis using in_quotes_iff [of s x t y] by (simp add: or_null_def)
qed (auto simp: or_null_def in_quotes_def)

lemma dec_comma_iff: "dec_str m @ CHR '','' # x = dec_str n @ CHR '','' # y \<longleftrightarrow> m = n \<and> x = y"
proof
  have t: "takeWhile is_ascii_digit (dec_str k @ CHR '','' # z) = dec_str k" for k z
    using dec_str_digits [of k] by (simp add: list_all_iff takeWhile_append2 is_ascii_digit_def byte_def)
  assume e: "dec_str m @ CHR '','' # x = dec_str n @ CHR '','' # y"
  then have "dec_str m = dec_str n" using t [of m x] t [of n y] by simp
  then show "m = n \<and> x = y" using e by (simp add: dec_str_inject)
qed simp

lemma format_jsonl_iff: "format_jsonl r m = format_jsonl r' m' \<longleftrightarrow> r = r' \<and> m = m'"
proof
  assume "format_jsonl r m = format_jsonl r' m'"
  then have "a_ts r = a_ts r' \<and> a_who r = a_who r' \<and> a_tree r = a_tree r' \<and> a_method r = a_method r' \<and> a_path r = a_path r' \<and>
      a_status r = a_status r' \<and> a_bytes r = a_bytes r' \<and> a_duration_ms r = a_duration_ms r' \<and> a_client_addr r = a_client_addr r' \<and>
      (if m > 0 then '','' @ key_of ''dropped_before'' @ dec_str m else []) @ ''}'' =
      (if m' > 0 then '','' @ key_of ''dropped_before'' @ dec_str m' else []) @ ''}''"
    unfolding format_jsonl_def by (simp only: append_Cons append_Nil list.inject simp_thms same_append_eq dec_comma_iff or_null_iff in_quotes_iff append_assoc)
  moreover from this have "m = m'" by (simp add: dec_str_inject split: if_splits)
  ultimately show "r = r' \<and> m = m'" by (cases r; cases r') simp
qed simp

lemma escape_byte_set: "c' \<in> set (escape_byte c) \<Longrightarrow> 32 \<le> byte c'"
proof -
  have "32 \<le> byte (hex_char n)" if "n < 16" for n using byte_hex_char [OF that] by simp
  then show "c' \<in> set (escape_byte c) \<Longrightarrow> 32 \<le> byte c'"
    by (auto simp: escape_byte_def hex_byte_def byte_def split: if_splits)
qed

lemma hex_byte_set: "c' \<in> set (hex_byte c) \<Longrightarrow> 32 \<le> byte c'"
proof -
  have "32 \<le> byte (hex_char n)" if "n < 16" for n using byte_hex_char [OF that] by simp
  then show "c' \<in> set (hex_byte c) \<Longrightarrow> 32 \<le> byte c'" by (auto simp: hex_byte_def)
qed

lemma escape_json_set: "c' \<in> set (escape_json s) \<Longrightarrow> 32 \<le> byte c'"
proof (induction s rule: escape_json.induct)
  case (3 c d s)
  show ?case
  proof (cases "byte c = 194 \<and> 128 \<le> byte d \<and> byte d < 160")
    case True
    then have "escape_json (c # d # s) = (backslash # ''u00'') @ hex_byte d @ escape_json s" by simp
    then show ?thesis using 3(1) [OF True] 3(3) hex_byte_set [of c' d] by (auto simp: byte_def)
  next
    case False
    then have "escape_json (c # d # s) = escape_byte c @ escape_json (d # s)" by auto
    then show ?thesis using 3(2) [OF False] 3(3) escape_byte_set [of c' c] by auto
  qed
qed (auto dest: escape_byte_set)

lemma dec_str_set: "c' \<in> set (dec_str n) \<Longrightarrow> 32 \<le> byte c'"
  using dec_str_digits [of n] by (auto simp: list_all_iff is_ascii_digit_def byte_def)

lemma plain_set: "c' \<in> set s \<Longrightarrow> list_all (\<lambda>c. 32 \<le> byte c) s \<Longrightarrow> 32 \<le> byte c'"
  by (auto simp: list_all_iff)

lemma format_jsonl_set: "c' \<in> set (format_jsonl r m) \<Longrightarrow> 32 \<le> byte c'"
proof -
  have q: "32 \<le> byte c'" if "c' \<in> set (in_quotes x)" for x
    using that escape_json_set [of c' x] by (auto simp: in_quotes_def byte_def)
  have n: "32 \<le> byte c'" if "c' \<in> set (or_null x)" for x
    using that q by (auto simp: or_null_def byte_def split: option.splits)
  show "c' \<in> set (format_jsonl r m) \<Longrightarrow> 32 \<le> byte c'"
    unfolding format_jsonl_def set_append Un_iff
    by (elim disjE) (auto simp: key_of_def split: if_splits intro: q n dec_str_set, simp_all add: byte_def)
qed

subsection \<open>The chain\<close>

text \<open>
  The hash chain over a list of events: each entry holds the hash before it, the event, and
  the code of both. \<open>prev_at\<close> is the hash before the \<open>i\<close>-th.
\<close>

fun chain :: "(string \<Rightarrow> string) \<Rightarrow> string \<Rightarrow> string list \<Rightarrow> (string \<times> string \<times> string) list" where
  "chain mac p [] = []"
| "chain mac p (e # es) = (p, e, mac (p @ nl # e)) # chain mac (mac (p @ nl # e)) es"

primrec prev_at :: "(string \<Rightarrow> string) \<Rightarrow> string list \<Rightarrow> nat \<Rightarrow> string" where
  "prev_at mac es 0 = []"
| "prev_at mac es (Suc i) = mac (prev_at mac es i @ nl # es ! i)"

definition messages :: "(string \<Rightarrow> string) \<Rightarrow> string list \<Rightarrow> string set" where
  "messages mac es = {prev_at mac es i @ nl # es ! i | i. i < length es}"

lemma length_chain [simp]: "length (chain mac p es) = length es"
  by (induction mac p es rule: chain.induct) simp_all

lemma chain_Nil_iff [simp]: "chain mac p es = [] \<longleftrightarrow> es = []" "[] = chain mac p es \<longleftrightarrow> es = []"
  by (cases es; simp)+

lemma chain_snoc: "chain mac p (es @ [e]) = chain mac p es @
    [let q = (if es = [] then p else snd (snd (last (chain mac p es)))) in (q, e, mac (q @ nl # e))]"
  by (induction mac p es rule: chain.induct) (simp_all add: Let_def)

lemma prev_at_append: "i \<le> length es \<Longrightarrow> prev_at mac (es @ fs) i = prev_at mac es i"
  by (induction i) (simp_all add: nth_append)

lemma prev_at_take: "k \<le> length es \<Longrightarrow> prev_at mac es k = prev_at mac (take k es) k"
  using prev_at_append [of k "take k es" mac "drop k es"] by (simp only: append_take_drop_id length_take min.absorb2 order_refl simp_thms)

lemma last_chain: "es \<noteq> [] \<Longrightarrow> snd (snd (last (chain mac [] es))) = prev_at mac es (length es)"
proof (induction es rule: rev_induct)
  case (snoc e es)
  then show ?case by (cases "es = []") (simp_all add: chain_snoc Let_def prev_at_append)
qed simp

lemma chain_from:
  "i < length es \<Longrightarrow> chain mac [] es ! i = (prev_at mac es i, es ! i, mac (prev_at mac es i @ nl # es ! i))"
proof (induction es arbitrary: i rule: rev_induct)
  case (snoc e es)
  show ?case
  proof (cases "i < length es")
    case True
    then show ?thesis using snoc.IH [OF True] by (simp add: chain_snoc nth_append prev_at_append)
  next
    case False
    then have "i = length es" using snoc.prems by simp
    then show ?thesis using last_chain [of es mac] by (cases "es = []") (simp_all add: chain_snoc nth_append prev_at_append Let_def)
  qed
qed simp

lemma messages_chain: "messages mac es = {p @ nl # e | p e. (p, e, mac (p @ nl # e)) \<in> set (chain mac [] es)}"
proof -
  have "(p, e, mac (p @ nl # e)) \<in> set (chain mac [] es) \<longleftrightarrow> (\<exists>i<length es. p = prev_at mac es i \<and> e = es ! i)" for p e
    by (auto simp: in_set_conv_nth chain_from)
  then show ?thesis by (auto simp: messages_def)
qed

lemma take_chain: "chain mac p (take n es) = take n (chain mac p es)"
  by (induction mac p es arbitrary: n rule: chain.induct) (simp_all add: take_Cons')

locale keyed_mac =
  fixes mac :: "string \<Rightarrow> string"
  assumes mac_shape: "is_hmac (mac m)"
begin

lemma mac_no_nl: "nl \<notin> set (mac m)"
  using mac_shape [of m] by (auto simp: is_hmac_def list_all_iff ascii_class_defs byte_def)

lemma mac_nonempty: "mac m \<noteq> []" "[] \<noteq> mac m"
  using mac_shape [of m] by (auto simp: is_hmac_def)

lemma prev_no_nl: "nl \<notin> set (prev_at mac es i)"
  by (cases i) (simp_all add: mac_no_nl)

lemma message_inject: "prev_at mac es i @ nl # e = prev_at mac fs j @ nl # f \<longleftrightarrow> prev_at mac es i = prev_at mac fs j \<and> e = f"
proof
  assume "prev_at mac es i @ nl # e = prev_at mac fs j @ nl # f"
  then have "split_once nl (prev_at mac es i @ nl # e) = split_once nl (prev_at mac fs j @ nl # f)" by (rule arg_cong)
  then show "prev_at mac es i = prev_at mac fs j \<and> e = f"
    by (simp only: split_once_append [OF prev_no_nl] option.inject prod.inject)
qed simp

lemma prev_inject:
  assumes "inj_on mac (messages mac ws)"
  shows "\<lbrakk>i \<le> length ws; j \<le> length ws; prev_at mac ws i = prev_at mac ws j\<rbrakk> \<Longrightarrow> i = j"
proof (induction i arbitrary: j)
  case 0
  then show ?case using mac_nonempty by (cases j) auto
next
  case (Suc i)
  then obtain j' where j: "j = Suc j'" using mac_nonempty by (cases j) auto
  have "prev_at mac ws i @ nl # ws ! i \<in> messages mac ws" "prev_at mac ws j' @ nl # ws ! j' \<in> messages mac ws"
    using Suc.prems(1,2) j by (auto simp: messages_def Suc_le_eq)
  moreover have "mac (prev_at mac ws i @ nl # ws ! i) = mac (prev_at mac ws j' @ nl # ws ! j')" using Suc.prems(3) j by simp
  ultimately have "prev_at mac ws i @ nl # ws ! i = prev_at mac ws j' @ nl # ws ! j'" using assms by (meson inj_onD)
  then show ?case using Suc.IH [of j'] Suc.prems j by (simp add: message_inject)
qed

text \<open>A chain all of whose messages were signed is an initial part of the one that was.\<close>

lemma chain_prefix:
  assumes inj: "inj_on mac (messages mac ws)" and sub: "messages mac es \<subseteq> messages mac ws"
  shows "es = take (length es) ws"
proof -
  have "k \<le> length es \<Longrightarrow> k \<le> length ws \<and> take k es = take k ws" for k
  proof (induction k)
    case (Suc k)
    then have k: "k < length es" "k \<le> length ws" "take k es = take k ws" by simp_all
    have p: "prev_at mac es k = prev_at mac ws k"
      using prev_at_take [of k es mac] prev_at_take [of k ws mac] k by simp
    have "prev_at mac es k @ nl # es ! k \<in> messages mac ws" using sub k(1) by (auto simp: messages_def)
    then obtain j where j: "j < length ws" "prev_at mac ws k = prev_at mac ws j" "es ! k = ws ! j"
      by (auto simp: messages_def message_inject p)
    then have "k = j" using prev_inject [OF inj k(2)] by simp
    then show ?case using j k by (simp add: take_Suc_conv_app_nth)
  qed simp
  from this [of "length es"] show ?thesis by simp
qed

end

interpretation hmac: keyed_mac "hmac_sha256_hex key" for key
  by unfold_locales (use hmac_hex_shape in \<open>simp add: is_hmac_def is_hex64_def\<close>)

subsection \<open>What verification accepts\<close>

definition log_lines :: "audit_log \<Rightarrow> string list" where
  "log_lines fs = (case al_backup fs of None \<Rightarrow> [] | Some s \<Rightarrow> lines s) @ (case al_current fs of None \<Rightarrow> [] | Some s \<Rightarrow> lines s)"

text \<open>What a line claims: the hash before it, its event in canonical form, its own hash.\<close>

definition line_entry :: "(string \<Rightarrow> json option) \<Rightarrow> string \<Rightarrow> (string \<times> string \<times> string) option" where
  "line_entry from_str l =
     (case from_str l of None \<Rightarrow> None | Some v \<Rightarrow>
     (case canonical_event v of None \<Rightarrow> None | Some e \<Rightarrow>
     (case Option.bind (json_get ''previous_hmac'' v) as_str of None \<Rightarrow> None | Some p \<Rightarrow>
     (case Option.bind (json_get ''hmac'' v) as_str of None \<Rightarrow> None | Some h \<Rightarrow> Some (p, e, h)))))"

lemma verify_line_iff:
  "verify_line from_str key p n l = Inr h \<longleftrightarrow>
     (\<exists>e. line_entry from_str l = Some (p, e, h) \<and> h = hmac_sha256_hex key (p @ nl # e))"
  by (auto simp: verify_line_def line_entry_def split: option.splits)

lemma verify_lines_iff:
  "verify_lines from_str key n ls (p, c) = Inr (q, d) \<longleftrightarrow>
     (\<exists>es. map (line_entry from_str) ls = map Some (chain (hmac_sha256_hex key) p es) \<and> d = c + length es \<and>
        q = (if es = [] then p else snd (snd (last (chain (hmac_sha256_hex key) p es)))))"
proof (induction ls arbitrary: n p c)
  case Nil
  show ?case by (auto intro: exI [of _ "[]"])
next
  case (Cons l ls)
  show ?case
  proof (cases "verify_line from_str key p (n + 1) l")
    case (Inl e)
    then have "line_entry from_str l \<noteq> Some (p, e, hmac_sha256_hex key (p @ nl # e))" for e
      using verify_line_iff [of from_str key p "n + 1" l] by (metis Inl_Inr_False)
    then show ?thesis using Inl [simplified] by (auto simp: map_eq_Cons_conv neq_Nil_conv elim!: chain.elims)
  next
    case (Inr h)
    then obtain e where e: "line_entry from_str l = Some (p, e, h)" "h = hmac_sha256_hex key (p @ nl # e)"
      by (auto simp: verify_line_iff)
    show ?thesis
    proof
      assume "verify_lines from_str key n (l # ls) (p, c) = Inr (q, d)"
      then have "verify_lines from_str key (n + 1) ls (h, c + 1) = Inr (q, d)" by (simp add: Inr [simplified])
      then obtain es where "map (line_entry from_str) ls = map Some (chain (hmac_sha256_hex key) h es)" "d = c + 1 + length es"
        "q = (if es = [] then h else snd (snd (last (chain (hmac_sha256_hex key) h es))))" using Cons.IH by blast
      then show "\<exists>es. map (line_entry from_str) (l # ls) = map Some (chain (hmac_sha256_hex key) p es) \<and> d = c + length es \<and>
        q = (if es = [] then p else snd (snd (last (chain (hmac_sha256_hex key) p es))))"
        using e by (intro exI [of _ "e # es"]) (cases es; simp)
    next
      assume "\<exists>es. map (line_entry from_str) (l # ls) = map Some (chain (hmac_sha256_hex key) p es) \<and> d = c + length es \<and>
        q = (if es = [] then p else snd (snd (last (chain (hmac_sha256_hex key) p es))))"
      then obtain es where a: "map (line_entry from_str) (l # ls) = map Some (chain (hmac_sha256_hex key) p es)" "d = c + length es"
        "q = (if es = [] then p else snd (snd (last (chain (hmac_sha256_hex key) p es))))" by blast
      then obtain e' es' where es: "es = e' # es'" by (cases es) simp_all
      have "e' = e" using a(1) e by (simp add: es)
      then have "verify_lines from_str key (n + 1) ls (h, c + 1) = Inr (q, d)"
        using a e by (subst Cons.IH) (auto simp: es intro!: exI [of _ es'])
      then show "verify_lines from_str key n (l # ls) (p, c) = Inr (q, d)" by (simp add: Inr [simplified])
    qed
  qed
qed

definition chain_end :: "(string \<Rightarrow> string) \<Rightarrow> string \<Rightarrow> string list \<Rightarrow> string" where
  "chain_end mac p es = (if es = [] then p else snd (snd (last (chain mac p es))))"

lemma chain_end_simps [simp]: "chain_end mac p [] = p" "chain_end mac p (e # es) = chain_end mac (mac (p @ nl # e)) es"
  by (simp_all add: chain_end_def)

lemma chain_append: "chain mac p (es @ fs) = chain mac p es @ chain mac (chain_end mac p es) fs"
  by (induction es arbitrary: p) simp_all

lemma verify_segment_iff:
  "verify_segment from_str key (Some s) (p, c) = Inr (q, d) \<longleftrightarrow>
     (\<exists>es. map (line_entry from_str) (lines s) = map Some (chain (hmac_sha256_hex key) p es) \<and> d = c + length es \<and>
        q = chain_end (hmac_sha256_hex key) p es)"
  by (simp add: verify_segment_def verify_lines_iff chain_end_def)

lemma map_chain_append:
  "map f (xs @ ys) = map Some (chain mac p es) \<longleftrightarrow>
     (\<exists>as bs. es = as @ bs \<and> map f xs = map Some (chain mac p as) \<and> map f ys = map Some (chain mac (chain_end mac p as) bs))"
  (is "?l \<longleftrightarrow> ?r")
proof
  assume l: ?l
  let ?as = "take (length xs) es" and ?bs = "drop (length xs) es"
  have len: "length xs + length ys = length es" using arg_cong [OF l, of length] by simp
  have "map f xs @ map f ys = map Some (chain mac p ?as) @ map Some (chain mac (chain_end mac p ?as) ?bs)"
    using l by (simp only: map_append [symmetric] chain_append [symmetric] append_take_drop_id)
  then have "map f xs = map Some (chain mac p ?as) \<and> map f ys = map Some (chain mac (chain_end mac p ?as) ?bs)"
    by (subst (asm) append_eq_append_conv) (use len in simp_all)
  then show ?r by (intro exI [of _ ?as] exI [of _ ?bs]) simp
next
  assume ?r
  then show ?l by (auto simp: chain_append)
qed

lemma verify_iff:
  "verify from_str key fs = Inr n \<longleftrightarrow> 32 \<le> length key \<and> al_current fs \<noteq> None \<and>
     (\<exists>es. map (line_entry from_str) (log_lines fs) = map Some (chain (hmac_sha256_hex key) [] es) \<and> n = length es)"
proof (cases "al_current fs")
  case None
  then show ?thesis by (auto simp: verify_def verify_segment_def split: option.split sum.split)
next
  case (Some s)
  have first: "(case al_backup fs of None \<Rightarrow> Inr ([], 0) | Some t \<Rightarrow> verify_segment from_str key (Some t) ([], 0)) = Inr (q, d) \<longleftrightarrow>
      (\<exists>as. map (line_entry from_str) (case al_backup fs of None \<Rightarrow> [] | Some t \<Rightarrow> lines t) = map Some (chain (hmac_sha256_hex key) [] as) \<and>
         d = length as \<and> q = chain_end (hmac_sha256_hex key) [] as)" for q d
    by (cases "al_backup fs") (auto simp: verify_segment_iff)
  have "verify from_str key fs = Inr n \<longleftrightarrow> 32 \<le> length key \<and>
     (\<exists>q d. (case al_backup fs of None \<Rightarrow> Inr ([], 0) | Some t \<Rightarrow> verify_segment from_str key (Some t) ([], 0)) = Inr (q, d) \<and>
        (\<exists>q'. verify_segment from_str key (Some s) (q, d) = Inr (q', n)))"
    by (auto simp: verify_def Some not_less split: sum.splits)
  also have "\<dots> \<longleftrightarrow> 32 \<le> length key \<and> (\<exists>as bs.
      map (line_entry from_str) (case al_backup fs of None \<Rightarrow> [] | Some t \<Rightarrow> lines t) = map Some (chain (hmac_sha256_hex key) [] as) \<and>
      map (line_entry from_str) (lines s) = map Some (chain (hmac_sha256_hex key) (chain_end (hmac_sha256_hex key) [] as) bs) \<and>
      n = length as + length bs)"
    unfolding first verify_segment_iff by blast
  also have "\<dots> \<longleftrightarrow> 32 \<le> length key \<and>
      (\<exists>es. map (line_entry from_str) (log_lines fs) = map Some (chain (hmac_sha256_hex key) [] es) \<and> n = length es)"
  proof -
    have l: "log_lines fs = (case al_backup fs of None \<Rightarrow> [] | Some t \<Rightarrow> lines t) @ lines s" by (simp add: log_lines_def Some)
    show ?thesis unfolding l map_chain_append by (metis length_append)
  qed
  finally show ?thesis using Some by simp
qed

subsection \<open>Properties\<close>

text \<open>
  Every log line says which record it is. Two records with their drop counts are rendered
  the same only if they are the same, whatever quotes, escapes or control characters
  their fields hold, and a rendered record has no control character, so no field can
  end a line or begin another.
\<close>

theorem event_unambiguous:
  "(format_jsonl r m = format_jsonl r' m' \<longleftrightarrow> r = r' \<and> m = m') \<and> set (format_jsonl r m) \<inter> {c. byte c < 32} = {}"
  using format_jsonl_iff format_jsonl_set [of _ r m] by fastforce

text \<open>
  C25. A verified log is what was written, from its beginning and without a gap. Let \<open>ws\<close> be the
  events ever signed with the key, in order. If verification accepts, and no line carries a
  valid code for a message the writer never signed, and the codes of the signed messages
  differ, then the log's events are the first \<open>n\<close> of \<open>ws\<close>: none is missing, inserted, edited or
  moved, except that the newest may be cut off.
\<close>

theorem verified_log_is_prefix:
  assumes "verify from_str key fs = Inr n"
    and "inj_on (hmac_sha256_hex key) (messages (hmac_sha256_hex key) ws)"
    and "\<forall>p e. Some (p, e, hmac_sha256_hex key (p @ nl # e)) \<in> set (map (line_entry from_str) (log_lines fs)) \<longrightarrow>
           p @ nl # e \<in> messages (hmac_sha256_hex key) ws"
  shows "map (line_entry from_str) (log_lines fs) = map Some (take n (chain (hmac_sha256_hex key) [] ws))"
proof -
  let ?mac = "hmac_sha256_hex key"
  from assms(1) obtain es where es: "map (line_entry from_str) (log_lines fs) = map Some (chain ?mac [] es)" "n = length es"
    by (auto simp: verify_iff)
  have "messages ?mac es \<subseteq> messages ?mac ws"
    using assms(3) unfolding es(1) messages_chain by force
  from hmac.chain_prefix [OF assms(2) this] have "es = take n ws" using es(2) by simp
  then have "chain ?mac [] es = take n (chain ?mac [] ws)" by (metis take_chain)
  then show ?thesis using es(1) by simp
qed

text \<open>The value a signed line stands for.\<close>

definition str_or_null :: "string option \<Rightarrow> json" where
  "str_or_null x = (case x of None \<Rightarrow> JNull | Some s \<Rightarrow> JStr s)"

definition event_members :: "audit_record \<Rightarrow> nat \<Rightarrow> (string \<times> json) list" where
  "event_members r m =
     [(''ts'', JNum (int (a_ts r))), (''who'', str_or_null (a_who r)), (''tree'', str_or_null (a_tree r)),
      (''method'', JStr (a_method r)), (''path'', JStr (a_path r)), (''status'', JNum (int (a_status r))),
      (''bytes'', JNum (int (a_bytes r))), (''duration_ms'', JNum (int (a_duration_ms r))),
      (''client_addr'', JStr (a_client_addr r))] @
     (if m > 0 then [(''dropped_before'', JNum (int m))] else [])"

definition signed_doc :: "string \<Rightarrow> audit_record \<Rightarrow> nat \<Rightarrow> string \<Rightarrow> json" where
  "signed_doc p r m h = JObj [(''event'', JObj (event_members r m)), (''previous_hmac'', JStr p), (''hmac'', JStr h)]"

definition record_ok :: "audit_record \<Rightarrow> nat \<Rightarrow> bool" where
  "record_ok r m \<longleftrightarrow> a_ts r < 2 ^ 64 \<and> a_status r < 2 ^ 16 \<and> a_bytes r < 2 ^ 64 \<and> a_duration_ms r < 2 ^ 64 \<and> m < 2 ^ 64"

lemma field_opt_null: "map_of kvs k = Some (str_or_null x) \<Longrightarrow> field_opt kvs k = Some x"
  by (cases x) (simp_all add: field_opt_def str_or_null_def)

lemma canonical_signed: "record_ok r m \<Longrightarrow> canonical_event (signed_doc p r m h) = Some (format_jsonl r m)"
proof -
  assume ok: "record_ok r m"
  then have "a_status r < 2 ^ 64" by (simp add: record_ok_def)
  with ok show ?thesis
    by (cases r) (simp add: canonical_event_def signed_doc_def event_members_def field_num_def field_str_def record_ok_def
      field_opt_null)
qed

lemma line_entry_signed:
  "record_ok r m \<Longrightarrow> from_str l = Some (signed_doc p r m h) \<Longrightarrow> line_entry from_str l = Some (p, format_jsonl r m, h)"
  using canonical_signed by (simp add: line_entry_def) (simp add: signed_doc_def)

definition sample_record :: audit_record where
  "sample_record = \<lparr>a_ts = 1700000000, a_who = Some ''anna'', a_tree = Some ''alpha'', a_method = ''POST'', a_path = ''/mcp/alpha'',
     a_status = 200, a_bytes = 512, a_duration_ms = 12, a_client_addr = ''127.0.0.1:5000''\<rparr>"

lemma sample_record_ok: "record_ok sample_record 0"
  by (simp add: record_ok_def sample_record_def)

theorem verified_log_is_prefix_witness:
  "let key = replicate 32 (CHR ''k''); e = format_jsonl sample_record 0;
       from_str = (\<lambda>l. if l = ''x'' then Some (signed_doc [] sample_record 0 (hmac_sha256_hex key (nl # e))) else None);
       fs = \<lparr>al_current = Some (''x'' @ [nl]), al_backup = None\<rparr>
   in verify from_str key fs = Inr 1 \<and>
      map (line_entry from_str) (log_lines fs) = map Some (take 1 (chain (hmac_sha256_hex key) [] [e]))"
proof -
  let ?key = "replicate 32 (CHR ''k'')" and ?e = "format_jsonl sample_record 0"
  let ?from_str = "\<lambda>l. if l = ''x'' then Some (signed_doc [] sample_record 0 (hmac_sha256_hex ?key (nl # ?e))) else None"
  let ?fs = "\<lparr>al_current = Some (''x'' @ [nl]), al_backup = None\<rparr>"
  have e: "line_entry ?from_str ''x'' = Some ([], ?e, hmac_sha256_hex ?key (nl # ?e))"
    using line_entry_signed [OF sample_record_ok, of ?from_str "''x''"] by simp
  have "lines (''x'' @ [nl]) = [''x'']" by code_simp
  then have l: "map (line_entry ?from_str) (log_lines ?fs) = map Some (chain (hmac_sha256_hex ?key) [] [?e])"
    using e by (simp add: log_lines_def)
  have v: "verify ?from_str ?key ?fs = Inr 1" unfolding verify_iff l by (auto intro!: exI [of _ "[?e]"])
  have "\<forall>p e. Some (p, e, hmac_sha256_hex ?key (p @ nl # e)) \<in> set (map (line_entry ?from_str) (log_lines ?fs)) \<longrightarrow>
      p @ nl # e \<in> messages (hmac_sha256_hex ?key) [?e]"
    unfolding l by (auto simp: messages_def)
  moreover have "inj_on (hmac_sha256_hex ?key) (messages (hmac_sha256_hex ?key) [?e])"
    by (auto simp: messages_def inj_on_def)
  ultimately have "map (line_entry ?from_str) (log_lines ?fs) = map Some (take 1 (chain (hmac_sha256_hex ?key) [] [?e]))"
    by (intro verified_log_is_prefix [OF v])
  then show ?thesis using v unfolding Let_def by blast
qed

subsection \<open>Writing a chain\<close>

primrec signed_writes :: "(string \<Rightarrow> json option) \<Rightarrow> string \<Rightarrow> (bool \<times> audit_record \<times> nat) list \<Rightarrow> audit_log \<Rightarrow> audit_log" where
  "signed_writes from_str key [] fs = fs"
| "signed_writes from_str key (w # ws) fs =
     signed_writes from_str key ws (snd (write_record_locked from_str (fst w, True) (Some key) (fst (snd w)) (snd (snd w)) fs))"

definition parses_signed :: "(string \<Rightarrow> json option) \<Rightarrow> audit_record \<Rightarrow> nat \<Rightarrow> bool" where
  "parses_signed from_str r m \<longleftrightarrow> record_ok r m \<and> (\<forall>p h. is_hmac h \<and> (p = [] \<or> is_hmac p) \<longrightarrow>
     from_str (signed_line p (format_jsonl r m) h) = Some (signed_doc p r m h))"

definition render :: "(string \<times> string \<times> string) list \<Rightarrow> string" where
  "render es = unlines (map (\<lambda>(p, e, h). signed_line p e h) es)"

text \<open>The entries of the two segments, and how many entries were rotated out.\<close>

definition log_state :: "string \<Rightarrow> string list \<Rightarrow> audit_log \<Rightarrow> nat \<Rightarrow> (string \<times> string \<times> string) list option \<Rightarrow>
    (string \<times> string \<times> string) list option \<Rightarrow> bool" where
  "log_state key es fs k bak cur \<longleftrightarrow>
     al_current fs = map_option render cur \<and> al_backup fs = map_option render bak \<and> cur \<noteq> Some [] \<and> bak \<noteq> Some [] \<and>
     (case bak of None \<Rightarrow> [] | Some b \<Rightarrow> b) @ (case cur of None \<Rightarrow> [] | Some c \<Rightarrow> c) = drop k (chain (hmac_sha256_hex key) [] es) \<and>
     (es \<noteq> [] \<longrightarrow> k < length es) \<and> (bak = None \<longrightarrow> k = 0)"

definition event_ok :: "(string \<Rightarrow> json option) \<Rightarrow> string \<Rightarrow> bool" where
  "event_ok from_str e \<longleftrightarrow> (\<exists>r m. e = format_jsonl r m \<and> parses_signed from_str r m)"

lemma chain_entry:
  "(p, e, h) \<in> set (chain (hmac_sha256_hex key) q es) \<Longrightarrow> q = [] \<or> is_hmac q \<Longrightarrow>
     e \<in> set es \<and> is_hmac h \<and> (p = [] \<or> is_hmac p)"
  by (induction "hmac_sha256_hex key" q es rule: chain.induct) (auto simp: hmac.mac_shape)

lemma is_hmac_set: "is_hmac h \<Longrightarrow> c \<in> set h \<Longrightarrow> 32 \<le> byte c"
  by (auto simp: is_hmac_def list_all_iff ascii_class_defs byte_def)

lemma signed_line_set:
  "\<lbrakk>is_hmac h; p = [] \<or> is_hmac p; c \<in> set (signed_line p (format_jsonl r m) h)\<rbrakk> \<Longrightarrow> 32 \<le> byte c"
  unfolding signed_line_def set_append Un_iff
  by (elim disjE) (auto simp: key_of_def dest: is_hmac_set format_jsonl_set, simp_all add: byte_def)

lemma signed_line_plain:
  assumes "event_ok from_str e" and "is_hmac h" and "p = [] \<or> is_hmac p"
  shows "nl \<notin> set (signed_line p e h) \<and> strip_cr (signed_line p e h) = signed_line p e h"
proof -
  obtain r m where e: "e = format_jsonl r m" using assms(1) by (auto simp: event_ok_def)
  have "\<not> 32 \<le> byte nl" "\<not> 32 \<le> byte (CHR 0x0D)" by (simp_all add: byte_def)
  then have "nl \<notin> set (signed_line p e h)" "CHR 0x0D \<notin> set (signed_line p e h)"
    using signed_line_set [OF assms(2,3)] e by blast+
  then show ?thesis by (auto simp: strip_cr_def split: list.split dest: last_in_set)
qed

lemma entries_plain:
  assumes "list_all (event_ok from_str) es" and "set xs \<subseteq> set (chain (hmac_sha256_hex key) [] es)"
  shows "lines (render xs) = map (\<lambda>(p, e, h). signed_line p e h) xs"
proof -
  have "nl \<notin> set (signed_line p e h) \<and> strip_cr (signed_line p e h) = signed_line p e h" if "(p, e, h) \<in> set xs" for p e h
  proof -
    have "(p, e, h) \<in> set (chain (hmac_sha256_hex key) [] es)" using that assms(2) by blast
    from chain_entry [OF this] have c: "e \<in> set es" "is_hmac h" "p = [] \<or> is_hmac p" by simp_all
    then have "event_ok from_str e" using assms(1) by (simp add: list_all_iff)
    from signed_line_plain [OF this c(2,3)] show ?thesis .
  qed
  then show ?thesis by (auto simp: render_def lines_unlines)
qed

lemma entry_parses:
  assumes "list_all (event_ok from_str) es" and "(p, e, h) \<in> set (chain (hmac_sha256_hex key) [] es)"
  shows "line_entry from_str (signed_line p e h) = Some (p, e, h) \<and> line_hmac from_str (signed_line p e h) = Some h"
proof -
  have i: "e \<in> set es" "is_hmac h" "p = [] \<or> is_hmac p" using chain_entry [OF assms(2)] by simp_all
  then obtain r m where e: "e = format_jsonl r m" "record_ok r m"
    "from_str (signed_line p e h) = Some (signed_doc p r m h)"
    using assms(1) by (auto simp: list_all_iff event_ok_def parses_signed_def)
  then show ?thesis using line_entry_signed [where r = r and m = m and p = p and h = h and from_str = from_str, OF e(2)] i(2)
    by (simp add: line_hmac_def) (simp add: signed_doc_def)
qed

lemma find_map_last: "xs \<noteq> [] \<Longrightarrow> f (last xs) = Some y \<Longrightarrow> find_map f (rev xs) = Some y"
  by (cases xs rule: rev_cases) simp_all

lemma last_hmac_segment:
  assumes "list_all (event_ok from_str) es" and "set xs \<subseteq> set (chain (hmac_sha256_hex key) [] es)" and "xs \<noteq> []"
  shows "find_map (line_hmac from_str) (rev (lines (render xs))) = Some (snd (snd (last xs)))"
proof -
  obtain p e h where l: "last xs = (p, e, h)" by (cases "last xs")
  then have "(p, e, h) \<in> set (chain (hmac_sha256_hex key) [] es)" using assms(2,3) last_in_set [OF assms(3)] by auto
  with entry_parses [OF assms(1)] show ?thesis
    unfolding entries_plain [OF assms(1,2)] using assms(3) by (intro find_map_last) (simp_all add: last_map l)
qed

lemma last_hmac_state:
  assumes "log_state key es fs k bak cur" and "list_all (event_ok from_str) es"
  shows "(case last_hmac from_str fs of None \<Rightarrow> [] | Some h \<Rightarrow> h) = chain_end (hmac_sha256_hex key) [] es"
proof -
  let ?b = "case bak of None \<Rightarrow> [] | Some b \<Rightarrow> b" and ?c = "case cur of None \<Rightarrow> [] | Some c \<Rightarrow> c"
  let ?ch = "chain (hmac_sha256_hex key) [] es"
  have bc: "?b @ ?c = drop k ?ch" using assms(1) by (simp add: log_state_def)
  have sub: "set ?b \<subseteq> set ?ch" "set ?c \<subseteq> set ?ch" using arg_cong [OF bc, of set] set_drop_subset [of k ?ch] by auto
  show ?thesis
  proof (cases "es = []")
    case True
    then have "?b = []" "?c = []" using bc by simp_all
    then have "cur = None" "bak = None" using assms(1) by (auto simp: log_state_def split: option.splits)
    then show ?thesis using assms(1) True by (simp add: log_state_def last_hmac_def)
  next
    case False
    then have "last (?b @ ?c) = last ?ch" using assms(1) by (simp add: bc log_state_def)
    moreover have "?b @ ?c \<noteq> []" using False assms(1) by (simp add: bc log_state_def)
    ultimately have e: "snd (snd (last (?b @ ?c))) = chain_end (hmac_sha256_hex key) [] es" using False by (simp add: chain_end_def)
    show ?thesis
    proof (cases cur)
      case (Some c)
      then have "c \<noteq> []" using assms(1) by (auto simp: log_state_def)
      then have "snd (snd (last c)) = chain_end (hmac_sha256_hex key) [] es" using e Some by simp
      then show ?thesis using last_hmac_segment [OF assms(2), of c key] sub(2) Some \<open>c \<noteq> []\<close> assms(1)
        by (simp add: last_hmac_def log_state_def)
    next
      case None
      then obtain b where b: "bak = Some b" "b \<noteq> []" using \<open>?b @ ?c \<noteq> []\<close> by (cases bak) auto
      then have "snd (snd (last b)) = chain_end (hmac_sha256_hex key) [] es" using e None by simp
      then show ?thesis using last_hmac_segment [OF assms(2), of b key] sub(1) None b assms(1)
        by (simp add: last_hmac_def log_state_def)
    qed
  qed
qed

lemma rotate_state:
  assumes "log_state key es fs k bak cur"
  shows "\<exists>k' bak' cur'. log_state key es (rotate renames fs) k' bak' cur'"
proof (cases "\<exists>c. cur = Some c \<and> max_bytes \<le> length (render c) \<and> renames")
  case True
  then obtain c where c: "cur = Some c" "max_bytes \<le> length (render c)" renames by blast
  let ?b = "case bak of None \<Rightarrow> [] | Some b \<Rightarrow> b" and ?ch = "chain (hmac_sha256_hex key) [] es"
  have bc: "?b @ c = drop k ?ch" "c \<noteq> []" using assms c by (auto simp: log_state_def)
  have "c = drop (length ?b) (?b @ c)" by simp
  then have d: "c = drop (k + length ?b) ?ch" unfolding bc(1) by (simp add: add.commute)
  then have "k + length ?b < length es" using bc(2) by (metis drop_all length_chain not_le)
  then have "log_state key es (rotate renames fs) (k + length ?b) (Some c) None"
    using assms c d bc(2) by (simp add: log_state_def rotate_def)
  then show ?thesis by blast
next
  case False
  then have "rotate renames fs = fs" using assms by (auto simp: rotate_def log_state_def split: option.split)
  then show ?thesis using assms by auto
qed

lemma write_state:
  assumes "log_state key es fs k bak cur" and "list_all (event_ok from_str) es"
    and "fs' = snd (write_record_locked from_str (renames, True) (Some key) r m fs)"
  shows "\<exists>k' bak' cur'. log_state key (es @ [format_jsonl r m]) fs' k' bak' (Some cur')"
proof -
  let ?mac = "hmac_sha256_hex key" and ?e = "format_jsonl r m"
  from rotate_state [OF assms(1)] obtain k' bak' cur' where s: "log_state key es (rotate renames fs) k' bak' cur'" by blast
  let ?p = "chain_end ?mac [] es" and ?c = "case cur' of None \<Rightarrow> [] | Some c \<Rightarrow> c"
  let ?x = "(?p, ?e, ?mac (?p @ nl # ?e))"
  have f: "fs' = append_line (signed_line ?p ?e (?mac (?p @ nl # ?e))) (rotate renames fs)"
    by (simp add: assms(3) write_record_locked_def Let_def last_hmac_state [OF s assms(2)])
  have k: "k' \<le> length es" "es \<noteq> [] \<longrightarrow> k' < length es" "bak' = None \<longrightarrow> k' = 0"
    using s by (auto simp: log_state_def)
  have "log_state key (es @ [?e]) fs' k' bak' (Some (?c @ [?x]))"
    using s k unfolding log_state_def f
    by (auto simp: append_line_def render_def unlines_append chain_append drop_Cons' split: option.splits)
  then show ?thesis by blast
qed

definition event_of :: "bool \<times> audit_record \<times> nat \<Rightarrow> string" where
  "event_of w = format_jsonl (fst (snd w)) (snd (snd w))"

definition empty_log :: audit_log where
  "empty_log = \<lparr>al_current = None, al_backup = None\<rparr>"

lemma writes_state:
  "\<lbrakk>log_state key es fs k bak cur; list_all (event_ok from_str) (es @ map event_of ws); ws \<noteq> []\<rbrakk> \<Longrightarrow>
     \<exists>k' bak' cur'. log_state key (es @ map event_of ws) (signed_writes from_str key ws fs) k' bak' (Some cur')"
proof (induction ws arbitrary: es fs k bak cur)
  case (Cons w ws)
  let ?fs = "snd (write_record_locked from_str (fst w, True) (Some key) (fst (snd w)) (snd (snd w)) fs)"
  have "list_all (event_ok from_str) es" using Cons.prems(2) by simp
  from write_state [OF Cons.prems(1) this refl] obtain k' bak' cur'
    where s: "log_state key (es @ [event_of w]) ?fs k' bak' (Some cur')" unfolding event_of_def by blast
  show ?case
  proof (cases "ws = []")
    case True
    then show ?thesis using s by auto
  next
    case False
    from Cons.IH [OF s _ False] Cons.prems(2) show ?thesis by simp
  qed
qed simp

lemma state_lines:
  assumes "log_state key es fs k bak cur" and "list_all (event_ok from_str) es"
  shows "map (line_entry from_str) (log_lines fs) = map Some (drop k (chain (hmac_sha256_hex key) [] es))"
proof -
  let ?b = "case bak of None \<Rightarrow> [] | Some b \<Rightarrow> b" and ?c = "case cur of None \<Rightarrow> [] | Some c \<Rightarrow> c"
  let ?ch = "chain (hmac_sha256_hex key) [] es"
  have bc: "?b @ ?c = drop k ?ch" using assms(1) by (simp add: log_state_def)
  have sub: "set ?b \<subseteq> set ?ch" "set ?c \<subseteq> set ?ch" using arg_cong [OF bc, of set] set_drop_subset [of k ?ch] by auto
  have seg: "map (line_entry from_str) (lines (render xs)) = map Some xs" if "set xs \<subseteq> set ?ch" for xs
    unfolding entries_plain [OF assms(2) that] using that entry_parses [OF assms(2)] by (auto simp: case_prod_unfold)
  have "map (line_entry from_str) (case al_backup fs of None \<Rightarrow> [] | Some s \<Rightarrow> lines s) = map Some ?b"
    using assms(1) seg [OF sub(1)] by (cases bak) (simp_all add: log_state_def)
  moreover have "map (line_entry from_str) (case al_current fs of None \<Rightarrow> [] | Some s \<Rightarrow> lines s) = map Some ?c"
    using assms(1) seg [OF sub(2)] by (cases cur) (simp_all add: log_state_def)
  ultimately show ?thesis unfolding bc [symmetric] log_lines_def by simp
qed

lemma line_entry_Some:
  assumes "line_entry from_str l = Some (p, e, h)"
  obtains v where "from_str l = Some v" and "canonical_event v = Some e"
    and "Option.bind (json_get ''previous_hmac'' v) as_str = Some p" and "Option.bind (json_get ''hmac'' v) as_str = Some h"
  using assms by (auto simp: line_entry_def split: option.splits)

lemma verify_discontinuity:
  assumes "32 \<le> length key" and "al_backup fs = Some s" and "lines s = l # ls" and "line_entry from_str l = Some (p, e, h)" and "p \<noteq> []"
  shows "verify from_str key fs = Inl (Discontinuity 1)"
proof -
  from assms(4) have "verify_line from_str key [] 1 l = Inl (Discontinuity 1)"
    by (rule line_entry_Some) (simp add: verify_line_def assms(5))
  then show ?thesis using assms(1-3) by (simp add: verify_def verify_segment_def)
qed

lemma writes_verify:
  assumes "32 \<le> length key" and "ws \<noteq> []" and "\<forall>w\<in>set ws. parses_signed from_str (fst (snd w)) (snd (snd w))"
  shows "\<exists>k < length ws.
     map (line_entry from_str) (log_lines (signed_writes from_str key ws empty_log)) =
       map Some (drop k (chain (hmac_sha256_hex key) [] (map event_of ws))) \<and>
     verify from_str key (signed_writes from_str key ws empty_log) = (if k = 0 then Inr (length ws) else Inl (Discontinuity 1))"
proof -
  let ?fs = "signed_writes from_str key ws empty_log" and ?es = "map event_of ws" and ?mac = "hmac_sha256_hex key"
  have ok: "list_all (event_ok from_str) ?es" using assms(3) by (auto simp: list_all_iff event_ok_def event_of_def)
  have "log_state key [] empty_log 0 None None" by (simp add: log_state_def empty_log_def)
  from writes_state [OF this, of from_str ws] ok assms(2) obtain k bak cur
    where s: "log_state key ?es ?fs k bak (Some cur)" by auto
  have l: "map (line_entry from_str) (log_lines ?fs) = map Some (drop k (chain ?mac [] ?es))" by (rule state_lines [OF s ok])
  have k: "k < length ws" using s assms(2) by (auto simp: log_state_def)
  have "verify from_str key ?fs = (if k = 0 then Inr (length ws) else Inl (Discontinuity 1))"
  proof (cases "k = 0")
    case True
    then show ?thesis using l s assms(1) by (auto simp: verify_iff log_state_def intro!: exI [of _ ?es])
  next
    case False
    then obtain b where b: "bak = Some b" "b \<noteq> []" "b @ cur = drop k (chain ?mac [] ?es)" using s by (auto simp: log_state_def split: option.splits)
    have "hd (b @ cur) = chain ?mac [] ?es ! k" using b(3) k by (simp add: hd_drop_conv_nth)
    then have hd: "hd b = (prev_at ?mac ?es k, ?es ! k, ?mac (prev_at ?mac ?es k @ nl # ?es ! k))" using b(2) k chain_from [of k ?es ?mac] by simp
    have sub: "set b \<subseteq> set (chain ?mac [] ?es)" using arg_cong [OF b(3), of set] set_drop_subset [of k "chain ?mac [] ?es"] by auto
    obtain p e h bs where bb: "b = (p, e, h) # bs" using b(2) by (cases b) auto
    then have p: "p \<noteq> []" using hd False hmac.mac_nonempty by (cases k) auto
    have "lines (render b) = signed_line p e h # map (\<lambda>(p, e, h). signed_line p e h) bs"
      unfolding entries_plain [OF ok sub] by (simp add: bb)
    moreover have "line_entry from_str (signed_line p e h) = Some (p, e, h)" using entry_parses [OF ok] sub bb by auto
    ultimately show ?thesis using verify_discontinuity [OF assms(1) _ _ _ p] s b(1) False by (simp add: log_state_def)
  qed
  with l k show ?thesis by blast
qed

text \<open>
  C26. The log the program writes under a key verifies until it has rotated twice. After any
  sequence of signed writes to an empty log, the two segments hold the chain over all events but the
  first \<open>k\<close>, in order, across rotations. Verification accepts and counts all of them when
  nothing was rotated out; as soon as something was, it rejects the log as
  discontinuous at its first line, though nobody touched it.
\<close>

theorem signed_log_verifies:
  assumes "32 \<le> length key" and "ws \<noteq> []" and "\<forall>w\<in>set ws. parses_signed from_str (fst (snd w)) (snd (snd w))"
  shows "\<exists>k < length ws.
     map (line_entry from_str) (log_lines (signed_writes from_str key ws empty_log)) =
       map Some (drop k (chain (hmac_sha256_hex key) [] (map event_of ws))) \<and>
     verify from_str key (signed_writes from_str key ws empty_log) = (if k = 0 then Inr (length ws) else Inl (Discontinuity 1))"
  by (rule writes_verify [OF assms])

text \<open>A parser that knows the sample record's lines and no other.\<close>

definition sample_parser :: "string \<Rightarrow> json option" where
  "sample_parser l =
     (case strip_prefix (''{'' @ key_of ''event'' @ format_jsonl sample_record 0 @ '','' @ key_of ''previous_hmac'' @ [quote_char]) l of
        None \<Rightarrow> None
      | Some rest \<Rightarrow>
          let p = takeWhile (\<lambda>c. c \<noteq> quote_char) rest;
              h = takeWhile (\<lambda>c. c \<noteq> quote_char) (drop (length p + length (quote_char # '','' @ key_of ''hmac'' @ [quote_char])) rest)
          in Some (signed_doc p sample_record 0 h))"

lemma hmac_no_quote: "is_hmac h \<Longrightarrow> quote_char \<notin> set h"
  by (auto simp: is_hmac_def list_all_iff ascii_class_defs byte_def)

lemma takeWhile_quote: "quote_char \<notin> set p \<Longrightarrow> takeWhile (\<lambda>c. c \<noteq> quote_char) (p @ quote_char # x) = p"
  by (subst takeWhile_append2) auto

lemma sample_parses: "parses_signed sample_parser sample_record 0"
  unfolding parses_signed_def
proof (intro conjI allI impI sample_record_ok)
  fix p h assume "is_hmac h \<and> (p = [] \<or> is_hmac p)"
  then have q: "quote_char \<notin> set p" "quote_char \<notin> set h" by (auto dest: hmac_no_quote)
  let ?pre = "''{'' @ key_of ''event'' @ format_jsonl sample_record 0 @ '','' @ key_of ''previous_hmac'' @ [quote_char]"
  let ?mid = "quote_char # '','' @ key_of ''hmac'' @ [quote_char]"
  have "signed_line p (format_jsonl sample_record 0) h = ?pre @ (p @ ?mid @ h @ [quote_char] @ ''}'')"
    by (simp add: signed_line_def)
  then have s: "strip_prefix ?pre (signed_line p (format_jsonl sample_record 0) h) = Some (p @ ?mid @ h @ [quote_char] @ ''}'')"
    by (simp only: strip_prefix_append)
  have "takeWhile (\<lambda>c. c \<noteq> quote_char) (p @ ?mid @ h @ [quote_char] @ ''}'') = p" using takeWhile_quote [OF q(1)] by simp
  moreover have "drop (length p + length m) (p @ m @ x) = x" for m x :: string by simp
  moreover have "takeWhile (\<lambda>c. c \<noteq> quote_char) (h @ [quote_char] @ ''}'') = h" using takeWhile_quote [OF q(2)] by simp
  ultimately show "sample_parser (signed_line p (format_jsonl sample_record 0) h) = Some (signed_doc p sample_record 0 h)"
    unfolding sample_parser_def s option.case Let_def by (simp only:)
qed

theorem signed_log_verifies_witness:
  "verify sample_parser (replicate 32 (CHR ''k''))
     (signed_writes sample_parser (replicate 32 (CHR ''k'')) [(True, sample_record, 0)] empty_log) = Inr 1"
  using signed_log_verifies [of "replicate 32 (CHR ''k'')" "[(True, sample_record, 0)]" sample_parser] sample_parses by auto

subsection \<open>The queue before the writer\<close>

definition queue_capacity :: nat where
  "queue_capacity = 2048"

record audit_queue =
  q_queue :: "audit_record list"
  q_dropped :: nat
  q_missed :: nat
  q_remote_failed :: nat

text \<open>\<^verbatim>\<open>Audit::record\<close>: called by the request threads.\<close>

definition record_event :: "audit_record \<Rightarrow> audit_queue \<Rightarrow> audit_queue" where
  "record_event r q = (if length (q_queue q) < queue_capacity then q\<lparr>q_queue := q_queue q @ [r]\<rparr>
     else q\<lparr>q_dropped := q_dropped q + 1\<rparr>)"

text \<open>
  One turn of the writer thread. \<open>remote\<close> is the configured address and key, \<open>post\<close> the
  transport, given the address, the headers and the body.
\<close>

definition remote_headers :: "string \<Rightarrow> string \<Rightarrow> (string \<times> string) list" where
  "remote_headers key event = [(''Content-Type'', ''application/json''),
     (''X-Glasir-Audit-Signature'', ''sha256='' @ hmac_sha256_hex key event)]"

definition writer_turn :: "(string \<Rightarrow> json option) \<Rightarrow> (string \<Rightarrow> (string \<times> string) list \<Rightarrow> string \<Rightarrow> bool) \<Rightarrow> string option \<Rightarrow>
    (string \<times> string) option \<Rightarrow> bool \<times> (bool \<times> bool) \<times> bool \<Rightarrow> audit_queue \<Rightarrow> audit_log \<Rightarrow> audit_queue \<times> audit_log" where
  "writer_turn from_str post key remote io q fs =
     (case q_queue q of [] \<Rightarrow> (q, fs) | r # rest \<Rightarrow>
        let missed = q_missed q + q_dropped q; q' = q\<lparr>q_queue := rest, q_dropped := 0, q_missed := missed\<rparr>
        in case write_record from_str io key r missed fs of
            (Inl _, fs') \<Rightarrow> (q', fs')
          | (Inr _, fs') \<Rightarrow>
              let failed = (case remote of None \<Rightarrow> False
                    | Some (url, k) \<Rightarrow> let event = format_jsonl r missed in \<not> post url (remote_headers k event) event)
              in (q'\<lparr>q_missed := 0, q_remote_failed := q_remote_failed q + (if failed then 1 else 0)\<rparr>, fs'))"

text \<open>
  The requests and the writer take turns in any order. Beside the state, a count of the
  records handed over, the drop counts on the written lines, and the records whose write failed.
\<close>

record audit_world =
  aw_queue :: audit_queue
  aw_log :: audit_log
  aw_recorded :: nat
  aw_written :: "nat list"
  aw_failed :: nat

inductive audit_reachable :: "(string \<Rightarrow> json option) \<Rightarrow> (string \<Rightarrow> (string \<times> string) list \<Rightarrow> string \<Rightarrow> bool) \<Rightarrow>
    string option \<Rightarrow> (string \<times> string) option \<Rightarrow> audit_world \<Rightarrow> bool" for from_str post key remote where
  Start: "audit_reachable from_str post key remote
    \<lparr>aw_queue = \<lparr>q_queue = [], q_dropped = 0, q_missed = 0, q_remote_failed = 0\<rparr>, aw_log = fs, aw_recorded = 0, aw_written = [], aw_failed = 0\<rparr>"
| Record: "audit_reachable from_str post key remote s \<Longrightarrow> audit_reachable from_str post key remote
    (s\<lparr>aw_queue := record_event r (aw_queue s), aw_recorded := aw_recorded s + 1\<rparr>)"
| Turn: "\<lbrakk>audit_reachable from_str post key remote s; q_queue (aw_queue s) = r # rest;
      missed = q_missed (aw_queue s) + q_dropped (aw_queue s);
      ok = is_ok (fst (write_record from_str io key r missed (aw_log s)));
      writer_turn from_str post key remote io (aw_queue s) (aw_log s) = (q', fs')\<rbrakk> \<Longrightarrow>
    audit_reachable from_str post key remote (s\<lparr>aw_queue := q', aw_log := fs',
      aw_written := (if ok then aw_written s @ [missed] else aw_written s),
      aw_failed := aw_failed s + (if ok then 0 else 1)\<rparr>)"

lemma writer_turn_counts:
  assumes "writer_turn from_str post key remote io q fs = (q', fs')" and "q_queue q = r # rest"
    and "missed = q_missed q + q_dropped q"
  shows "q_queue q' = rest \<and> q_dropped q' = 0 \<and>
    q_missed q' = (if is_ok (fst (write_record from_str io key r missed fs)) then 0 else missed)"
  using assms by (cases "write_record from_str io key r missed fs") (auto simp: writer_turn_def Let_def split: sum.splits)

text \<open>
  No record vanishes uncounted unless writing it failed. However requests and the writer
  interleave, the records handed over are those in the queue, which never exceeds its
  capacity, those written, those counted as dropped on a written line or about to be, and those
  whose write failed, which no count reports.
\<close>

theorem audit_conservation:
  assumes "audit_reachable from_str post key remote s"
  shows "aw_recorded s = length (q_queue (aw_queue s)) + length (aw_written s) + sum_list (aw_written s) +
      q_dropped (aw_queue s) + q_missed (aw_queue s) + aw_failed s \<and>
    length (q_queue (aw_queue s)) \<le> queue_capacity"
  using assms
proof induction
  case (Record s r)
  then show ?case by (auto simp: record_event_def)
next
  case (Turn s r rest missed ok io q' fs')
  then show ?case using writer_turn_counts [OF Turn.hyps(5) Turn.hyps(2) Turn.hyps(3)] by auto
qed simp

theorem audit_conservation_witness:
  "let q = record_event sample_record \<lparr>q_queue = [], q_dropped = 0, q_missed = 0, q_remote_failed = 0\<rparr>
   in length (q_queue q) \<le> queue_capacity"
proof -
  have "audit_reachable (\<lambda>_. None) (\<lambda>_ _ _. False) None None
    \<lparr>aw_queue = \<lparr>q_queue = [], q_dropped = 0, q_missed = 0, q_remote_failed = 0\<rparr>, aw_log = empty_log, aw_recorded = 0, aw_written = [], aw_failed = 0\<rparr>"
    by (rule audit_reachable.Start)
  from audit_reachable.Record [OF this, of sample_record] show ?thesis
    using audit_conservation by fastforce
qed

end
