(* ===== verification/Proxy.thy ===== *)
theory Proxy
  imports Rights
begin

text \<open>
  \<^verbatim>\<open>src/proxy.rs\<close>: reading one HTTP request from a connection within fixed bounds, the
  tree its path names, the routing decision, and what is sent to the backend. A connection is
  the list of non-empty chunks the buffered reader will deliver, and whether it then ends cleanly
  or with an error. The TCP and TLS calls of \<^verbatim>\<open>forward\<close> are a parameter.
\<close>

subsection \<open>Requests\<close>

record request =
  rq_method :: string
  rq_path :: string
  rq_headers :: "(string \<times> string) list"
  rq_body :: string

definition header_in :: "string \<Rightarrow> (string \<times> string) list \<Rightarrow> string option" where
  "header_in name hs = map_option snd (find (\<lambda>(k, _). eq_ignore_ascii_case k name) hs)"

definition header :: "request \<Rightarrow> string \<Rightarrow> string option" where
  "header rq name = header_in name (rq_headers rq)"

definition max_line_bytes :: nat where "max_line_bytes = 8 * 1024"
definition max_headers :: nat where "max_headers = 100"
definition max_body :: nat where "max_body = 1024 * 1024"

datatype read_error =
  IoFailed | LineTooLong | LineNotUtf8 | BadMethod | TooManyHeaders | Smuggling | MultipleHosts | BodyTooLong | BodyShort

subsection \<open>Lines\<close>

text \<open>
  \<open>tot\<close> and \<open>line\<close> are what was read of the line so far. Each chunk is checked to
  be UTF-8 on its own. A consumed chunk is gone from the list; a rest of one stays buffered.
\<close>

definition unread :: "string \<Rightarrow> string list \<Rightarrow> string list" where
  "unread c cs = (if c = [] then cs else c # cs)"

fun read_line_loop :: "nat \<Rightarrow> bool \<Rightarrow> string list \<Rightarrow> nat \<Rightarrow> string \<Rightarrow> (read_error, string option \<times> string list) result" where
  "read_line_loop limit clean [] tot line =
     (if \<not> clean then Inl IoFailed else Inr (if line = [] then None else Some line, []))"
| "read_line_loop limit clean (c # cs) tot line =
     (case find_char (\<lambda>b. b = nl) c of
        Some pos \<Rightarrow>
          let chunk = take (pos + 1) c in
          if tot + length chunk > limit then Inl LineTooLong
          else if \<not> utf8_valid chunk then Inl LineNotUtf8
          else Inr (Some (line @ chunk), unread (drop (pos + 1) c) cs)
      | None \<Rightarrow>
          if tot + length c > limit then Inl LineTooLong
          else if \<not> utf8_valid c then Inl LineNotUtf8
          else read_line_loop limit clean cs (tot + length c) (line @ c))"

definition read_bounded_line :: "nat \<Rightarrow> bool \<Rightarrow> string list \<Rightarrow> (read_error, string option \<times> string list) result" where
  "read_bounded_line limit clean cs = read_line_loop limit clean cs 0 []"

subsection \<open>The request\<close>

text \<open>\<^verbatim>\<open>split_whitespace\<close>, over the characters of the line.\<close>

fun words_of :: "string list \<Rightarrow> string \<Rightarrow> string list" where
  "words_of [] w = (if w = [] then [] else [w])"
| "words_of (g # gs) w =
     (if is_whitespace g then (if w = [] then [] else [w]) @ words_of gs [] else words_of gs (w @ g))"

definition split_whitespace :: "string \<Rightarrow> string list" where
  "split_whitespace s = words_of (uchars s) []"

definition nth_or_empty :: "string list \<Rightarrow> nat \<Rightarrow> string" where
  "nth_or_empty ws i = (if i < length ws then ws ! i else [])"

definition path_of :: "string \<Rightarrow> string" where
  "path_of target = takeWhile (\<lambda>c. c \<noteq> CHR ''?'' \<and> c \<noteq> CHR ''#'') target"

definition bytes_left :: "string list \<Rightarrow> nat" where
  "bytes_left cs = sum_list (map length cs) + length cs"

lemma bytes_left_unread [simp]: "c \<noteq> [] \<Longrightarrow> bytes_left (unread c cs) = length c + 1 + bytes_left cs" "bytes_left (unread [] cs) = bytes_left cs"
  by (simp_all add: bytes_left_def unread_def)

lemma read_line_loop_shorter:
  "read_line_loop limit clean cs tot line = Inr (Some l, cs') \<Longrightarrow> cs \<noteq> [] \<Longrightarrow> bytes_left cs' < bytes_left cs"
proof (induction limit clean cs tot line rule: read_line_loop.induct)
  case (2 limit clean c cs tot line)
  show ?case
  proof (cases "find_char (\<lambda>b. b = nl) c")
    case None
    then have r: "read_line_loop limit clean cs (tot + length c) (line @ c) = Inr (Some l, cs')"
      using 2(2) by (auto split: if_splits)
    show ?thesis
    proof (cases "cs = []")
      case True
      then show ?thesis using r by (auto simp: bytes_left_def split: if_splits)
    next
      case False
      then show ?thesis using 2(1) [OF None] 2(2) None r by (auto simp: bytes_left_def split: if_splits)
    qed
  next
    case (Some pos)
    then have "pos < length c" using find_char_Some by blast
    moreover have "cs' = unread (drop (pos + 1) c) cs" using 2(2) Some by (auto simp: Let_def split: if_splits)
    ultimately show ?thesis by (cases "drop (pos + 1) c = []") (simp_all add: bytes_left_def unread_def)
  qed
qed simp

function read_headers :: "bool \<Rightarrow> string list \<Rightarrow> (string \<times> string) list \<Rightarrow> (read_error, (string \<times> string) list \<times> string list) result" where
  "read_headers clean cs hs =
     (if max_headers \<le> length hs then Inl TooManyHeaders
      else if cs = [] then (if clean then Inr (hs, []) else Inl IoFailed)
      else case read_bounded_line max_line_bytes clean cs of
          Inl e \<Rightarrow> Inl e
        | Inr (None, cs') \<Rightarrow> Inr (hs, cs')
        | Inr (Some line, cs') \<Rightarrow>
            if line = [cr, nl] \<or> line = [nl] then Inr (hs, cs')
            else (case split_once (CHR '':'') line of
                None \<Rightarrow> read_headers clean cs' hs
              | Some (k, v) \<Rightarrow> read_headers clean cs' (hs @ [(trim k, trim v)])))"
  by pat_completeness auto
termination
  by (relation "measure (\<lambda>(_, cs, _). bytes_left cs)") (auto simp: read_bounded_line_def intro: read_line_loop_shorter)

declare read_headers.simps [simp del]

definition content_length :: "(string \<times> string) list \<Rightarrow> nat" where
  "content_length hs = (case header_in ''content-length'' hs of None \<Rightarrow> 0
     | Some v \<Rightarrow> (case parse_uint (2 ^ 64) v of None \<Rightarrow> 0 | Some n \<Rightarrow> n))"

definition read_exact :: "nat \<Rightarrow> string list \<Rightarrow> (read_error, string) result" where
  "read_exact n cs = (if length (concat cs) < n then Inl BodyShort else Inr (take n (concat cs)))"

definition read_request :: "bool \<Rightarrow> string list \<Rightarrow> (read_error, request option) result" where
  "read_request clean cs =
     (case read_bounded_line max_line_bytes clean cs of
        Inl e \<Rightarrow> Inl e
      | Inr (None, _) \<Rightarrow> Inr None
      | Inr (Some start, cs1) \<Rightarrow>
          let parts = split_whitespace start; meth = nth_or_empty parts 0; path = path_of (nth_or_empty parts 1) in
          if meth \<notin> {''GET'', ''POST'', ''HEAD'', ''OPTIONS''} then Inl BadMethod
          else (case read_headers clean cs1 [] of Inl e \<Rightarrow> Inl e | Inr (hs, cs2) \<Rightarrow>
            if \<not> is_ok (validate_http_smuggling hs) then Inl Smuggling
            else if 1 < length (filter (\<lambda>(k, _). eq_ignore_ascii_case k ''host'') hs) then Inl MultipleHosts
            else let n = content_length hs in
              if max_body < n then Inl BodyTooLong
              else (case (if 0 < n then read_exact n cs2 else Inr []) of Inl e \<Rightarrow> Inl e
                | Inr body \<Rightarrow> Inr (Some \<lparr>rq_method = meth, rq_path = path, rq_headers = hs, rq_body = body\<rparr>))))"

subsection \<open>Routing\<close>

definition tree_of :: "string \<Rightarrow> string option" where
  "tree_of path =
     (case url_decode path of None \<Rightarrow> None | Some decoded \<Rightarrow>
     (case strip_prefix ''/mcp/'' decoded of None \<Rightarrow> None | Some rest \<Rightarrow>
        let name = takeWhile (\<lambda>c. c \<noteq> CHR ''/'' \<and> c \<noteq> CHR ''?'') rest in
        if is_valid_identifier name then Some name else None))"

datatype route = To tree | Unauthenticated | RouteNotFound

definition route :: "rights \<Rightarrow> string option \<Rightarrow> string \<Rightarrow> route" where
  "route r user path =
     (case user of None \<Rightarrow> Unauthenticated | Some u \<Rightarrow>
     (case tree_of path of None \<Rightarrow> RouteNotFound | Some name \<Rightarrow>
        if \<not> may r u name then RouteNotFound
        else (case tree_named r name of Some t \<Rightarrow> To t | None \<Rightarrow> RouteNotFound)))"

subsection \<open>To the backend and back\<close>

definition dropped_headers :: "string list" where
  "dropped_headers = [''authorization'', ''proxy-authorization'', ''cookie'', ''host'', ''content-length'', ''connection'',
     ''transfer-encoding'', ''upgrade'', ''x-forwarded-for'', ''x-forwarded-proto'', ''x-forwarded-host'', ''origin'']"

definition header_line :: "string \<times> string \<Rightarrow> string" where
  "header_line kv = fst kv @ '': '' @ snd kv @ crlf"

definition kept_headers :: "(string \<times> string) list \<Rightarrow> (string \<times> string) list" where
  "kept_headers hs = filter (\<lambda>(k, _). to_ascii_lowercase k \<notin> set dropped_headers) hs"

definition backend_head :: "tree \<Rightarrow> request \<Rightarrow> string" where
  "backend_head t rq =
     rq_method rq @ '' /mcp HTTP/1.1'' @ crlf @
     concat (map header_line (kept_headers (rq_headers rq))) @
     header_line (''Host'', t_addr t) @ header_line (''Authorization'', ''Bearer '' @ t_token t) @
     header_line (''Content-Length'', dec_str (length (rq_body rq))) @ header_line (''Connection'', ''close'') @ crlf"

definition max_backend_reply :: nat where "max_backend_reply = 32 * 1024 * 1024"

text \<open>
  \<open>connect\<close> sends the bytes to an address and returns what the backend answers; the plain
  connection reads at most the limit of it, the TLS one is a function of its own.
\<close>

definition forward :: "(string \<Rightarrow> string \<Rightarrow> string option) \<Rightarrow> (string \<Rightarrow> string \<Rightarrow> string option) option \<Rightarrow> tree \<Rightarrow> request \<Rightarrow> string option" where
  "forward connect tls t rq =
     (let sent = backend_head t rq @ rq_body rq in
      case tls of Some f \<Rightarrow> f (t_addr t) sent
      | None \<Rightarrow> map_option (take max_backend_reply) (connect (t_addr t) sent))"

definition extract_status :: "string \<Rightarrow> nat" where
  "extract_status reply =
     (let s = take 64 reply in
      if \<not> utf8_valid s then 200
      else case lines s of [] \<Rightarrow> 200 | l # _ \<Rightarrow>
        (case split_whitespace l of _ # code # _ \<Rightarrow> (case parse_uint (2 ^ 16) code of None \<Rightarrow> 200 | Some n \<Rightarrow> n) | _ \<Rightarrow> 200))"

subsection \<open>What a line is\<close>

lemma read_line_loop_shape:
  "\<lbrakk>read_line_loop limit clean cs tot line = Inr (Some l, cs'); nl \<notin> set line; length line = tot; tot \<le> limit\<rbrakk> \<Longrightarrow>
     \<exists>a. nl \<notin> set a \<and> (l = a \<or> l = a @ [nl]) \<and> length l \<le> limit"
proof (induction limit clean cs tot line rule: read_line_loop.induct)
  case (1 limit clean tot line)
  then show ?case by (auto split: if_splits)
next
  case (2 limit clean c cs tot line)
  show ?case
  proof (cases "find_char (\<lambda>b. b = nl) c")
    case None
    then have "nl \<notin> set c" using find_char_None by fastforce
    then show ?thesis using 2 None by (auto split: if_splits)
  next
    case (Some pos)
    then have p: "pos < length c" "c ! pos = nl" "nl \<notin> set (take pos c)" using find_char_Some by fastforce+
    then have "take (pos + 1) c = take pos c @ [nl]" by (simp add: take_Suc_conv_app_nth)
    then show ?thesis using 2(2-) Some p
      by (intro exI [of _ "line @ take pos c"]) (auto simp: Let_def split: if_splits)
  qed
qed

lemma read_line_shape:
  "read_bounded_line limit clean cs = Inr (Some l, cs') \<Longrightarrow> \<exists>a. nl \<notin> set a \<and> (l = a \<or> l = a @ [nl]) \<and> length l \<le> limit"
  unfolding read_bounded_line_def using read_line_loop_shape [of limit clean cs 0 "[]" l cs'] by simp

text \<open>The header fields a reader can produce.\<close>

definition field_ok :: "string \<times> string \<Rightarrow> bool" where
  "field_ok kv \<longleftrightarrow> nl \<notin> set (fst kv) \<and> nl \<notin> set (snd kv) \<and> CHR '':'' \<notin> set (fst kv) \<and> trim (fst kv) = fst kv \<and>
     trim (snd kv) = snd kv \<and> length (fst kv) + length (snd kv) < max_line_bytes"

lemma trim_append_nl: "trim (s @ [nl]) = trim s"
proof -
  have "uchars (s @ [nl]) = uchars s @ [[nl]]" using uchars_append [of nl s "[]"] by simp
  moreover have "is_whitespace [nl]" by (simp add: is_whitespace_def whitespace_chars_def)
  ultimately have "trim_end (s @ [nl]) = trim_end s" by (simp add: trim_end_def)
  then show ?thesis by (metis trim_trim_end)
qed

lemma length_trim: "length (trim s) \<le> length s"
proof -
  have "length (trim_start s) \<le> length s" for s
    unfolding trim_start_def by (metis concat_append concat_uchars le_add2 length_append takeWhile_dropWhile_id)
  moreover have "length (trim_end s) \<le> length s" for s
  proof -
    let ?d = "dropWhile is_whitespace (rev (uchars s))" and ?t = "takeWhile is_whitespace (rev (uchars s))"
    have "uchars s = rev ?d @ rev ?t" by (metis rev_append rev_rev_ident takeWhile_dropWhile_id)
    then have "s = concat (rev ?d) @ concat (rev ?t)" by (metis concat_append concat_uchars)
    then have "length (concat (rev ?d)) \<le> length s" by (metis le_add1 length_append)
    then show ?thesis by (simp add: trim_end_def)
  qed
  ultimately show ?thesis unfolding trim_def using order.trans by blast
qed

lemma header_field_ok:
  assumes "read_bounded_line max_line_bytes clean cs = Inr (Some line, cs')" and "split_once (CHR '':'') line = Some (k, v)"
  shows "field_ok (trim k, trim v)"
proof -
  obtain a where a: "nl \<notin> set a" "line = a \<or> line = a @ [nl]" "length line \<le> max_line_bytes"
    using read_line_shape [OF assms(1)] by blast
  have s: "line = k @ CHR '':'' # v" "CHR '':'' \<notin> set k" using split_once_Some [OF assms(2)] by simp_all
  obtain w where w: "a = k @ CHR '':'' # w" "v = w \<or> v = w @ [nl]"
  proof (cases v rule: rev_cases)
    case Nil
    then show ?thesis using a(2) s(1) that [of "[]"] by auto
  next
    case (snoc w z)
    then have "line = (k @ CHR '':'' # w) @ [z]" using s(1) by simp
    then show ?thesis using a(2) that [of w] that [of v] s(1) snoc by auto
  qed
  then have k: "nl \<notin> set k" and v: "nl \<notin> set (trim v)"
    using a(1) set_trim [of w] by (auto simp: trim_append_nl)
  have "length (trim k) + length (trim v) < max_line_bytes"
    using length_trim [of k] length_trim [of v] a(3) s(1) by simp
  then show ?thesis using k v s(2) set_trim [of k] by (auto simp: field_ok_def trim_idem)
qed

lemma read_headers_ok:
  "\<lbrakk>read_headers clean cs hs = Inr (out, cs'); list_all field_ok hs; length hs \<le> max_headers\<rbrakk> \<Longrightarrow> list_all field_ok out \<and> length out < max_headers"
proof (induction clean cs hs rule: read_headers.induct)
  case (1 clean cs hs)
  note r = 1(3)
  show ?case
  proof (cases "max_headers \<le> length hs \<or> cs = []")
    case True
    then show ?thesis using r 1(4) by (subst (asm) read_headers.simps) (auto split: if_splits)
  next
    case False
    then have n: "\<not> max_headers \<le> length hs" "cs \<noteq> []" by simp_all
    show ?thesis
    proof (cases "read_bounded_line max_line_bytes clean cs")
      case (Inl e)
      then show ?thesis using r n by (subst (asm) read_headers.simps) simp
    next
      case (Inr lc)
      obtain lo cs1 where lc: "lc = (lo, cs1)" by (cases lc)
      show ?thesis
      proof (cases lo)
        case None
        then show ?thesis using r n 1(4) by (subst (asm) read_headers.simps) (simp add: Inr lc)
      next
        case (Some line)
        note line = Inr [unfolded lc Some]
        show ?thesis
        proof (cases "line = [cr, nl] \<or> line = [nl]")
          case True
          then show ?thesis using r n 1(4) by (subst (asm) read_headers.simps) (simp add: line)
        next
          case False
          show ?thesis
          proof (cases "split_once (CHR '':'') line")
            case None
            then show ?thesis using r n 1(1) [OF n Inr lc [symmetric] Some False None] 1(4,5) False
              by (subst (asm) read_headers.simps) (simp add: line)
          next
            case (Some kv)
            obtain k v where kv: "kv = (k, v)" by (cases kv)
            have f: "field_ok (trim k, trim v)" using header_field_ok [OF line] Some kv by simp
            have r': "read_headers clean cs1 (hs @ [(trim k, trim v)]) = Inr (out, cs')"
              using r n False by (subst (asm) read_headers.simps) (simp add: line Some kv)
            show ?thesis using 1(2) [OF n Inr lc [symmetric] \<open>lo = Some line\<close> False Some kv [symmetric] r'] 1(4) f n by simp
          qed
        qed
      qed
    qed
  qed
qed

lemma read_request_cases:
  assumes "read_request clean cs = Inr (Some rq)"
  obtains start cs1 cs2 where "read_bounded_line max_line_bytes clean cs = Inr (Some start, cs1)"
    and "read_headers clean cs1 [] = Inr (rq_headers rq, cs2)"
    and "rq_method rq \<in> {''GET'', ''POST'', ''HEAD'', ''OPTIONS''}" and "rq_method rq = nth_or_empty (split_whitespace start) 0"
    and "rq_path rq = path_of (nth_or_empty (split_whitespace start) 1)"
    and "is_ok (validate_http_smuggling (rq_headers rq))"
    and "length (filter (\<lambda>(k, _). eq_ignore_ascii_case k ''host'') (rq_headers rq)) \<le> 1"
    and "content_length (rq_headers rq) \<le> max_body" and "length (rq_body rq) = content_length (rq_headers rq)"
proof -
  obtain lo cs1 where l: "read_bounded_line max_line_bytes clean cs = Inr (lo, cs1)"
    using assms by (cases "read_bounded_line max_line_bytes clean cs") (auto simp: read_request_def)
  obtain start where s: "lo = Some start" using assms l by (cases lo) (auto simp: read_request_def)
  obtain hs cs2 where h: "read_headers clean cs1 [] = Inr (hs, cs2)"
    using assms l s by (cases "read_headers clean cs1 []") (auto simp: read_request_def Let_def split: if_splits)
  obtain body where b: "(if 0 < content_length hs then read_exact (content_length hs) cs2 else Inr []) = Inr body"
    using assms l s h by (cases "if 0 < content_length hs then read_exact (content_length hs) cs2 else Inr []")
      (auto simp: read_request_def Let_def split: if_splits)
  have "length body = content_length hs" using b by (auto simp: read_exact_def split: if_splits)
  moreover have "rq = \<lparr>rq_method = nth_or_empty (split_whitespace start) 0, rq_path = path_of (nth_or_empty (split_whitespace start) 1),
      rq_headers = hs, rq_body = body\<rparr>" and "nth_or_empty (split_whitespace start) 0 \<in> {''GET'', ''POST'', ''HEAD'', ''OPTIONS''}"
    and "is_ok (validate_http_smuggling hs)" and "length (filter (\<lambda>(k, _). eq_ignore_ascii_case k ''host'') hs) \<le> 1"
    and "content_length hs \<le> max_body"
    using assms l s h b by (auto simp: read_request_def Let_def split: if_splits)
  ultimately show ?thesis using that l s h by simp
qed

lemma path_of_set: "set (path_of s) \<inter> {CHR ''?'', CHR ''#''} = {}"
  by (auto simp: path_of_def dest: set_takeWhileD)

lemma request_bounded:
  assumes "read_request clean cs = Inr (Some rq)"
  shows "rq_method rq \<in> {''GET'', ''POST'', ''HEAD'', ''OPTIONS''} \<and> length (rq_headers rq) < max_headers \<and>
    list_all field_ok (rq_headers rq) \<and> length (rq_body rq) = content_length (rq_headers rq) \<and>
    length (rq_body rq) \<le> max_body \<and> set (rq_path rq) \<inter> {CHR ''?'', CHR ''#''} = {} \<and>
    is_ok (validate_http_smuggling (rq_headers rq))"
  using assms
proof (rule read_request_cases)
  fix start cs1 cs2
  assume h: "read_headers clean cs1 [] = Inr (rq_headers rq, cs2)"
    and r: "rq_method rq \<in> {''GET'', ''POST'', ''HEAD'', ''OPTIONS''}" "rq_path rq = path_of (nth_or_empty (split_whitespace start) 1)"
      "is_ok (validate_http_smuggling (rq_headers rq))" "content_length (rq_headers rq) \<le> max_body"
      "length (rq_body rq) = content_length (rq_headers rq)"
  have "list_all field_ok (rq_headers rq) \<and> length (rq_headers rq) < max_headers"
    using read_headers_ok [OF h] by simp
  with r path_of_set show ?thesis by simp
qed

text \<open>
  A request that is accepted is bounded and unambiguous. The reader ends on every stream; what
  it accepts has one of four methods, fewer than a hundred header fields, each from a line of at most
  8192 bytes, trimmed and free of line breaks, a path without query or fragment, an unambiguous
  body length of at most a megabyte, and a body of exactly that length.
\<close>

theorem request_is_bounded:
  assumes "read_request clean cs = Inr (Some rq)"
  shows "rq_method rq \<in> {''GET'', ''POST'', ''HEAD'', ''OPTIONS''} \<and> length (rq_headers rq) < max_headers \<and>
    list_all field_ok (rq_headers rq) \<and> length (rq_body rq) = content_length (rq_headers rq) \<and>
    length (rq_body rq) \<le> max_body \<and> set (rq_path rq) \<inter> {CHR ''?'', CHR ''#''} = {} \<and>
    is_ok (validate_http_smuggling (rq_headers rq))"
  using assms by (rule request_bounded)

definition sample_stream :: "string list" where
  "sample_stream = [''POST /mcp/alpha?x=1 HTTP/1.1'' @ crlf @ ''Authorization: Bearer mine'' @ crlf @ ''Cookie: s=1'' @ crlf @ ''Acc'',
     ''ept: text/html'' @ crlf @ ''Content-Length: 2'' @ crlf @ crlf, ''{}'']"

definition sample_request :: request where
  "sample_request = \<lparr>rq_method = ''POST'', rq_path = ''/mcp/alpha'',
     rq_headers = [(''Authorization'', ''Bearer mine''), (''Cookie'', ''s=1''), (''Accept'', ''text/html''), (''Content-Length'', ''2'')],
     rq_body = ''{}''\<rparr>"

lemma sample_read: "read_request True sample_stream = Inr (Some sample_request)"
  by code_simp

theorem request_is_bounded_witness:
  "read_request True sample_stream = Inr (Some sample_request) \<and> length (rq_body sample_request) = content_length (rq_headers sample_request)"
  using request_is_bounded [OF sample_read] sample_read by simp

subsection \<open>What the backend hears\<close>

text \<open>The header fields of a message head: its lines after the first, up to the blank one.\<close>

definition head_fields :: "string \<Rightarrow> (string \<times> string) list" where
  "head_fields s = List.map_filter (split_once (CHR '':'')) (tl (lines s))"

definition our_fields :: "tree \<Rightarrow> request \<Rightarrow> (string \<times> string) list" where
  "our_fields t rq = [(''Host'', t_addr t), (''Authorization'', ''Bearer '' @ t_token t),
     (''Content-Length'', dec_str (length (rq_body rq))), (''Connection'', ''close'')]"

lemma header_line_lines:
  "nl \<notin> set (fst kv) \<Longrightarrow> nl \<notin> set (snd kv) \<Longrightarrow> lines (header_line kv @ s) = (fst kv @ '': '' @ snd kv) # lines s"
proof -
  let ?x = "fst kv @ '': '' @ snd kv"
  assume "nl \<notin> set (fst kv)" "nl \<notin> set (snd kv)"
  then have "lines ((?x @ [cr]) @ nl # s) = strip_cr (?x @ [cr]) # lines s" by (intro lines_line) simp
  moreover have "strip_cr (y @ [cr]) = y" for y :: string by (simp add: strip_cr_def)
  moreover have "header_line kv @ s = (?x @ [cr]) @ nl # s" by (simp add: header_line_def)
  ultimately show ?thesis by (simp only:)
qed

lemma headers_lines:
  "\<forall>kv\<in>set kvs. nl \<notin> set (fst kv) \<and> nl \<notin> set (snd kv) \<Longrightarrow>
     lines (concat (map header_line kvs) @ s) = map (\<lambda>kv. fst kv @ '': '' @ snd kv) kvs @ lines s"
  by (induction kvs) (simp_all add: header_line_lines)

lemma split_fields:
  "\<forall>kv\<in>set kvs. CHR '':'' \<notin> set (fst kv) \<Longrightarrow>
     List.map_filter (split_once (CHR '':'')) (map (\<lambda>kv. fst kv @ '': '' @ snd kv) kvs) = map (\<lambda>kv. (fst kv, CHR '' '' # snd kv)) kvs"
proof (induction kvs)
  case (Cons kv kvs)
  then have "split_once (CHR '':'') (fst kv @ '': '' @ snd kv) = Some (fst kv, CHR '' '' # snd kv)"
    using split_once_append [of "CHR '':''" "fst kv"] by simp
  with Cons show ?case by (simp add: List.map_filter_simps)
qed (simp add: List.map_filter_simps)

lemma dec_str_plain: "c \<in> set (dec_str n) \<Longrightarrow> is_ascii_digit c"
  using dec_str_digits [of n] by (simp add: list_all_iff)

lemma backend_fields:
  assumes "list_all field_ok (rq_headers rq)" and "rq_method rq \<in> {''GET'', ''POST'', ''HEAD'', ''OPTIONS''}"
    and "nl \<notin> set (t_addr t)" and "nl \<notin> set (t_token t)"
  shows "head_fields (backend_head t rq) = map (\<lambda>kv. (fst kv, CHR '' '' # snd kv)) (kept_headers (rq_headers rq) @ our_fields t rq)"
proof -
  let ?kvs = "kept_headers (rq_headers rq) @ our_fields t rq"
  let ?m = "rq_method rq @ '' /mcp HTTP/1.1''"
  have nd: "\<not> is_ascii_digit nl" by code_simp
  have h: "backend_head t rq = (?m @ [cr]) @ nl # (concat (map header_line ?kvs) @ [cr, nl])"
    by (simp add: backend_head_def our_fields_def)
  have "nl \<notin> set (?m @ [cr])" using assms(2) by auto
  then have "lines (backend_head t rq) = strip_cr (?m @ [cr]) # lines (concat (map header_line ?kvs) @ [cr, nl])"
    unfolding h by (rule lines_line)
  moreover have ok: "\<forall>kv\<in>set ?kvs. nl \<notin> set (fst kv) \<and> nl \<notin> set (snd kv)" "\<forall>kv\<in>set ?kvs. CHR '':'' \<notin> set (fst kv)"
    using assms nd by (auto simp: kept_headers_def our_fields_def list_all_iff field_ok_def dest: dec_str_plain)
  moreover have "lines [cr, nl] = [[]]" by code_simp
  ultimately have "tl (lines (backend_head t rq)) = map (\<lambda>kv. fst kv @ '': '' @ snd kv) ?kvs @ [[]]"
    by (simp only: headers_lines list.sel)
  moreover have "List.map_filter (split_once (CHR '':'')) [[]] = []" by code_simp
  ultimately show ?thesis
    using split_fields [OF ok(2)] by (simp add: head_fields_def map_filter_append)
qed

text \<open>The address and token of a served tree are fields of a line.\<close>

lemma fold_ext_tree_all:
  "\<lbrakk>\<forall>x\<in>set ts. P x; \<forall>a b c. [''tree'', a, b, c] \<in> set ds \<longrightarrow> P \<lparr>t_name = a, t_addr = b, t_token = c\<rparr>\<rbrakk> \<Longrightarrow>
     \<forall>x\<in>set (fold ext_tree ds ts). P x"
proof (induction ds arbitrary: ts)
  case (Cons f ds)
  have "\<forall>x\<in>set (ext_tree f ts). P x"
  proof (cases f rule: fields_cases)
    case (four k a b c)
    then show ?thesis using Cons.prems by (auto simp: ext_tree_def)
  next
    case (three k a b)
    then show ?thesis using Cons.prems by (simp add: ext_tree_def)
  next
    case other
    from parse_fields_other(4) [OF other] show ?thesis using Cons.prems(1) by metis
  qed
  moreover have "\<forall>a b c. [''tree'', a, b, c] \<in> set ds \<longrightarrow> P \<lparr>t_name = a, t_addr = b, t_token = c\<rparr>"
    using Cons.prems(2) by (meson list.set_intros(2))
  ultimately have "\<forall>x\<in>set (fold ext_tree ds (ext_tree f ts)). P x" by (rule Cons.IH)
  then show ?case by (simp only: fold_simps)
qed simp

lemma parse_tree_plain:
  assumes "t \<in> set (r_trees (parse s))"
  shows "nl \<notin> set (t_addr t) \<and> nl \<notin> set (t_token t)"
proof -
  have "nl \<notin> set x" if f: "f \<in> set (directives (lines s))" and x: "x \<in> set f" for f x
  proof -
    obtain l where l: "l \<in> set (lines s)" "f = pieces tab (trim l)"
      using f by (auto simp: directives_def line_directive_def Let_def split: if_splits)
    then have "set x \<subseteq> set l" using set_pieces [of x tab "trim l"] x set_trim [of l] by auto
    then show ?thesis using lines_no_nl [OF l(1)] by auto
  qed
  then have "\<forall>a b c. [''tree'', a, b, c] \<in> set (directives (lines s)) \<longrightarrow> nl \<notin> set b \<and> nl \<notin> set c" by fastforce
  then have "\<forall>x\<in>set (fold ext_tree (directives (lines s)) []). nl \<notin> set (t_addr x) \<and> nl \<notin> set (t_token x)"
    by (intro fold_ext_tree_all) simp_all
  then show ?thesis using assms by (simp add: parse_directives fold_parse_fields_sel)
qed

text \<open>
  What a caller must not decide, independently of the program: the credentials a request can carry, the headers
  that frame a message or steer its connection, and those that name the parties of it. A header name is compared
  without regard to case.
\<close>

definition credential_headers :: "string list" where
  "credential_headers = [''authorization'', ''proxy-authorization'', ''cookie'']"

definition framing_headers :: "string list" where
  "framing_headers = [''content-length'', ''transfer-encoding'', ''connection'', ''upgrade'']"

definition party_headers :: "string list" where
  "party_headers = [''host'', ''origin'', ''x-forwarded-for'', ''x-forwarded-host'', ''x-forwarded-proto'']"

definition heard :: "string list \<Rightarrow> (string \<times> string) list \<Rightarrow> (string \<times> string) list" where
  "heard names kvs = filter (\<lambda>(k, _). to_ascii_lowercase k \<in> set names) kvs"

lemma heard_append [simp]: "heard names (xs @ ys) = heard names xs @ heard names ys"
  by (simp add: heard_def)

lemma heard_map: "heard names (map (\<lambda>kv. (fst kv, f (snd kv))) kvs) = map (\<lambda>kv. (fst kv, f (snd kv))) (heard names kvs)"
  unfolding heard_def by (induction kvs) auto

lemma heard_kept: "set names \<subseteq> set dropped_headers \<Longrightarrow> heard names (kept_headers hs) = []"
  unfolding heard_def kept_headers_def by (induction hs) auto

lemma kept_headers_exact:
  "kept_headers hs = filter (\<lambda>(k, _). to_ascii_lowercase k \<notin> set (credential_headers @ framing_headers @ party_headers)) hs"
  unfolding kept_headers_def by (rule filter_cong) (auto simp: dropped_headers_def credential_headers_def framing_headers_def party_headers_def)

lemma our_fields_heard:
  "heard credential_headers (our_fields t rq) = [(''Authorization'', ''Bearer '' @ t_token t)]"
  "heard framing_headers (our_fields t rq) = [(''Content-Length'', dec_str (length (rq_body rq))), (''Connection'', ''close'')]"
  "heard party_headers (our_fields t rq) = [(''Host'', t_addr t)]"
proof -
  have l: "to_ascii_lowercase ''Host'' = ''host''" "to_ascii_lowercase ''Authorization'' = ''authorization''"
    "to_ascii_lowercase ''Content-Length'' = ''content-length''" "to_ascii_lowercase ''Connection'' = ''connection''" by code_simp+
  show "heard credential_headers (our_fields t rq) = [(''Authorization'', ''Bearer '' @ t_token t)]"
    "heard framing_headers (our_fields t rq) = [(''Content-Length'', dec_str (length (rq_body rq))), (''Connection'', ''close'')]"
    "heard party_headers (our_fields t rq) = [(''Host'', t_addr t)]"
    by (simp_all add: heard_def our_fields_def l credential_headers_def framing_headers_def party_headers_def)
qed

text \<open>
  C28. The caller's credentials stop here. For every accepted request and every tree of a
  rights file, whatever headers the caller sent: the backend reads exactly one credential, the tree's own token; exactly one
  framing of the message, the length of the body that follows and the end of the connection; exactly one
  name of a party, the tree's address; and of all other headers exactly the caller's, in their order.
\<close>

theorem backend_hears_one_credential:
  assumes "read_request clean cs = Inr (Some rq)" and "t \<in> set (r_trees (parse s))"
  shows "heard credential_headers (head_fields (backend_head t rq)) = [(''Authorization'', '' Bearer '' @ t_token t)] \<and>
    heard framing_headers (head_fields (backend_head t rq)) =
      [(''Content-Length'', '' '' @ dec_str (length (rq_body rq))), (''Connection'', '' close'')] \<and>
    heard party_headers (head_fields (backend_head t rq)) = [(''Host'', '' '' @ t_addr t)] \<and>
    filter (\<lambda>(k, _). to_ascii_lowercase k \<notin> set (credential_headers @ framing_headers @ party_headers)) (head_fields (backend_head t rq)) =
      map (\<lambda>kv. (fst kv, '' '' @ snd kv))
        (filter (\<lambda>(k, _). to_ascii_lowercase k \<notin> set (credential_headers @ framing_headers @ party_headers)) (rq_headers rq))"
proof -
  let ?f = "\<lambda>kv. (fst kv, CHR '' '' # snd kv)" and ?P = "\<lambda>(k, _). to_ascii_lowercase k \<notin> set (credential_headers @ framing_headers @ party_headers)"
  have h: "head_fields (backend_head t rq) = map ?f (kept_headers (rq_headers rq) @ our_fields t rq)"
    using backend_fields [of rq t] request_bounded [OF assms(1)] parse_tree_plain [OF assms(2)] by blast
  have s: "set credential_headers \<subseteq> set dropped_headers" "set framing_headers \<subseteq> set dropped_headers"
    "set party_headers \<subseteq> set dropped_headers"
    by (simp_all add: credential_headers_def framing_headers_def party_headers_def dropped_headers_def)
  have "filter ?P (our_fields t rq) = []"
  proof -
    have l: "to_ascii_lowercase ''Host'' = ''host''" "to_ascii_lowercase ''Authorization'' = ''authorization''"
      "to_ascii_lowercase ''Content-Length'' = ''content-length''" "to_ascii_lowercase ''Connection'' = ''connection''" by code_simp+
    show ?thesis by (simp add: our_fields_def l credential_headers_def framing_headers_def party_headers_def)
  qed
  moreover have "filter ?P (map ?f kvs) = map ?f (filter ?P kvs)" for kvs by (induction kvs) auto
  ultimately have "filter ?P (head_fields (backend_head t rq)) = map ?f (filter ?P (rq_headers rq))"
    by (simp only: h filter_append kept_headers_exact filter_filter map_append) (simp add: conj_commute)
  then show ?thesis
    by (simp add: h heard_map heard_kept [OF s(1)] heard_kept [OF s(2)] heard_kept [OF s(3)] our_fields_heard)
qed

theorem backend_hears_one_credential_witness:
  "heard credential_headers (head_fields (backend_head \<lparr>t_name = ''a'', t_addr = ''h:1'', t_token = ''ours''\<rparr> sample_request)) =
     [(''Authorization'', '' Bearer ours'')]"
proof -
  have "r_trees (parse (join [tab] [''tree'', ''a'', ''h:1'', ''ours''])) = [\<lparr>t_name = ''a'', t_addr = ''h:1'', t_token = ''ours''\<rparr>]"
    by code_simp
  then have t: "\<lparr>t_name = ''a'', t_addr = ''h:1'', t_token = ''ours''\<rparr> \<in> set (r_trees (parse (join [tab] [''tree'', ''a'', ''h:1'', ''ours''])))"
    by simp
  show ?thesis using backend_hears_one_credential [OF sample_read t] by simp
qed

subsection \<open>Chunks\<close>

definition flat_rest :: "('e, 'a \<times> string list) result \<Rightarrow> ('e, 'a \<times> string) result" where
  "flat_rest r = (case r of Inl e \<Rightarrow> Inl e | Inr (l, cs) \<Rightarrow> Inr (l, concat cs))"

lemma find_char_skip: "\<forall>x\<in>set c. \<not> P x \<Longrightarrow> find_char P (c @ d) = map_option ((+) (length c)) (find_char P d)"
proof (induction c)
  case Nil
  then show ?case by (cases "find_char P d") simp_all
next
  case (Cons x c)
  then show ?case by (cases "find_char P d") simp_all
qed

lemma find_char_first: "find_char P c = Some i \<Longrightarrow> find_char P (c @ d) = Some i"
  by (induction c arbitrary: i) (auto split: if_splits)

lemma concat_unread [simp]: "concat (unread c cs) = c @ concat cs"
  by (simp add: unread_def)

lemma ascii_append: "ascii (a @ b) \<longleftrightarrow> ascii a \<and> ascii b"
  by (auto simp: ascii_def)

lemma ascii_take: "ascii a \<Longrightarrow> ascii (take n a)"
  by (auto simp: ascii_def list_all_iff dest: in_set_takeD)

lemma read_line_flat:
  "\<lbrakk>ascii (concat cs); [] \<notin> set cs; length line = tot\<rbrakk> \<Longrightarrow>
     flat_rest (read_line_loop limit clean cs tot line) = flat_rest (read_line_loop limit clean (unread (concat cs) []) tot line)"
proof (induction cs arbitrary: tot line)
  case Nil
  then show ?case by (simp add: unread_def)
next
  case (Cons c cs)
  let ?d = "concat cs"
  have a: "ascii c" "ascii ?d" "c \<noteq> []" "[] \<notin> set cs" using Cons.prems by (auto simp: ascii_append)
  have v: "utf8_valid x" if "ascii x" for x using that by (rule ascii_utf8_valid)
  have u: "unread (c @ ?d) [] = [c @ ?d]" using a(3) by (simp add: unread_def)
  show ?case
  proof (cases "find_char (\<lambda>b. b = nl) c")
    case (Some pos)
    then have "pos < length c" using find_char_Some by blast
    then have t: "take (pos + 1) (c @ ?d) = take (pos + 1) c" "drop (pos + 1) (c @ ?d) = drop (pos + 1) c @ ?d" by simp_all
    have l: "read_line_loop limit clean (c' # cs') tot line =
        (if tot + length (take (pos + 1) c) > limit then Inl LineTooLong
         else Inr (Some (line @ take (pos + 1) c), unread (drop (pos + 1) c') cs'))"
      if "find_char (\<lambda>b. b = nl) c' = Some pos" "take (pos + 1) c' = take (pos + 1) c" for c' cs'
      unfolding read_line_loop.simps that option.case Let_def
      by (simp only: v [OF ascii_take [OF a(1)]] not_True_eq_False if_False)
    show ?thesis
      unfolding concat.simps u l [OF Some refl] l [OF find_char_first [OF Some] t(1)] t(2)
      by (cases "tot + length (take (pos + 1) c) > limit") (simp_all only: flat_rest_def if_True if_False sum.case prod.case concat_unread concat.simps append_Nil2)
  next
    case None
    then have no: "\<forall>x\<in>set c. \<not> x = nl" using find_char_None [of "\<lambda>b. b = nl" c] by simp
    show ?thesis
    proof (cases "tot + length c > limit")
      case True
      then have "read_line_loop limit clean (c # cs) tot line = Inl LineTooLong" using None by simp
      moreover have "read_line_loop limit clean [c @ ?d] tot line = Inl LineTooLong"
        using True by (cases "find_char (\<lambda>b. b = nl) ?d") (simp_all add: find_char_skip [OF no] Let_def)
      ultimately show ?thesis unfolding concat.simps u by (simp only:)
    next
      case False
      have ih: "flat_rest (read_line_loop limit clean cs (tot + length c) (line @ c)) =
          flat_rest (read_line_loop limit clean (unread ?d []) (tot + length c) (line @ c))"
        using Cons.IH [of "line @ c" "tot + length c"] a Cons.prems(3) by simp
      have l: "read_line_loop limit clean (c # cs) tot line = read_line_loop limit clean cs (tot + length c) (line @ c)"
        using None False v [OF a(1)] by simp
      show ?thesis
      proof (cases "?d = []")
        case True
        then have "cs = []" using a(4) by (cases cs) auto
        then show ?thesis using a(3) by (simp add: unread_def)
      next
        case False
        then have "unread ?d [] = [?d]" by (simp add: unread_def)
        moreover have "utf8_valid (take n ?d)" "utf8_valid (c @ take n ?d)" "utf8_valid ?d" "utf8_valid (c @ ?d)" for n
          using a v ascii_take [of ?d n] by (simp_all add: ascii_append)
        ultimately show ?thesis unfolding concat.simps l ih u
          by (cases "find_char (\<lambda>b. b = nl) ?d") (simp_all add: find_char_skip [OF no] flat_rest_def Let_def add.assoc)
      qed
    qed
  qed
qed

text \<open>
  How the bytes arrive does not matter while they are ASCII: reading a line from any
  chunks gives the same line or error, and leaves the same bytes, as reading it from all of them at
  once. A line that holds other characters can be refused only because a chunk ended inside one.
\<close>

theorem line_independent_of_chunks:
  assumes "ascii (concat cs)" and "[] \<notin> set cs"
  shows "flat_rest (read_bounded_line limit clean cs) = flat_rest (read_bounded_line limit clean (unread (concat cs) []))"
  unfolding read_bounded_line_def by (rule read_line_flat [OF assms]) simp

theorem line_independent_of_chunks_witness:
  "flat_rest (read_bounded_line 20 True [''GET '', ''/ HTTP'' @ [nl] @ ''x'', ''y'']) =
     flat_rest (read_bounded_line 20 True [''GET / HTTP'' @ [nl] @ ''xy'']) \<and>
   read_bounded_line 20 True [[char_of (0xC3::nat)], [char_of (0xBC::nat), nl]] = Inl LineNotUtf8 \<and>
   read_bounded_line 20 True [[char_of (0xC3::nat), char_of (0xBC::nat), nl]] = Inr (Some [char_of (0xC3::nat), char_of (0xBC::nat), nl], [])"
proof -
  have "ascii (concat [''GET '', ''/ HTTP'' @ [nl] @ ''x'', ''y''])" by code_simp
  from line_independent_of_chunks [OF this, of 20 True]
  have "flat_rest (read_bounded_line 20 True [''GET '', ''/ HTTP'' @ [nl] @ ''x'', ''y'']) =
     flat_rest (read_bounded_line 20 True [''GET / HTTP'' @ [nl] @ ''xy''])" by (simp add: unread_def)
  moreover have "read_bounded_line 20 True [[char_of (0xC3::nat)], [char_of (0xBC::nat), nl]] = Inl LineNotUtf8" by code_simp
  moreover have "read_bounded_line 20 True [[char_of (0xC3::nat), char_of (0xBC::nat), nl]] =
      Inr (Some [char_of (0xC3::nat), char_of (0xBC::nat), nl], [])" by code_simp
  ultimately show ?thesis by blast
qed

subsection \<open>Routing\<close>

text \<open>The path names a tree: what \<open>tree_of\<close> finds, said without it.\<close>

definition path_names :: "string \<Rightarrow> string \<Rightarrow> bool" where
  "path_names path name \<longleftrightarrow> is_valid_identifier name \<and>
     (\<exists>rest. url_decode path = Some (''/mcp/'' @ name @ rest) \<and> (rest = [] \<or> hd rest \<in> {CHR ''/'', CHR ''?''}))"

lemma tree_of_iff: "tree_of path = Some name \<longleftrightarrow> path_names path name"
proof
  let ?P = "\<lambda>c. c \<noteq> CHR ''/'' \<and> c \<noteq> CHR ''?''"
  assume t: "tree_of path = Some name"
  then obtain d where d: "url_decode path = Some d" unfolding tree_of_def by (cases "url_decode path") simp_all
  with t obtain rest where p: "strip_prefix ''/mcp/'' d = Some rest" unfolding tree_of_def by (cases "strip_prefix ''/mcp/'' d") simp_all
  have n: "is_valid_identifier (takeWhile ?P rest)" "name = takeWhile ?P rest"
    using t unfolding tree_of_def d p option.case Let_def by (simp_all split: if_splits)
  have "dropWhile ?P rest = [] \<or> hd (dropWhile ?P rest) \<in> {CHR ''/'', CHR ''?''}"
    using hd_dropWhile [of ?P rest] by (cases "dropWhile ?P rest = []") simp_all
  moreover have "url_decode path = Some (''/mcp/'' @ name @ dropWhile ?P rest)"
    unfolding d n(2) takeWhile_dropWhile_id by (rule arg_cong [OF iffD1 [OF strip_prefix_Some p]])
  moreover have "is_valid_identifier name" unfolding n(2) by (rule n(1))
  ultimately show "path_names path name" unfolding path_names_def by (intro conjI exI)
next
  let ?P = "\<lambda>c. c \<noteq> CHR ''/'' \<and> c \<noteq> CHR ''?''"
  assume "path_names path name"
  then obtain rest where r: "is_valid_identifier name" "url_decode path = Some (''/mcp/'' @ name @ rest)"
    "rest = [] \<or> hd rest \<in> {CHR ''/'', CHR ''?''}"
    by (auto simp only: path_names_def)
  have i: "\<not> ident_char (CHR ''/'')" "\<not> ident_char (CHR ''?'')" by code_simp+
  have "\<forall>c\<in>set name. ?P c" using identifier_chars [OF r(1)] i unfolding list_all_iff by metis
  then have "takeWhile ?P (name @ rest) = name @ takeWhile ?P rest" by (intro takeWhile_append2) blast
  moreover have "takeWhile ?P rest = []" using r(3) by (cases rest) auto
  ultimately have w: "takeWhile ?P (name @ rest) = name" by simp
  show "tree_of path = Some name" unfolding tree_of_def r(2) option.case strip_prefix_append Let_def w using r(1) by (simp only: if_True)
qed

text \<open>
  C35. A request is forwarded exactly where its caller may go by the rights file's own lines, and the answer says nothing of the rest.
  It is routed to a tree if and only if the caller is known, the percent-decoded path is \<open>/mcp/\<close> and the name of the tree, ended or followed by a
  slash or question mark, and the rights file serves a tree of that name and gives it to the caller by a grant or by a role the caller is a member of. The answer is the same as if the
  trees the caller may not reach were not in the file: withheld and unknown cannot be told apart. The
  identity provider's groups do not count: a caller who may use the tree only through a group
  is not forwarded, though every other endpoint admits the call.
\<close>

theorem route_exact:
  "(route r user path = To t \<longleftrightarrow> (\<exists>u name. user = Some u \<and> path_names path name \<and>
       (hm_has (r_grants r) u name \<or> (\<exists>role. hm_has (r_members r) u role \<and> hm_has (r_roles r) role name)) \<and>
       find (\<lambda>t. t_name t = name) (r_trees r) = Some t)) \<and>
   (route r user path = Unauthenticated \<longleftrightarrow> user = None) \<and>
   (\<forall>u. route r (Some u) path = route (r\<lparr>r_trees := filter (\<lambda>t. may_with_groups r u [] (t_name t)) (r_trees r)\<rparr>) (Some u) path) \<and>
   (\<forall>u gs name. path_names path name \<and> may_with_groups r u gs name \<and> \<not> may_with_groups r u [] name \<longrightarrow>
      route r (Some u) path = RouteNotFound)"
proof (intro conjI allI impI)
  have may: "may r u name \<longleftrightarrow> hm_has (r_grants r) u name \<or> (\<exists>role. hm_has (r_members r) u role \<and> hm_has (r_roles r) role name)" for u name
    by (auto simp: may_def may_iff set_roles_for)
  show "route r user path = To t \<longleftrightarrow> (\<exists>u name. user = Some u \<and> path_names path name \<and>
       (hm_has (r_grants r) u name \<or> (\<exists>role. hm_has (r_members r) u role \<and> hm_has (r_roles r) role name)) \<and>
       find (\<lambda>t. t_name t = name) (r_trees r) = Some t)"
    unfolding tree_of_iff [symmetric] may [symmetric] by (auto simp: route_def tree_named_def split: option.splits)
  show "route r user path = Unauthenticated \<longleftrightarrow> user = None" by (auto simp: route_def split: option.splits)
next
  fix u
  let ?r = "r\<lparr>r_trees := filter (\<lambda>t. may_with_groups r u [] (t_name t)) (r_trees r)\<rparr>"
  have "may ?r u name = may r u name" for name by (simp add: may_def may_with_groups_def roles_for_def)
  moreover have "tree_named ?r name = tree_named r name" if "may r u name" for name
  proof -
    have "find (\<lambda>t. t_name t = name) (filter (\<lambda>t. may_with_groups r u [] (t_name t)) ts) = find (\<lambda>t. t_name t = name) ts" for ts
      using that by (induction ts) (auto simp: may_def)
    then show ?thesis by (simp add: tree_named_def)
  qed
  ultimately show "route r (Some u) path = route ?r (Some u) path" by (auto simp: route_def split: option.splits)
next
  fix u gs name
  assume "path_names path name \<and> may_with_groups r u gs name \<and> \<not> may_with_groups r u [] name"
  then show "route r (Some u) path = RouteNotFound" by (simp add: route_def may_def flip: tree_of_iff)
qed

definition grouped_rights :: rights where
  "grouped_rights = rights_default\<lparr>r_trees := [\<lparr>t_name = ''alpha'', t_addr = ''h:1'', t_token = ''k''\<rparr>],
     r_roles := [(''dev'', [''alpha''])], r_groups := [(''staff'', [''dev''])]\<rparr>"

theorem route_exact_witness:
  "may_with_groups grouped_rights ''anna'' [''staff''] ''alpha'' \<and> tree_named grouped_rights ''alpha'' \<noteq> None \<and>
     route grouped_rights (Some ''anna'') ''/mcp/alpha'' = RouteNotFound"
proof -
  have m: "may_with_groups grouped_rights ''anna'' [''staff''] ''alpha''" "\<not> may_with_groups grouped_rights ''anna'' [] ''alpha''"
    "tree_named grouped_rights ''alpha'' \<noteq> None" "tree_of ''/mcp/alpha'' = Some ''alpha''" by code_simp+
  have "route grouped_rights (Some ''anna'') ''/mcp/alpha'' = RouteNotFound"
    using route_exact [where r = grouped_rights and path = "''/mcp/alpha''" and user = None and t = undefined,
      THEN conjunct2, THEN conjunct2, THEN conjunct2, rule_format, of "''alpha''" "''anna''" "[''staff'']"] m tree_of_iff by blast
  then show ?thesis using m by blast
qed

end
