(* ===== verification/Http_Replies.thy ===== *)
theory Http_Replies
  imports Proxy Oidc
begin

text \<open>
  What the server writes on a connection: the \<^verbatim>\<open>respond\<close> family of
  \<^verbatim>\<open>src/main.rs\<close> as exact byte strings, with the fixed headers of
  \<^verbatim>\<open>src/security.rs\<close>, and the two small checks on addresses and origins. The
  result is that a reader of the answer finds exactly the intended head and body.
\<close>

subsection \<open>Messages\<close>

abbreviation single_quote :: char where "single_quote \<equiv> CHR 0x27"

definition http_message :: "string \<Rightarrow> (string \<times> string) list \<Rightarrow> string \<Rightarrow> string" where
  "http_message status fs body = ''HTTP/1.1 '' @ status @ crlf @ concat (map header_line fs) @ crlf @ body"

definition security_headers :: "(string \<times> string) list" where
  "security_headers =
    [(''X-Content-Type-Options'', ''nosniff''), (''X-Frame-Options'', ''DENY''),
     (''Strict-Transport-Security'', ''max-age=63072000; includeSubDomains; preload''),
     (''Content-Security-Policy'', ''default-src 'none'; frame-ancestors 'none'' @ [single_quote]),
     (''Cache-Control'', ''no-store, no-cache, must-revalidate, private''),
     (''Referrer-Policy'', ''no-referrer'')]"

definition framing :: "string \<Rightarrow> (string \<times> string) list" where
  "framing body = [(''Content-Length'', dec_str (length body)), (''Connection'', ''close'')]"

definition respond_text :: "string \<Rightarrow> string \<Rightarrow> string \<Rightarrow> string" where
  "respond_text status content_type body =
     http_message status ([(''Content-Type'', content_type)] @ security_headers @ framing body) body"

definition respond :: "string \<Rightarrow> string \<Rightarrow> string" where
  "respond status body = respond_text status ''text/plain'' body"

definition respond_json :: "string \<Rightarrow> string \<Rightarrow> string" where
  "respond_json status body = respond_text status ''application/json'' body"

definition respond_audit :: "string \<Rightarrow> string \<Rightarrow> string" where
  "respond_audit status body = respond_text status ''text/plain'' body"

definition bad_credential :: string where
  "bad_credential = ''bad, expired or missing credential''"

definition unauthorized :: string where
  "unauthorized = http_message ''401 Unauthorized''
     ([(''Content-Type'', ''text/plain''),
       (''WWW-Authenticate'', ''Bearer realm='' @ quote_char # ''glasir-control'' @ quote_char # '', error='' @ quote_char #
          ''invalid_token'' @ quote_char # '', error_description='' @ quote_char # bad_credential @ [quote_char])] @
      security_headers @ [(''Content-Length'', ''34''), (''Connection'', ''close'')]) bad_credential"

definition too_many_requests :: string where
  "too_many_requests = http_message ''429 Too Many Requests''
     ([(''Content-Type'', ''text/plain''), (''Retry-After'', ''1'')] @ security_headers @
      [(''Content-Length'', ''20''), (''Connection'', ''close'')]) (''rate limit exceeded'' @ [nl])"

definition cors_fields :: "string option \<Rightarrow> (string \<times> string) list" where
  "cors_fields allowed = (case allowed of None \<Rightarrow> []
     | Some origin \<Rightarrow> [(''Access-Control-Allow-Origin'', origin), (''Vary'', ''Origin'')])"

definition respond_options :: "string option \<Rightarrow> string" where
  "respond_options allowed = http_message ''204 No Content''
     ([(''Allow'', ''GET, POST, OPTIONS''), (''Access-Control-Allow-Methods'', ''GET, POST, OPTIONS''),
       (''Access-Control-Allow-Headers'', ''Authorization, Content-Type, X-Hub-Signature-256, X-Gitlab-Token'')] @
      cors_fields allowed @ security_headers @ [(''Content-Length'', ''0''), (''Connection'', ''close'')]) []"

definition console_csp :: "sso option \<Rightarrow> string" where
  "console_csp s = ''default-src 'none'; script-src 'self'; style-src 'self'; connect-src 'self'' @ [single_quote] @
     (case s of None \<Rightarrow> [] | Some x \<Rightarrow> CHR '' '' # s_token_origin x) @
     ''; base-uri 'none'; form-action 'none'; frame-ancestors 'none'' @ [single_quote]"

definition respond_ui :: "string \<Rightarrow> string \<Rightarrow> sso option \<Rightarrow> string" where
  "respond_ui content_type body s = http_message ''200 OK''
     ([(''Content-Type'', content_type), (''X-Content-Type-Options'', ''nosniff''), (''X-Frame-Options'', ''DENY''),
       (''Cache-Control'', ''no-store''), (''Referrer-Policy'', ''no-referrer''),
       (''Content-Security-Policy'', console_csp s)] @ framing body) body"

subsection \<open>Addresses and origins\<close>

definition is_loopback :: "string \<Rightarrow> bool" where
  "is_loopback addr \<longleftrightarrow> starts_with ''127.'' addr \<or> starts_with ''localhost:'' addr \<or> starts_with ''[::1]'' addr"

definition origin_allowed :: "string option \<Rightarrow> string option \<Rightarrow> bool" where
  "origin_allowed origin allowed = (case origin of None \<Rightarrow> True
     | Some o' \<Rightarrow> (case allowed of None \<Rightarrow> False | Some v \<Rightarrow> v = o'))"

subsection \<open>Reading a message\<close>

text \<open>A client that reads as the program itself reads: the status line, the fields, the body, what follows.\<close>

definition read_reply :: "string \<Rightarrow> (string \<times> (string \<times> string) list \<times> string \<times> string) option" where
  "read_reply s = (case read_bounded_line max_line_bytes True [s] of
       Inr (Some start, cs1) \<Rightarrow> (case read_headers True cs1 [] of
           Inr (fs, cs2) \<Rightarrow> (case read_exact (content_length fs) cs2 of
               Inr body \<Rightarrow> Some (trim start, fs, body, drop (content_length fs) (concat cs2))
             | Inl _ \<Rightarrow> None)
         | Inl _ \<Rightarrow> None)
     | _ \<Rightarrow> None)"

text \<open>A text of printable ASCII that neither begins nor ends with a blank, as all the program's own fields are.\<close>

definition printable :: "char \<Rightarrow> bool" where
  "printable c \<longleftrightarrow> 32 \<le> byte c \<and> byte c < 127"

definition visible :: "string \<Rightarrow> bool" where
  "visible s \<longleftrightarrow> s \<noteq> [] \<and> list_all printable s \<and> hd s \<noteq> CHR '' '' \<and> last s \<noteq> CHR '' '' \<and> length s \<le> 4000"

definition writable_field :: "string \<times> string \<Rightarrow> bool" where
  "writable_field kv \<longleftrightarrow> visible (fst kv) \<and> visible (snd kv) \<and> CHR '':'' \<notin> set (fst kv)"

lemma printable_plain: "printable c \<Longrightarrow> c \<noteq> nl \<and> c \<noteq> cr \<and> byte c < 128 \<and> (c \<noteq> CHR '' '' \<longrightarrow> \<not> ws_byte c)"
proof -
  assume p: "printable c"
  have "ws_byte c \<Longrightarrow> c = CHR '' ''"
  proof -
    assume "ws_byte c"
    then have "byte c = byte (CHR '' '')" using p by (auto simp: ws_byte_iff printable_def byte_def)
    then show ?thesis by (simp only: byte_inject)
  qed
  moreover have "c \<noteq> nl" "c \<noteq> cr" using p by (auto simp: printable_def byte_def)
  ultimately show ?thesis using p by (auto simp: printable_def)
qed

lemma visible_ascii: "list_all printable s \<Longrightarrow> ascii s \<and> nl \<notin> set s \<and> cr \<notin> set s"
  using printable_plain by (auto simp: ascii_def list_all_iff)

lemma visible_trim: "visible s \<Longrightarrow> trim s = s"
  using printable_plain by (intro trim_plain) (auto simp: visible_def list_all_iff visible_ascii)

lemma trim_blank: "visible s \<Longrightarrow> trim (CHR '' '' # s) = s"
proof -
  assume v: "visible s"
  then have a: "ascii s" "ascii (CHR '' '' # s)" using visible_ascii [of s] by (auto simp: visible_def ascii_def byte_def)
  have "is_whitespace [CHR '' '']" by (simp add: is_whitespace_def whitespace_chars_def)
  then have t: "dropWhile is_whitespace (uchars (CHR '' '' # s)) = dropWhile is_whitespace (uchars s)"
    by (simp add: uchars_ascii [OF a(1)] uchars_ascii [OF a(2)] del: uchars.simps)
  then have "trim_start (CHR '' '' # s) = trim_start s" by (simp add: trim_start_def)
  then have "trim (CHR '' '' # s) = trim s" by (simp add: trim_def)
  then show ?thesis using visible_trim [OF v] by simp
qed

lemma trim_crlf: "trim (s @ crlf) = trim s"
  using trim_append_nl [of "s @ [cr]"] trim_append_cr [of s] by simp

lemma read_line_here:
  assumes "list_all printable l" and "length l < 8190"
  shows "read_bounded_line max_line_bytes True [l @ crlf @ s] = Inr (Some (l @ crlf), unread s [])"
proof -
  have "nl \<notin> set (l @ [cr])" and u: "utf8_valid ((l @ [cr]) @ [nl])"
    using visible_ascii [OF assms(1)] by (auto intro!: ascii_utf8_valid simp: ascii_def byte_def)
  then have "find_char (\<lambda>b. b = nl) ((l @ [cr]) @ nl # s) = Some (length (l @ [cr]))" by (intro find_char_append) auto
  then have f: "find_char (\<lambda>b. b = nl) (l @ crlf @ s) = Some (length l + 1)" by simp
  have t: "take (length l + 1 + 1) (l @ crlf @ s) = l @ crlf" "drop (length l + 1 + 1) (l @ crlf @ s) = s" by simp_all
  show ?thesis using assms(2) u
    by (simp only: read_bounded_line_def read_line_loop.simps f option.case Let_def t)
      (simp add: max_line_bytes_def)
qed

text \<open>The fields of a written head are read back, in order, and the reader stops at the body.\<close>

lemma read_headers_written:
  "\<lbrakk>list_all writable_field fs; length acc + length fs < max_headers\<rbrakk> \<Longrightarrow>
     read_headers True [concat (map header_line fs) @ crlf @ body] acc = Inr (acc @ fs, unread body [])"
proof (induction fs arbitrary: acc)
  case Nil
  have "read_bounded_line max_line_bytes True [crlf @ body] = Inr (Some crlf, unread body [])"
    using read_line_here [of "[]" body] by simp
  then show ?case using Nil by (subst read_headers.simps) simp
next
  case (Cons kv fs)
  obtain k v where kv: "kv = (k, v)" by (cases kv)
  have w: "visible k" "visible v" "CHR '':'' \<notin> set k" using Cons.prems(1) by (simp_all add: writable_field_def kv)
  let ?l = "k @ '': '' @ v" and ?rest = "concat (map header_line fs) @ crlf @ body"
  have "list_all printable ?l" "length ?l < 8190"
    using w by (simp_all add: visible_def printable_def byte_def)
  from read_line_here [OF this, of ?rest]
  have l: "read_bounded_line max_line_bytes True [concat (map header_line (kv # fs)) @ crlf @ body] =
      Inr (Some (?l @ crlf), [?rest])" by (simp add: kv header_line_def unread_def)
  have n: "?l @ crlf \<noteq> [cr, nl]" "?l @ crlf \<noteq> [nl]" using w(1) by (auto simp: visible_def)
  have s: "split_once (CHR '':'') (?l @ crlf) = Some (k, (CHR '' '' # v) @ crlf)"
    using split_once_append [OF w(3), of "CHR '' '' # v @ crlf"] by simp
  have t: "trim ((CHR '' '' # v) @ crlf) = v" "trim k = k"
    by (simp_all only: trim_crlf trim_blank [OF w(2)] visible_trim [OF w(1)])
  have IH: "read_headers True [?rest] (acc @ [(k, v)]) = Inr ((acc @ [(k, v)]) @ fs, unread body [])"
    by (rule Cons.IH) (use Cons.prems in auto)
  have m: "\<not> max_headers \<le> length acc" using Cons.prems(2) by simp
  show ?case
    by (subst read_headers.simps) (simp only: l m n s t IH if_False sum.case prod.case option.case list.distinct simp_thms, simp add: kv)
qed

lemma message_read_back:
  assumes "list_all printable (''HTTP/1.1 '' @ status)" and "visible (''HTTP/1.1 '' @ status)" and "list_all writable_field fs"
    and "length fs < max_headers" and "header_in ''content-length'' fs = Some (dec_str (length body))" and "length body < 2 ^ 64"
  shows "read_reply (http_message status fs body) = Some (''HTTP/1.1 '' @ status, fs, body, [])"
proof -
  let ?l = "''HTTP/1.1 '' @ status" and ?rest = "concat (map header_line fs) @ crlf @ body"
  have "length ?l < 8190" using assms(2) by (simp add: visible_def)
  from read_line_here [OF assms(1) this, of ?rest]
  have l: "read_bounded_line max_line_bytes True [http_message status fs body] = Inr (Some (?l @ crlf), [?rest])"
    by (simp add: http_message_def unread_def)
  have h: "read_headers True [?rest] [] = Inr (fs, unread body [])"
    using read_headers_written [OF assms(3), of "[]" body] assms(4) by simp
  have c: "content_length fs = length body"
    using assms(5) parse_uint_dec_str [OF assms(6)] by (simp add: content_length_def)
  have t: "trim (?l @ crlf) = ?l" by (simp only: trim_crlf visible_trim [OF assms(2)])
  have e: "read_exact (length body) (unread body []) = Inr body" "drop (length body) (concat (unread body [])) = []"
    by (simp_all add: read_exact_def)
  show ?thesis by (simp only: read_reply_def l sum.case prod.case option.case h c e t)
qed

lemma printable_dec_str: "list_all printable (dec_str n)"
  using dec_str_digits [of n] by (auto simp: list_all_iff printable_def is_ascii_digit_def)

lemma visible_dec_str: "n < 2 ^ 64 \<Longrightarrow> visible (dec_str n)"
proof -
  assume n: "n < 2 ^ 64"
  have "c \<noteq> CHR '' ''" if "is_ascii_digit c" for c using that by (auto simp: is_ascii_digit_def byte_def)
  then have "hd (dec_str n) \<noteq> CHR '' ''" "last (dec_str n) \<noteq> CHR '' ''"
    using dec_str_digits [of n] hd_in_set [of "dec_str n"] last_in_set [of "dec_str n"] by (auto simp: list_all_iff)
  moreover have "length (dec_str m) \<le> k" if "m < 10 ^ k" and "0 < k" for m k
    using that
  proof (induction k arbitrary: m)
    case (Suc k)
    show ?case
    proof (cases "m < 10")
      case True
      then show ?thesis by (subst dec_str.simps) simp
    next
      case False
      then have "m div 10 < 10 ^ k" "0 < k" using Suc.prems(1) by (auto intro!: Nat.gr0I simp: less_mult_imp_div_less)
      then show ?thesis using Suc.IH [of "m div 10"] False by (subst dec_str.simps) simp
    qed
  qed simp
  from this [of n 20] n have "length (dec_str n) \<le> 20" by simp
  ultimately show ?thesis using printable_dec_str by (simp add: visible_def)
qed

subsection \<open>Every answer is one message\<close>

lemma visible_consts:
  "list_all writable_field security_headers" "visible ''text/plain''" "visible bad_credential"
  "visible (''HTTP/1.1 401 Unauthorized'')" "visible (''HTTP/1.1 429 Too Many Requests'')" "visible (''HTTP/1.1 204 No Content'')"
  "visible (''HTTP/1.1 200 OK'')" "length security_headers = 6"
  by code_simp+

lemma framing_writable: "length body < 2 ^ 64 \<Longrightarrow> list_all writable_field (framing body)"
proof -
  have c: "visible ''Content-Length''" "CHR '':'' \<notin> set ''Content-Length''" "writable_field (''Connection'', ''close'')" by code_simp+
  assume "length body < 2 ^ 64"
  then show ?thesis using c visible_dec_str by (simp add: framing_def writable_field_def)
qed

lemma content_type_writable: "visible ct \<Longrightarrow> writable_field (''Content-Type'', ct)"
proof -
  have "visible ''Content-Type''" "CHR '':'' \<notin> set ''Content-Type''" by code_simp+
  then show "visible ct \<Longrightarrow> writable_field (''Content-Type'', ct)" by (simp add: writable_field_def)
qed

lemma header_in_append: "header_in n (a @ b) = (case header_in n a of None \<Rightarrow> header_in n b | Some v \<Rightarrow> Some v)"
  by (induction a) (auto simp: header_in_def split: option.splits)

lemma header_in_Cons: "header_in n ((k, v) # fs) = (if eq_ignore_ascii_case k n then Some v else header_in n fs)"
  by (simp add: header_in_def)

lemma header_in_Nil: "header_in n [] = None"
  by (simp add: header_in_def)

lemma no_length_consts:
  "header_in ''content-length'' security_headers = None" "\<not> eq_ignore_ascii_case ''Content-Type'' ''content-length''"
  "eq_ignore_ascii_case ''Content-Length'' ''content-length''"
  by code_simp+

lemma text_read_back:
  assumes "visible (''HTTP/1.1 '' @ status)" and "visible ct" and "length body < 2 ^ 64"
  shows "read_reply (respond_text status ct body) =
    Some (''HTTP/1.1 '' @ status, (''Content-Type'', ct) # security_headers @ framing body, body, [])"
  unfolding respond_text_def
proof (subst message_read_back)
  show "list_all printable (''HTTP/1.1 '' @ status)" using assms(1) by (simp only: visible_def)
  show "list_all writable_field ([(''Content-Type'', ct)] @ security_headers @ framing body)"
    using framing_writable [OF assms(3)] content_type_writable [OF assms(2)] visible_consts(1) by simp
  show "length ([(''Content-Type'', ct)] @ security_headers @ framing body) < max_headers"
    by (simp add: visible_consts(8) framing_def max_headers_def)
  show "header_in ''content-length'' ([(''Content-Type'', ct)] @ security_headers @ framing body) = Some (dec_str (length body))"
    by (simp add: header_in_append header_in_Cons no_length_consts framing_def)
qed (use assms in simp_all)

lemma csp_source_visible:
  assumes "csp_source s" and "length s \<le> 3000"
  shows "visible s"
proof -
  have p: "printable c \<and> c \<noteq> CHR '' ''" if "c \<in> set s" for c
  proof -
    have "32 < byte c" "byte c < 127" using assms(1) that by (simp_all add: csp_source_def)
    moreover have "byte (CHR '' '') = 32" by code_simp
    ultimately show ?thesis by (auto simp: printable_def)
  qed
  have "s \<noteq> []" using assms(1) by (simp add: csp_source_def)
  with p [OF hd_in_set] p [OF last_in_set] p assms(2) show ?thesis by (simp add: visible_def list_all_iff)
qed

lemma visible_between:
  assumes "list_all printable a" and "list_all printable b" and "list_all printable m" and "a \<noteq> []" and "b \<noteq> []"
    and "hd a \<noteq> CHR '' ''" and "last b \<noteq> CHR '' ''" and "length a + length m + length b \<le> 4000"
  shows "visible (a @ m @ b)"
  using assms by (simp add: visible_def)

lemma console_csp_visible:
  assumes "\<forall>x. s = Some x \<longrightarrow> visible (s_token_origin x) \<and> length (s_token_origin x) \<le> 3000"
  shows "visible (console_csp s)"
  unfolding console_csp_def
proof (subst append_assoc [symmetric], rule visible_between)
  show "list_all printable (case s of None \<Rightarrow> [] | Some x \<Rightarrow> CHR '' '' # s_token_origin x)"
    using assms by (auto simp: visible_def printable_def byte_def split: option.split)
  have "length (case s of None \<Rightarrow> [] | Some x \<Rightarrow> CHR '' '' # s_token_origin x) \<le> 3001" using assms by (auto split: option.split)
  then show "length (''default-src 'none'; script-src 'self'; style-src 'self'; connect-src 'self'' @ [single_quote]) +
      length (case s of None \<Rightarrow> [] | Some x \<Rightarrow> CHR '' '' # s_token_origin x) +
      length (''; base-uri 'none'; form-action 'none'; frame-ancestors 'none'' @ [single_quote]) \<le> 4000" by simp
qed (code_simp+)

lemma fixed_read_back:
  assumes "s = http_message status fs body" and "visible (''HTTP/1.1 '' @ status)" and "list_all writable_field fs"
    and "length fs < 100" and "header_in ''content-length'' fs = Some (dec_str (length body))" and "length body < 2 ^ 64"
  shows "\<exists>fs'. read_reply s = Some (''HTTP/1.1 '' @ status, fs', body, []) \<and> (set fs' = set fs)"
  unfolding assms(1) using message_read_back [of status fs body] assms(2-) by (simp add: visible_def max_headers_def)

lemma sso_origin_visible: "sso_new c a t sc = Inr x \<Longrightarrow> length (s_token_origin x) \<le> 3000 \<Longrightarrow> visible (s_token_origin x)"
proof -
  assume n: "sso_new c a t sc = Inr x" and l: "length (s_token_origin x) \<le> 3000"
  have "origin_of t = Some (s_token_origin x)" using n by (auto simp: sso_new_def split: option.splits if_splits)
  then have "csp_source (s_token_origin x)" using origin_is_one_csp_source by blast
  then show "visible (s_token_origin x)" using l by (rule csp_source_visible)
qed

lemma cors_writable: "(\<forall>x. allowed = Some x \<longrightarrow> visible x) \<Longrightarrow> list_all writable_field (cors_fields allowed) \<and>
    header_in ''content-length'' (cors_fields allowed) = None \<and> length (cors_fields allowed) \<le> 2"
proof -
  have c: "visible ''Access-Control-Allow-Origin''" "CHR '':'' \<notin> set ''Access-Control-Allow-Origin''" "writable_field (''Vary'', ''Origin'')"
    "\<not> eq_ignore_ascii_case ''Access-Control-Allow-Origin'' ''content-length''" "\<not> eq_ignore_ascii_case ''Vary'' ''content-length''" by code_simp+
  assume "\<forall>x. allowed = Some x \<longrightarrow> visible x"
  then show ?thesis using c by (cases allowed) (simp_all add: cors_fields_def writable_field_def header_in_def)
qed

lemma no_length_others:
  "\<not> eq_ignore_ascii_case ''WWW-Authenticate'' ''content-length''" "\<not> eq_ignore_ascii_case ''Retry-After'' ''content-length''"
  "\<not> eq_ignore_ascii_case ''Allow'' ''content-length''" "\<not> eq_ignore_ascii_case ''Access-Control-Allow-Methods'' ''content-length''"
  "\<not> eq_ignore_ascii_case ''Access-Control-Allow-Headers'' ''content-length''"
  "\<not> eq_ignore_ascii_case ''X-Content-Type-Options'' ''content-length''" "\<not> eq_ignore_ascii_case ''X-Frame-Options'' ''content-length''"
  "\<not> eq_ignore_ascii_case ''Cache-Control'' ''content-length''" "\<not> eq_ignore_ascii_case ''Referrer-Policy'' ''content-length''"
  "\<not> eq_ignore_ascii_case ''Content-Security-Policy'' ''content-length''"
  by code_simp+

lemmas fields_in = header_in_append header_in_Cons header_in_Nil no_length_consts no_length_others

lemma unauthorized_read_back:
  "\<exists>fs. read_reply unauthorized = Some (''HTTP/1.1 401 Unauthorized'', fs, bad_credential, []) \<and> set security_headers \<subseteq> set fs"
proof -
  let ?a = "[(''Content-Type'', ''text/plain''),
       (''WWW-Authenticate'', ''Bearer realm='' @ quote_char # ''glasir-control'' @ quote_char # '', error='' @ quote_char #
          ''invalid_token'' @ quote_char # '', error_description='' @ quote_char # bad_credential @ [quote_char])]"
    and ?b = "[(''Content-Length'', ''34''), (''Connection'', ''close'')]"
  have w: "list_all writable_field ?a" "list_all writable_field ?b" "dec_str (length bad_credential) = ''34''" "length bad_credential < 2 ^ 64"
    by code_simp+
  have "\<exists>fs'. read_reply unauthorized = Some (''HTTP/1.1 '' @ ''401 Unauthorized'', fs', bad_credential, []) \<and>
      set fs' = set (?a @ security_headers @ ?b)"
  proof (rule fixed_read_back [OF unauthorized_def])
    show "visible (''HTTP/1.1 '' @ ''401 Unauthorized'')" using visible_consts(4) by simp
    show "list_all writable_field (?a @ security_headers @ ?b)" using w(1,2) visible_consts(1) by (simp only: list_all_append)
    show "length (?a @ security_headers @ ?b) < 100" by (simp only: length_append visible_consts(8)) simp
    show "header_in ''content-length'' (?a @ security_headers @ ?b) = Some (dec_str (length bad_credential))"
      by (simp only: fields_in w(3)) (simp add: fields_in)
  qed (rule w(4))
  then show ?thesis by auto
qed

lemma too_many_read_back:
  "\<exists>fs. read_reply too_many_requests = Some (''HTTP/1.1 429 Too Many Requests'', fs, ''rate limit exceeded'' @ [nl], []) \<and>
     set security_headers \<subseteq> set fs"
proof -
  let ?a = "[(''Content-Type'', ''text/plain''), (''Retry-After'', ''1'')]"
    and ?b = "[(''Content-Length'', ''20''), (''Connection'', ''close'')]" and ?body = "''rate limit exceeded'' @ [nl]"
  have w: "list_all writable_field ?a" "list_all writable_field ?b" "dec_str (length ?body) = ''20''" "length ?body < 2 ^ 64"
    by code_simp+
  have "\<exists>fs'. read_reply too_many_requests = Some (''HTTP/1.1 '' @ ''429 Too Many Requests'', fs', ?body, []) \<and>
      set fs' = set (?a @ security_headers @ ?b)"
  proof (rule fixed_read_back [OF too_many_requests_def])
    show "visible (''HTTP/1.1 '' @ ''429 Too Many Requests'')" using visible_consts(5) by simp
    show "list_all writable_field (?a @ security_headers @ ?b)" using w(1,2) visible_consts(1) by (simp only: list_all_append)
    show "length (?a @ security_headers @ ?b) < 100" by (simp only: length_append visible_consts(8)) simp
    show "header_in ''content-length'' (?a @ security_headers @ ?b) = Some (dec_str (length ?body))"
      by (simp only: fields_in w(3)) (simp add: fields_in)
  qed (rule w(4))
  then show ?thesis by auto
qed

lemma options_read_back:
  assumes "\<forall>x. allowed = Some x \<longrightarrow> visible x"
  shows "\<exists>fs. read_reply (respond_options allowed) = Some (''HTTP/1.1 204 No Content'', fs, [], []) \<and> set security_headers \<subseteq> set fs"
proof -
  let ?a = "[(''Allow'', ''GET, POST, OPTIONS''), (''Access-Control-Allow-Methods'', ''GET, POST, OPTIONS''),
       (''Access-Control-Allow-Headers'', ''Authorization, Content-Type, X-Hub-Signature-256, X-Gitlab-Token'')]"
    and ?b = "[(''Content-Length'', ''0''), (''Connection'', ''close'')]"
  have w: "list_all writable_field ?a" "list_all writable_field ?b" "dec_str (length []) = ''0''" by code_simp+
  note c = cors_writable [OF assms]
  have "\<exists>fs'. read_reply (respond_options allowed) = Some (''HTTP/1.1 '' @ ''204 No Content'', fs', [], []) \<and>
      set fs' = set (?a @ cors_fields allowed @ security_headers @ ?b)"
  proof (rule fixed_read_back [OF respond_options_def])
    show "visible (''HTTP/1.1 '' @ ''204 No Content'')" using visible_consts(6) by simp
    show "list_all writable_field (?a @ cors_fields allowed @ security_headers @ ?b)" using c w(1,2) visible_consts(1) by (simp only: list_all_append)
    show "length (?a @ cors_fields allowed @ security_headers @ ?b) < 100" using c by (simp only: length_append visible_consts(8)) simp
    show "header_in ''content-length'' (?a @ cors_fields allowed @ security_headers @ ?b) = Some (dec_str (length []))"
      by (simp only: fields_in w(3) c) (simp add: fields_in)
  qed simp
  then show ?thesis by auto
qed

lemma ui_read_back:
  assumes "visible ct" and "length body < 2 ^ 64"
    and "\<forall>x. s = Some x \<longrightarrow> visible (s_token_origin x) \<and> length (s_token_origin x) \<le> 3000"
  shows "\<exists>fs. read_reply (respond_ui ct body s) = Some (''HTTP/1.1 200 OK'', fs, body, []) \<and>
    (''Content-Security-Policy'', console_csp s) \<in> set fs \<and> ''Strict-Transport-Security'' \<notin> fst ` set fs"
proof -
  let ?b = "[(''X-Content-Type-Options'', ''nosniff''), (''X-Frame-Options'', ''DENY''), (''Cache-Control'', ''no-store''), (''Referrer-Policy'', ''no-referrer'')]"
  let ?fs = "[(''Content-Type'', ct), (''X-Content-Type-Options'', ''nosniff''), (''X-Frame-Options'', ''DENY''),
       (''Cache-Control'', ''no-store''), (''Referrer-Policy'', ''no-referrer''), (''Content-Security-Policy'', console_csp s)] @ framing body"
  have w: "list_all writable_field ?b" "visible ''Content-Security-Policy''" "CHR '':'' \<notin> set ''Content-Security-Policy''" by code_simp+
  have "\<exists>fs'. read_reply (respond_ui ct body s) = Some (''HTTP/1.1 '' @ ''200 OK'', fs', body, []) \<and> set fs' = set ?fs"
  proof (rule fixed_read_back [OF respond_ui_def])
    show "visible (''HTTP/1.1 '' @ ''200 OK'')" using visible_consts(7) by simp
    have "writable_field (''Content-Security-Policy'', console_csp s)"
      using console_csp_visible [OF assms(3)] w(2,3) by (simp only: writable_field_def fst_conv snd_conv) simp
    then show "list_all writable_field ?fs"
      using framing_writable [OF assms(2)] content_type_writable [OF assms(1)] w(1) by simp
    show "length ?fs < 100" by (simp add: framing_def)
    show "header_in ''content-length'' ?fs = Some (dec_str (length body))"
      by (simp only: fields_in framing_def) (simp add: fields_in)
  qed (rule assms(2))
  then obtain fs' where f: "read_reply (respond_ui ct body s) = Some (''HTTP/1.1 '' @ ''200 OK'', fs', body, [])" "set fs' = set ?fs" by blast
  have "(''Content-Security-Policy'', console_csp s) \<in> set ?fs" by simp
  moreover have "''Strict-Transport-Security'' \<notin> fst ` set ?fs" by (simp add: framing_def)
  moreover have "''HTTP/1.1 '' @ ''200 OK'' = ''HTTP/1.1 200 OK''" by simp
  ultimately show ?thesis using f by (intro exI [of _ fs']) (simp only: simp_thms)
qed

text \<open>
  C34. Every answer the server writes itself is one message. Whatever the body, whatever status and
  content type it names, a client that reads the way the program reads finds the intended status
  line, the security headers, exactly the body and nothing after it: an error text, a document or
  a proposal can never be taken for a header or a second answer. The refusals of credentials and
  of the rate limit, the preflight answer and the console pages, which write their lengths
  and headers out by hand, are such messages too; the console pages leave
  \<^verbatim>\<open>Strict-Transport-Security\<close> out.
\<close>

theorem answers_are_one_message:
  assumes "visible (''HTTP/1.1 '' @ status)" and "visible ct" and "length body < 2 ^ 64"
    and "\<forall>x. allowed = Some x \<longrightarrow> visible x"
    and "\<forall>x. s = Some x \<longrightarrow> (\<exists>c a t sc. sso_new c a t sc = Inr x) \<and> length (s_token_origin x) \<le> 3000"
  shows "read_reply (respond_text status ct body) =
      Some (''HTTP/1.1 '' @ status, (''Content-Type'', ct) # security_headers @ framing body, body, []) \<and>
    (\<exists>fs. read_reply unauthorized = Some (''HTTP/1.1 401 Unauthorized'', fs, bad_credential, []) \<and> set security_headers \<subseteq> set fs) \<and>
    (\<exists>fs. read_reply too_many_requests = Some (''HTTP/1.1 429 Too Many Requests'', fs, ''rate limit exceeded'' @ [nl], []) \<and>
       set security_headers \<subseteq> set fs) \<and>
    (\<exists>fs. read_reply (respond_options allowed) = Some (''HTTP/1.1 204 No Content'', fs, [], []) \<and> set security_headers \<subseteq> set fs) \<and>
    (\<exists>fs. read_reply (respond_ui ct body s) = Some (''HTTP/1.1 200 OK'', fs, body, []) \<and>
       (''Content-Security-Policy'', console_csp s) \<in> set fs \<and> ''Strict-Transport-Security'' \<notin> fst ` set fs)"
proof -
  have "\<forall>x. s = Some x \<longrightarrow> visible (s_token_origin x) \<and> length (s_token_origin x) \<le> 3000"
    using assms(5) sso_origin_visible by blast
  then show ?thesis
    using text_read_back [OF assms(1-3)] unauthorized_read_back too_many_read_back options_read_back [OF assms(4)]
      ui_read_back [OF assms(2,3)] by blast
qed

definition sample_sso :: sso where
  "sample_sso = \<lparr>s_client_id = ''glasir'', s_authorization_endpoint = ''https://idp.example/auth'',
     s_token_endpoint = ''https://idp.example/token'', s_scope = ''openid'', s_token_origin = ''https://idp.example''\<rparr>"

theorem answers_are_one_message_witness:
  "read_reply (respond ''404 Not Found'' (''no such'' @ crlf @ crlf @ ''HTTP/1.1 200 OK'')) =
     Some (''HTTP/1.1 404 Not Found'', (''Content-Type'', ''text/plain'') # security_headers @
       framing (''no such'' @ crlf @ crlf @ ''HTTP/1.1 200 OK''), ''no such'' @ crlf @ crlf @ ''HTTP/1.1 200 OK'', [])"
proof -
  let ?body = "''no such'' @ crlf @ crlf @ ''HTTP/1.1 200 OK''"
  have v: "visible (''HTTP/1.1 '' @ ''404 Not Found'')" "visible ''text/plain''" "visible ''https://console.example''" "length ?body < 2 ^ 64"
    by code_simp+
  have a: "\<forall>x. Some ''https://console.example'' = Some x \<longrightarrow> visible x" using v(3) by simp
  have "sso_new ''glasir'' ''https://idp.example/auth'' ''https://idp.example/token'' ''openid'' = Inr sample_sso" by code_simp
  then have "\<forall>x. Some sample_sso = Some x \<longrightarrow> (\<exists>c a t sc. sso_new c a t sc = Inr x) \<and> length (s_token_origin x) \<le> 3000"
    by (auto simp: sample_sso_def)
  from answers_are_one_message [OF v(1,2,4) a this] show ?thesis by (simp add: respond_def)
qed

end
