(* ===== verification/Server.thy ===== *)
theory Server
  imports Http_Replies Sync Rate_Limit Auth_Tokens Policy Cross_Repo Audit_Log
begin

text \<open>
  \<^verbatim>\<open>handle\<close> of \<^verbatim>\<open>src/main.rs\<close>: one request from the rate
  limiter to the answer. \<open>config\<close> is what does not change while the server runs,
  \<open>server\<close> what requests change, and \<open>surround\<close> what one request finds around it: its
  stream, the clock, the policy and the credentials the hot-reloaded files hold at that moment
  (\<open>Hot_Reload\<close> says which these can be), and the answers of backends, code hosts, the file
  system and the JSON library. Beside the answer, an \<open>outcome\<close> lists the requests sent to
  backends, so that who is contacted can be stated.
\<close>

subsection \<open>Configuration, state, surroundings\<close>

record config =
  cf_sync :: sync_config
  cf_allowed_origin :: "string option"
  cf_oidc :: "oidc option"
  cf_sso :: "sso option"
  cf_sync_max_age :: "nat option"
  cf_evidence :: "json option"
  cf_version :: string
  cf_console_html :: string
  cf_console_css :: string
  cf_console_js :: string

record 'doc server =
  sv_limiter :: limiter
  sv_store :: "'doc pstore"
  sv_audit :: "audit_queue option"

record ('k, 'doc) surround =
  wo_clean :: bool
  wo_stream :: "string list"
  wo_ip :: string
  wo_addr :: string
  wo_instant :: real
  wo_now :: nat
  wo_uptime :: nat
  wo_duration_ms :: nat
  wo_active :: nat
  wo_rights :: rights
  wo_rights_file :: fs_file
  wo_entries :: "entry list"
  wo_keys :: "jwk list"
  wo_jwt :: "'k jwt_lib"
  wo_json :: "string \<Rightarrow> json option"
  wo_codec :: "'doc codec"
  wo_print :: "json \<Rightarrow> string"
  wo_connect :: "string \<Rightarrow> string \<Rightarrow> string option"
  wo_tls :: "(string \<Rightarrow> string \<Rightarrow> string option) option"
  wo_http :: "http_request \<Rightarrow> (remote_error, string) result"
  wo_log :: audit_log
  wo_list_ok :: bool
  wo_swap :: bool
  wo_write :: "'doc write_result"
  wo_sync_io :: bool

text \<open>
  \<open>Panicked\<close>: the thread of the connection dies without answering. \<open>Failed\<close>:
  \<^verbatim>\<open>read_request\<close> returned an error, the connection is closed unanswered.
\<close>

datatype answer = Answer string | NoRequest | Failed read_error | Panicked

record 'doc outcome =
  oc_answer :: answer
  oc_sent :: "(tree \<times> request) list"
  oc_audit :: "audit_record option"
  oc_store :: "'doc pstore"
  oc_penalty :: bool

definition plain :: "'doc server \<Rightarrow> string \<Rightarrow> 'doc outcome" where
  "plain sv answer = \<lparr>oc_answer = Answer answer, oc_sent = [], oc_audit = None, oc_store = sv_store sv,
     oc_penalty = False\<rparr>"

text \<open>The audit record of a request, and an answer that is audited with a status and a byte count.\<close>

definition audit_of :: "('k, 'doc) surround \<Rightarrow> request \<Rightarrow> string option \<Rightarrow> string option \<Rightarrow> nat \<Rightarrow> nat \<Rightarrow> audit_record" where
  "audit_of w rq who tr status bytes = \<lparr>a_ts = wo_now w, a_who = who, a_tree = tr, a_method = rq_method rq, a_path = rq_path rq,
     a_status = status, a_bytes = bytes, a_duration_ms = wo_duration_ms w, a_client_addr = wo_addr w\<rparr>"

definition audited :: "('k, 'doc) surround \<Rightarrow> 'doc server \<Rightarrow> request \<Rightarrow> string option \<Rightarrow> nat \<times> nat \<times> string \<Rightarrow> 'doc outcome" where
  "audited w sv rq who reply = (case reply of (status, bytes, answer) \<Rightarrow>
     (plain sv answer)\<lparr>oc_audit := Some (audit_of w rq who None status bytes)\<rparr>)"

definition not_found :: string where
  "not_found = respond ''404 Not Found'' ''not found''"

definition json_ok :: "('k, 'doc) surround \<Rightarrow> json \<Rightarrow> nat \<times> nat \<times> string" where
  "json_ok w v = (let body = wo_print w v in (200, length body, respond_json ''200 OK'' body))"

definition mirror_fresh :: "config \<Rightarrow> ('k, 'doc) surround \<Rightarrow> bool" where
  "mirror_fresh cf w = (case cf_sync_max_age cf of None \<Rightarrow> True | Some age \<Rightarrow> is_fresh (wo_now w) age (wo_rights_file w))"

definition evidence_unavailable :: json where
  "evidence_unavailable = JObj [(''edges'', JArr []), (''unresolved'', JArr [])]"

subsection \<open>Open endpoints\<close>

definition quoted_num :: "string \<Rightarrow> nat \<Rightarrow> string" where
  "quoted_num k n = key_of k @ dec_str n"

definition dropped_of :: "'doc server \<Rightarrow> nat" where
  "dropped_of sv = (case sv_audit sv of None \<Rightarrow> 0 | Some q \<Rightarrow> q_dropped q)"

definition remote_failed_of :: "'doc server \<Rightarrow> nat" where
  "remote_failed_of sv = (case sv_audit sv of None \<Rightarrow> 0 | Some q \<Rightarrow> q_remote_failed q)"

definition health :: "config \<Rightarrow> ('k, 'doc) surround \<Rightarrow> 'doc server \<Rightarrow> request \<Rightarrow> 'doc outcome" where
  "health cf w sv rq =
     (let body = ''{'' @ key_of ''status'' @ quoted ''ok'' @ '','' @ key_of ''version'' @ quoted (cf_version cf) @ '','' @
            quoted_num ''uptime_secs'' (wo_uptime w) @ '','' @ quoted_num ''active_connections'' (wo_active w) @ '','' @
            quoted_num ''configured_trees'' (length (r_trees (wo_rights w))) @ '','' @
            quoted_num ''configured_tokens'' (length (wo_entries w)) @ '','' @ quoted_num ''audit_dropped'' (dropped_of sv) @ '','' @
            quoted_num ''audit_remote_failed'' (remote_failed_of sv) @ ''}''
      in audited w sv rq None (200, length body, respond_json ''200 OK'' body))"

definition ready :: "config \<Rightarrow> ('k, 'doc) surround \<Rightarrow> bool" where
  "ready cf w \<longleftrightarrow> mirror_fresh cf w \<and> (cf_oidc cf \<noteq> None \<or> wo_entries w \<noteq> []) \<and> r_trees (wo_rights w) \<noteq> []"

definition ready_endpoint :: "config \<Rightarrow> ('k, 'doc) surround \<Rightarrow> 'doc server \<Rightarrow> 'doc outcome" where
  "ready_endpoint cf w sv = plain sv
     (if ready cf w then respond_json ''200 OK'' (''{'' @ key_of ''status'' @ quoted ''ready'' @ ''}'')
      else respond_json ''503 Service Unavailable'' (''{'' @ key_of ''status'' @ quoted ''not_ready'' @ ''}''))"

definition metric :: "string \<Rightarrow> string \<Rightarrow> nat \<Rightarrow> string" where
  "metric name kind n = ''# TYPE '' @ name @ '' '' @ kind @ [nl] @ name @ '' '' @ dec_str n @ [nl]"

definition metrics :: "config \<Rightarrow> ('k, 'doc) surround \<Rightarrow> 'doc server \<Rightarrow> 'doc outcome" where
  "metrics cf w sv = plain sv (respond_text ''200 OK'' ''text/plain; version=0.0.4''
     (metric ''glasir_control_active_connections'' ''gauge'' (wo_active w) @
      metric ''glasir_control_configured_trees'' ''gauge'' (length (r_trees (wo_rights w))) @
      metric ''glasir_control_audit_dropped_total'' ''counter'' (dropped_of sv) @
      metric ''glasir_control_audit_remote_failed_total'' ''counter'' (remote_failed_of sv) @
      metric ''glasir_control_permission_mirror_fresh'' ''gauge'' (if mirror_fresh cf w then 1 else 0)))"

subsection \<open>Evidence and reviews\<close>

definition package_named :: "string list \<Rightarrow> json \<Rightarrow> bool" where
  "package_named packages v = (case as_str v of None \<Rightarrow> False | Some n \<Rightarrow> n \<in> set packages)"

definition workspace_evidence :: "json \<Rightarrow> string list \<Rightarrow> json" where
  "workspace_evidence report packages = JObj
     [(''schema'', JStr ''glasir.cross-repo-report.v1''),
      (''edges'', JArr (filter (\<lambda>e. package_named packages (json_index e ''source'') \<and> package_named packages (json_index e ''target''))
         (elements report ''edges''))),
      (''unresolved'', JArr (filter (\<lambda>v. case as_str v of None \<Rightarrow> False
         | Some text \<Rightarrow> list_ex (\<lambda>package. starts_with package text) packages) (elements report ''unresolved'')))]"

definition evidence_for :: "config \<Rightarrow> rights \<Rightarrow> string \<Rightarrow> json" where
  "evidence_for cf r workspace = (case cf_evidence cf of None \<Rightarrow> evidence_unavailable
     | Some report \<Rightarrow> workspace_evidence report (hm_vals (r_workspace_packages r) workspace))"

text \<open>A tool call of the server's own on a backend.\<close>

definition internal_request :: "('k, 'doc) surround \<Rightarrow> string \<Rightarrow> json \<Rightarrow> request" where
  "internal_request w tool args = \<lparr>rq_method = ''POST'', rq_path = ''/mcp/internal'', rq_headers = [],
     rq_body = wo_print w (JObj [(''jsonrpc'', JStr ''2.0''), (''id'', JNum 1), (''method'', JStr ''tools/call''),
       (''params'', JObj [(''name'', JStr tool), (''arguments'', args)])])\<rparr>"

definition backend :: "('k, 'doc) surround \<Rightarrow> tree \<Rightarrow> request \<Rightarrow> string option" where
  "backend w t rq = forward (wo_connect w) (wo_tls w) t rq"

datatype review_error = UnknownWorkspace | InvalidRevision | UnknownTree | NotMapped

abbreviation backtick :: char where "backtick \<equiv> CHR 0x60"

definition ticked :: "string \<Rightarrow> string" where
  "ticked s = backtick # s @ [backtick]"

definition review_line :: "string \<Rightarrow> string option \<Rightarrow> string" where
  "review_line name reply = ''- '' @ ticked name @ (case reply of None \<Rightarrow> '': unavailable''
     | Some rep \<Rightarrow> if extract_status rep < 400 then '': impact analyzed'' else '': Core returned HTTP '' @ dec_str (extract_status rep))"

text \<open>The calls made so far count even when a later tree of the workspace is unknown.\<close>

fun review_trees :: "('k, 'doc) surround \<Rightarrow> rights \<Rightarrow> request \<Rightarrow> string list \<Rightarrow> (review_error, string list) result \<times> (tree \<times> request) list" where
  "review_trees w r rq [] = (Inr [], [])"
| "review_trees w r rq (n # ns) = (case tree_named r n of None \<Rightarrow> (Inl UnknownTree, [])
     | Some t \<Rightarrow> (case review_trees w r rq ns of
         (Inl e, sent) \<Rightarrow> (Inl e, (t, rq) # sent)
       | (Inr ls, sent) \<Rightarrow> (Inr (review_line n (backend w t rq) # ls), (t, rq) # sent)))"

definition em_dash :: string where
  "em_dash = [CHR 0xE2, CHR 0x80, CHR 0x94]"

definition provider_workspace_review :: "config \<Rightarrow> ('k, 'doc) surround \<Rightarrow> rights \<Rightarrow> string \<Rightarrow> string \<Rightarrow>
    (review_error, string) result \<times> (tree \<times> request) list" where
  "provider_workspace_review cf w r workspace revision =
     (case map_of (r_workspaces r) workspace of None \<Rightarrow> (Inl UnknownWorkspace, []) | Some trees \<Rightarrow>
        if \<not> is_valid_revision revision then (Inl InvalidRevision, [])
        else let rq = internal_request w ''detect_changes'' (JObj [(''rev'', JStr revision), (''depth'', JNum 3)]) in
          (case review_trees w r rq trees of (Inl e, sent) \<Rightarrow> (Inl e, sent)
           | (Inr ls, sent) \<Rightarrow>
               let v = evidence_for cf r workspace in
               (Inr (join [nl] ([''Workspace '' @ ticked workspace @ '' '' @ em_dash @ '' revision '' @ ticked revision] @ ls @
                  [''- contract edges: '' @ dec_str (length (elements v ''edges'')) @ ''; unresolved contracts: '' @
                   dec_str (length (elements v ''unresolved''))])), sent)))"

text \<open>The review a webhook asks for: the repository must be mapped to a tree of exactly one workspace.\<close>

definition webhook_review :: "config \<Rightarrow> ('k, 'doc) surround \<Rightarrow> string \<Rightarrow> review_event \<Rightarrow>
    (review_error, string) result \<times> (tree \<times> request) list" where
  "webhook_review cf w provider ev =
     (case Option.bind (resolve_tree (cf_sync cf) (provider @ ev_repository ev)) (unique_workspace_for_tree (wo_rights w)) of
        None \<Rightarrow> (Inl NotMapped, [])
      | Some workspace \<Rightarrow> provider_workspace_review cf w (wo_rights w) workspace (ev_revision ev))"

subsection \<open>Webhooks\<close>

definition status_json :: "string \<Rightarrow> string" where
  "status_json s = ''{'' @ key_of ''status'' @ quoted s @ ''}''"

definition status_message :: "string \<Rightarrow> string \<Rightarrow> string" where
  "status_message s m = ''{'' @ key_of ''status'' @ quoted s @ '','' @ key_of ''message'' @ quoted m @ ''}''"

definition apply_webhook :: "('k, 'doc) surround \<Rightarrow> 'doc server \<Rightarrow> (webhook_error, sync_action option) result \<Rightarrow> 'doc outcome" where
  "apply_webhook w sv parsed = (case parsed of
       Inl _ \<Rightarrow> plain sv (respond_json ''400 Bad Request'' (status_message ''error'' ''malformed payload''))
     | Inr None \<Rightarrow> plain sv (respond_json ''200 OK'' (status_json ''ignored''))
     | Inr (Some action) \<Rightarrow> (case apply_sync_action (wo_sync_io w) action (ps_active (sv_store sv)) of
         (Inr _, f) \<Rightarrow> (plain sv (respond_json ''200 OK'' (''{'' @ key_of ''status'' @ quoted ''ok'' @ '','' @ key_of ''applied'' @ ''true}'')))
                         \<lparr>oc_store := (sv_store sv)\<lparr>ps_active := f\<rparr>\<rparr>
       | (Inl _, f) \<Rightarrow> (plain sv (respond_json ''400 Bad Request'' (status_message ''error'' ''failed to update rights'')))
                         \<lparr>oc_store := (sv_store sv)\<lparr>ps_active := f\<rparr>\<rparr>))"

definition review_reply :: "'doc server \<Rightarrow> (tree \<times> request) list \<Rightarrow> string \<Rightarrow> 'doc outcome" where
  "review_reply sv sent body = (plain sv (respond_json ''202 Accepted'' body))\<lparr>oc_sent := sent\<rparr>"

definition header_or :: "request \<Rightarrow> string \<Rightarrow> string \<Rightarrow> string" where
  "header_or rq name d = (case header rq name of None \<Rightarrow> d | Some v \<Rightarrow> v)"

definition github_review :: "config \<Rightarrow> ('k, 'doc) surround \<Rightarrow> 'doc server \<Rightarrow> string \<Rightarrow> 'doc outcome" where
  "github_review cf w sv payload =
     (case github_review_event ((wo_json w)) payload of
        Inl _ \<Rightarrow> review_reply sv [] (status_message ''error'' ''malformed pull request payload'')
      | Inr None \<Rightarrow> review_reply sv [] (status_json ''ignored'')
      | Inr (Some ev) \<Rightarrow> (case webhook_review cf w ''github:'' ev of (res, sent) \<Rightarrow>
          review_reply sv sent (case res of
              Inl _ \<Rightarrow> status_message ''ignored'' ''repository workspace mapping unavailable''
            | Inr summary \<Rightarrow> (case c_github_token (cf_sync cf) of
                None \<Rightarrow> status_message ''error'' ''github token not configured''
              | Some token \<Rightarrow>
                  if is_ok (github_check (wo_http w) (ev_repository ev) (ev_revision ev) summary token)
                  then wo_print w (JObj [(''status'', JStr ''completed''), (''workspace'', JStr summary)])
                  else status_message ''error'' ''check publication failed''))))"

definition github_webhook :: "config \<Rightarrow> ('k, 'doc) surround \<Rightarrow> 'doc server \<Rightarrow> request \<Rightarrow> 'doc outcome" where
  "github_webhook cf w sv rq = (case c_github_secret (cf_sync cf) of
       None \<Rightarrow> plain sv (respond ''403 Forbidden'' ''github webhook secret not configured'')
     | Some secret \<Rightarrow>
         if \<not> verify_github_signature secret (rq_body rq) (header rq ''x-hub-signature-256'')
         then plain sv (respond ''401 Unauthorized'' ''invalid webhook signature'')
         else let event = header_or rq ''x-github-event'' ''member''; payload = from_utf8_lossy (rq_body rq) in
           if event = ''pull_request'' then github_review cf w sv payload
           else apply_webhook w sv (handle_github_webhook event payload (cf_sync cf)))"

definition gitlab_review :: "config \<Rightarrow> ('k, 'doc) surround \<Rightarrow> 'doc server \<Rightarrow> string \<Rightarrow> 'doc outcome" where
  "gitlab_review cf w sv payload =
     (case gitlab_review_event ((wo_json w)) payload of
        Inl _ \<Rightarrow> review_reply sv [] (status_message ''error'' ''malformed merge request payload'')
      | Inr None \<Rightarrow> review_reply sv [] (status_json ''ignored'')
      | Inr (Some ev) \<Rightarrow> (case webhook_review cf w ''gitlab:'' ev of (res, sent) \<Rightarrow>
          review_reply sv sent (case (res, c_gitlab_token (cf_sync cf)) of
              (Inr summary, Some token) \<Rightarrow>
                if is_ok (gitlab_commit_status (wo_http w) (ev_repository ev) (ev_revision ev) summary token)
                then status_json ''completed'' else status_message ''ignored'' ''review unavailable''
            | (Inr _, None) \<Rightarrow> status_message ''error'' ''gitlab token not configured''
            | (Inl _, _) \<Rightarrow> status_message ''ignored'' ''review unavailable'')))"

definition gitlab_webhook :: "config \<Rightarrow> ('k, 'doc) surround \<Rightarrow> 'doc server \<Rightarrow> request \<Rightarrow> 'doc outcome" where
  "gitlab_webhook cf w sv rq = (case c_gitlab_secret (cf_sync cf) of
       None \<Rightarrow> plain sv (respond ''403 Forbidden'' ''gitlab webhook secret not configured'')
     | Some secret \<Rightarrow>
         if \<not> verify_gitlab_token secret (header rq ''x-gitlab-token'')
         then plain sv (respond ''401 Unauthorized'' ''invalid gitlab webhook token'')
         else let event = header_or rq ''x-gitlab-event'' ''member''; payload = from_utf8_lossy (rq_body rq) in
           if event = ''Merge Request Hook'' then gitlab_review cf w sv payload
           else apply_webhook w sv (handle_gitlab_webhook event payload (cf_sync cf)))"

subsection \<open>Who is asking\<close>

definition bearer :: "request \<Rightarrow> string option" where
  "bearer rq = Option.bind (header rq ''authorization'') (strip_prefix ''Bearer '')"

definition identity_of :: "config \<Rightarrow> ('k, 'doc) surround \<Rightarrow> request \<Rightarrow> identity option" where
  "identity_of cf w rq = (case cf_oidc cf of
       Some o' \<Rightarrow> identify_with_groups (wo_jwt w) o' (wo_keys w) (bearer rq)
     | None \<Rightarrow> map_option (\<lambda>subject. \<lparr>id_subject = subject, id_groups = []\<rparr>)
         (Option.bind (bearer rq) (\<lambda>token. identify (wo_entries w) token (wo_now w))))"

text \<open>
  The name and groups the endpoints work with; \<open>scope_of\<close> is what the administrator
  endpoints ask.
\<close>

definition who_of :: "identity option \<Rightarrow> string option" where
  "who_of i = map_option id_subject i"

definition groups_of :: "identity option \<Rightarrow> string list" where
  "groups_of i = (case i of None \<Rightarrow> [] | Some x \<Rightarrow> id_groups x)"

definition scope_of :: "('k, 'doc) surround \<Rightarrow> identity option \<Rightarrow> admin_scope option" where
  "scope_of w i = (case i of None \<Rightarrow> None | Some x \<Rightarrow> admin_scope_of (wo_rights w) (id_subject x) (id_groups x))"

definition no_credential :: "nat \<times> nat \<times> string" where
  "no_credential = (401, 34, unauthorized)"

subsection \<open>Endpoints for callers\<close>

definition session :: "('k, 'doc) surround \<Rightarrow> 'doc server \<Rightarrow> request \<Rightarrow> identity option \<Rightarrow> 'doc outcome" where
  "session w sv rq i = audited w sv rq (who_of i) (case i of None \<Rightarrow> no_credential
     | Some x \<Rightarrow>
         let scope = (case scope_of w i of Some Global \<Rightarrow> JStr ''global''
               | Some (Trees _) \<Rightarrow> json_strs (tenants_of (wo_rights w) (id_subject x)) | None \<Rightarrow> JNull) in
         json_ok w (JObj [(''user'', JStr (id_subject x)), (''admin'', JBool (scope \<noteq> JNull)), (''scope'', scope)]))"

definition json_string :: "('k, 'doc) surround \<Rightarrow> string \<Rightarrow> string" where
  "json_string w s = wo_print w (JStr s)"

definition workspaces :: "('k, 'doc) surround \<Rightarrow> 'doc server \<Rightarrow> request \<Rightarrow> identity option \<Rightarrow> 'doc outcome" where
  "workspaces w sv rq i = audited w sv rq (who_of i) (case i of None \<Rightarrow> no_credential
     | Some x \<Rightarrow>
         let entries = map (\<lambda>(name, trees). ''{'' @ key_of ''name'' @ json_string w name @ '','' @ key_of ''trees'' @ ''['' @
               join '','' (map (json_string w) trees) @ '']}'') (visible_workspaces (wo_rights w) (id_subject x) (id_groups x));
             body = ''['' @ join '','' entries @ '']''
         in (200, length body, respond_json ''200 OK'' body))"

definition trees_endpoint :: "('k, 'doc) surround \<Rightarrow> 'doc server \<Rightarrow> request \<Rightarrow> identity option \<Rightarrow> 'doc outcome" where
  "trees_endpoint w sv rq i = audited w sv rq (who_of i) (case i of None \<Rightarrow> no_credential
     | Some x \<Rightarrow>
         let entries = map (\<lambda>t. ''{'' @ key_of ''name'' @ quoted (t_name t) @ ''}'')
               (filter (\<lambda>t. may_with_groups (wo_rights w) (id_subject x) (id_groups x) (t_name t)) (r_trees (wo_rights w)));
             body = ''['' @ join '','' entries @ '']''
         in (200, length body, respond_json ''200 OK'' body))"

subsection \<open>The impact review\<close>

text \<open>
  One tool call on one backend: its status and its JSON reply, \<open>None\<close> when it does not
  answer. The reply is taken from the first brace after the status line.
\<close>

definition reply_json :: "('k, 'doc) surround \<Rightarrow> string \<Rightarrow> json" where
  "reply_json w reply =
     (let body = (case split_once nl reply of None \<Rightarrow> reply | Some (_, rest) \<Rightarrow> rest);
          start = (case find_char (\<lambda>c. c = CHR ''{'') body of None \<Rightarrow> 0 | Some i \<Rightarrow> i)
      in case (wo_json w) (drop start body) of Some v \<Rightarrow> v
         | None \<Rightarrow> JObj [(''error'', JStr ''invalid core response'')])"

definition impact_call :: "('k, 'doc) surround \<Rightarrow> tree \<Rightarrow> string \<Rightarrow> json \<Rightarrow> (nat \<times> json) option" where
  "impact_call w t tool args =
     map_option (\<lambda>reply. (extract_status reply, reply_json w reply)) (backend w t (internal_request w tool args))"

definition structured :: "json \<Rightarrow> json" where
  "structured v = json_index (json_index v ''result'') ''structuredContent''"

text \<open>
  The first round, over the trees of the workspace: what changed in each, and the entries of
  the answer. A tree the policy does not serve ends the thread (\<open>None\<close>).
\<close>

fun detect_changes :: "('k, 'doc) surround \<Rightarrow> rights \<Rightarrow> json \<Rightarrow> string list \<Rightarrow>
    ((string \<times> string list) list \<times> json list) option \<times> (tree \<times> request) list" where
  "detect_changes w r args [] = (Some ([], []), [])"
| "detect_changes w r args (n # ns) = (case tree_named r n of None \<Rightarrow> (None, [])
     | Some t \<Rightarrow> (case detect_changes w r args ns of (res, sent) \<Rightarrow>
         (map_option (\<lambda>(changed, results). (case impact_call w t ''detect_changes'' args of
              Some (status, v) \<Rightarrow> ((n, strs_of (json_index (structured v) ''changed_symbols'')) # changed,
                 JObj [(''tree'', JStr n), (''status'', JNum (int status)), (''result'', v)] # results)
            | None \<Rightarrow> (changed, JObj [(''tree'', JStr n), (''status'', JNum 502), (''error'', JStr ''tree is not answering'')] # results))) res,
          (t, internal_request w ''detect_changes'' args) # sent)))"

text \<open>The second round, only for workspaces of several trees: what each serves and requests.\<close>

fun surfaces :: "('k, 'doc) surround \<Rightarrow> rights \<Rightarrow> string list \<Rightarrow> (string \<times> json) list \<times> (tree \<times> request) list" where
  "surfaces w r [] = ([], [])"
| "surfaces w r (n # ns) = (case tree_named r n of None \<Rightarrow> ([], [])
     | Some t \<Rightarrow> (case surfaces w r ns of (found, sent) \<Rightarrow>
         ((case impact_call w t ''http_surface'' (JObj []) of Some (_, v) \<Rightarrow> (n, structured v) # found | None \<Rightarrow> found),
          (t, internal_request w ''http_surface'' (JObj [])) # sent)))"

definition clamp_depth :: "json \<Rightarrow> nat" where
  "clamp_depth v = (case as_u64 v of None \<Rightarrow> 3 | Some d \<Rightarrow> max 1 (min d 10))"

definition impact_body :: "config \<Rightarrow> ('k, 'doc) surround \<Rightarrow> string \<Rightarrow> string \<Rightarrow> nat \<Rightarrow> (string \<times> string list) list \<Rightarrow> json list \<Rightarrow> json list \<Rightarrow> json" where
  "impact_body cf w name revision depth changed results ls = JObj
     [(''workspace'', JStr name), (''rev'', JStr revision), (''depth'', JNum (int depth)), (''repositories'', JArr results),
      (''cross_repo_evidence'', evidence_for cf (wo_rights w) name), (''cross_repo_routes'', JNum (int (length ls))),
      (''cross_repo_callers'', JArr (callers_of_changes ls changed))]"

definition review_workspace :: "config \<Rightarrow> ('k, 'doc) surround \<Rightarrow> 'doc server \<Rightarrow> request \<Rightarrow> identity \<Rightarrow> string \<Rightarrow> string list \<Rightarrow> string \<Rightarrow> nat \<Rightarrow> 'doc outcome" where
  "review_workspace cf w sv rq x name trees revision depth =
     (case detect_changes w (wo_rights w) (JObj [(''rev'', JStr revision), (''depth'', JNum (int depth))]) trees of
        (None, sent) \<Rightarrow> (plain sv [])\<lparr>oc_answer := Panicked, oc_sent := sent\<rparr>
      | (Some (changed, results), sent) \<Rightarrow>
          (case (if length trees > 1 then surfaces w (wo_rights w) trees else ([], [])) of (found, sent') \<Rightarrow>
             (audited w sv rq (Some (id_subject x))
                (json_ok w (impact_body cf w name revision depth changed results (links found))))\<lparr>oc_sent := sent @ sent'\<rparr>))"

definition impact :: "config \<Rightarrow> ('k, 'doc) surround \<Rightarrow> 'doc server \<Rightarrow> request \<Rightarrow> identity option \<Rightarrow> 'doc outcome" where
  "impact cf w sv rq i = (case i of None \<Rightarrow> audited w sv rq None no_credential
     | Some x \<Rightarrow> (case (wo_json w) (rq_body rq) of
         None \<Rightarrow> plain sv (respond ''400 Bad Request'' ''invalid review request'')
       | Some input \<Rightarrow>
           let revision = (case as_str (json_index input ''rev'') of None \<Rightarrow> [] | Some s \<Rightarrow> s) in
           if \<not> is_valid_revision revision then plain sv (respond ''400 Bad Request'' ''invalid revision'')
           else (case as_str (json_index input ''workspace'') of None \<Rightarrow> plain sv not_found
             | Some wanted \<Rightarrow>
                 if \<not> is_valid_identifier wanted then plain sv not_found
                 else (case find (\<lambda>(n, _). n = wanted) (visible_workspaces (wo_rights w) (id_subject x) (id_groups x)) of
                     None \<Rightarrow> plain sv not_found
                   | Some (name, trees) \<Rightarrow>
                       review_workspace cf w sv rq x name trees revision (clamp_depth (json_index input ''depth''))))))"

subsection \<open>Administration\<close>

definition access_review_endpoint :: "('k, 'doc) surround \<Rightarrow> 'doc server \<Rightarrow> request \<Rightarrow> identity option \<Rightarrow> 'doc outcome" where
  "access_review_endpoint w sv rq i = audited w sv rq (who_of i) (case i of None \<Rightarrow> no_credential
     | Some _ \<Rightarrow> (case scope_of w i of None \<Rightarrow> (404, 12, not_found)
       | Some Global \<Rightarrow> json_ok w (access_review (wo_rights w))
       | Some (Trees ts) \<Rightarrow> json_ok w (access_review (restricted_to (wo_rights w) ts))))"

definition event_in_scope :: "admin_scope \<Rightarrow> json \<Rightarrow> bool" where
  "event_in_scope scope event = (case scope of Global \<Rightarrow> True
     | Trees ts \<Rightarrow> (case as_str (json_index event ''tree'') of None \<Rightarrow> False | Some t \<Rightarrow> t \<in> ts))"

definition unavailable :: "nat \<Rightarrow> string \<Rightarrow> nat \<times> nat \<times> string" where
  "unavailable n msg = (503, n, respond ''503 Service Unavailable'' msg)"

definition audit_timeline :: "('k, 'doc) surround \<Rightarrow> 'doc server \<Rightarrow> request \<Rightarrow> identity option \<Rightarrow> 'doc outcome" where
  "audit_timeline w sv rq i = audited w sv rq (who_of i) (case i of None \<Rightarrow> no_credential
     | Some _ \<Rightarrow> (case scope_of w i of None \<Rightarrow> (404, 9, not_found)
       | Some scope \<Rightarrow> (case sv_audit sv of None \<Rightarrow> unavailable 14 ''audit disabled''
         | Some _ \<Rightarrow> (case recent ((wo_json w)) (wo_log w) 100 (event_in_scope scope) of
             Inl _ \<Rightarrow> unavailable 17 ''audit unavailable''
           | Inr events \<Rightarrow> json_ok w (JObj [(''events'', JArr events)])))))"

definition proposals_endpoint :: "('k, 'doc) surround \<Rightarrow> 'doc server \<Rightarrow> request \<Rightarrow> identity option \<Rightarrow> 'doc outcome" where
  "proposals_endpoint w sv rq i = audited w sv rq (who_of i) (case i of None \<Rightarrow> no_credential
     | Some _ \<Rightarrow> (case scope_of w i of None \<Rightarrow> (404, 9, not_found)
       | Some scope \<Rightarrow> (case ps_active (sv_store sv) of
           Some active \<Rightarrow>
             if wo_list_ok w
             then json_ok w (JObj [(''proposals'', JArr (list_proposals (wo_codec w) scope (sv_store sv))),
                    (''active_rights'', JStr (active_view active scope))])
             else unavailable 21 ''proposals unavailable''
         | None \<Rightarrow> unavailable 21 ''proposals unavailable'')))"

definition read_endpoint :: "('k, 'doc) surround \<Rightarrow> 'doc server \<Rightarrow> request \<Rightarrow> identity option \<Rightarrow> string \<Rightarrow> 'doc outcome" where
  "read_endpoint w sv rq i pid = audited w sv rq (who_of i) (case i of None \<Rightarrow> no_credential
     | Some _ \<Rightarrow> (case scope_of w i of None \<Rightarrow> (404, 9, not_found)
       | Some scope \<Rightarrow> (case read_proposal (wo_codec w) pid scope (sv_store sv) of
           Inl _ \<Rightarrow> (404, 9, not_found) | Inr v \<Rightarrow> json_ok w v)))"

text \<open>Proposing and approving: the status and the store first, then the answer that goes with it.\<close>

definition policy_reply :: "('k, 'doc) surround \<Rightarrow> 'doc server \<Rightarrow> request \<Rightarrow> identity option \<Rightarrow> nat \<times> nat \<times> string \<Rightarrow> string \<Rightarrow>
    nat \<times> nat \<Rightarrow> nat \<times> 'doc pstore \<Rightarrow> 'doc outcome" where
  "policy_reply w sv rq i good rejected bytes result = (case result of (status, st) \<Rightarrow>
     (audited w sv rq (who_of i)
        (if status = fst good then (status, fst bytes, snd (snd good))
         else (status, snd bytes,
           if status = 401 then unauthorized
           else respond (if status = 404 then ''404 Not Found'' else ''400 Bad Request'') rejected)))\<lparr>oc_store := st\<rparr>)"

definition propose_status :: "('k, 'doc) surround \<Rightarrow> 'doc server \<Rightarrow> request \<Rightarrow> identity option \<Rightarrow> nat \<times> 'doc pstore" where
  "propose_status w sv rq i = (case i of None \<Rightarrow> (401, sv_store sv)
     | Some x \<Rightarrow> (case scope_of w i of None \<Rightarrow> (404, sv_store sv)
       | Some scope \<Rightarrow>
           let input = (case (wo_json w) (rq_body rq) of None \<Rightarrow> JNull | Some v \<Rightarrow> v) in
           (case (as_str (json_index input ''id''), as_str (json_index input ''rights'')) of
              (Some pid, Some rights) \<Rightarrow>
                if is_valid_identifier pid
                then (case create (wo_codec w) (wo_write w) (wo_now w) pid (id_subject x) rights scope (sv_store sv) of
                    (Inr _, st) \<Rightarrow> (201, st) | (Inl _, st) \<Rightarrow> (400, st))
                else (400, sv_store sv)
            | _ \<Rightarrow> (400, sv_store sv))))"

definition propose :: "('k, 'doc) surround \<Rightarrow> 'doc server \<Rightarrow> request \<Rightarrow> identity option \<Rightarrow> 'doc outcome" where
  "propose w sv rq i = policy_reply w sv rq i (201, 20, respond_json ''201 Created'' (status_json ''pending''))
     ''policy proposal rejected'' (20, 23) (propose_status w sv rq i)"

definition approve_status :: "('k, 'doc) surround \<Rightarrow> 'doc server \<Rightarrow> identity option \<Rightarrow> string \<Rightarrow> nat \<times> 'doc pstore" where
  "approve_status w sv i pid = (case i of None \<Rightarrow> (401, sv_store sv)
     | Some x \<Rightarrow> (case scope_of w i of None \<Rightarrow> (404, sv_store sv)
       | Some scope \<Rightarrow>
           if is_valid_identifier pid
           then (case approve (wo_codec w) (wo_swap w) (wo_write w) (wo_now w) pid (id_subject x) scope (sv_store sv) of
               (Inr _, st) \<Rightarrow> (200, st) | (Inl _, st) \<Rightarrow> (400, st))
           else (404, sv_store sv)))"

definition approve_endpoint :: "('k, 'doc) surround \<Rightarrow> 'doc server \<Rightarrow> request \<Rightarrow> identity option \<Rightarrow> string \<Rightarrow> 'doc outcome" where
  "approve_endpoint w sv rq i pid = policy_reply w sv rq i (200, 21, respond_json ''200 OK'' (status_json ''approved''))
     ''policy approval rejected'' (21, 24) (approve_status w sv i pid)"

definition operator_only :: "('k, 'doc) surround \<Rightarrow> identity option \<Rightarrow> nat \<times> nat \<times> string \<Rightarrow> nat \<times> nat \<times> string" where
  "operator_only w i reply = (case i of None \<Rightarrow> no_credential
     | Some x \<Rightarrow> if is_admin_with_groups (wo_rights w) (id_subject x) (id_groups x) then reply else (404, 12, not_found))"

definition sync_status :: "config \<Rightarrow> ('k, 'doc) surround \<Rightarrow> 'doc server \<Rightarrow> request \<Rightarrow> identity option \<Rightarrow> 'doc outcome" where
  "sync_status cf w sv rq i = audited w sv rq (who_of i) (operator_only w i (json_ok w (JObj
     [(''github_webhook_configured'', JBool (c_github_secret (cf_sync cf) \<noteq> None)),
      (''gitlab_webhook_configured'', JBool (c_gitlab_secret (cf_sync cf) \<noteq> None))])))"

definition evidence_endpoint :: "config \<Rightarrow> ('k, 'doc) surround \<Rightarrow> 'doc server \<Rightarrow> request \<Rightarrow> identity option \<Rightarrow> 'doc outcome" where
  "evidence_endpoint cf w sv rq i = audited w sv rq (who_of i) (operator_only w i (case cf_evidence cf of
       Some v \<Rightarrow> json_ok w v | None \<Rightarrow> unavailable 20 ''evidence unavailable''))"

subsection \<open>The proxied call\<close>

definition mcp_tool_name :: "('k, 'doc) surround \<Rightarrow> request \<Rightarrow> string option" where
  "mcp_tool_name w rq =
     (if rq_method rq \<noteq> ''POST'' \<or> \<not> starts_with ''/mcp/'' (rq_path rq) then None
      else (case (wo_json w) (rq_body rq) of None \<Rightarrow> None | Some v \<Rightarrow>
        if Option.bind (json_get ''method'' v) as_str = Some ''tools/call''
        then Option.bind (Option.bind (json_get ''params'' v) (json_get ''name'')) as_str else None))"

definition tool_refused :: "('k, 'doc) surround \<Rightarrow> request \<Rightarrow> identity option \<Rightarrow> bool" where
  "tool_refused w rq i = (case (i, tree_of (rq_path rq), mcp_tool_name w rq) of
       (Some x, Some t, Some tool) \<Rightarrow> \<not> may_tool_with_groups (wo_rights w) (id_subject x) (id_groups x) t tool
     | _ \<Rightarrow> False)"

definition mcp_reply :: "('k, 'doc) surround \<Rightarrow> request \<Rightarrow> identity option \<Rightarrow> (nat \<times> nat \<times> string) \<times> (tree \<times> request) list" where
  "mcp_reply w rq i = (case Proxy.route (wo_rights w) (who_of i) (rq_path rq) of
       Unauthenticated \<Rightarrow> (no_credential, [])
     | RouteNotFound \<Rightarrow> ((404, 12, respond ''404 Not Found'' ''no such tree''), [])
     | To t \<Rightarrow>
         if tool_refused w rq i then ((403, 20, respond ''403 Forbidden'' ''tool not permitted''), [])
         else ((case backend w t rq of
             Some reply \<Rightarrow> (extract_status reply, length reply, reply)
           | None \<Rightarrow> (502, 21, respond ''502 Bad Gateway'' ''tree is not answering'')), [(t, rq)]))"

definition mcp :: "('k, 'doc) surround \<Rightarrow> 'doc server \<Rightarrow> request \<Rightarrow> identity option \<Rightarrow> 'doc outcome" where
  "mcp w sv rq i = (case mcp_reply w rq i of ((status, bytes, answer), sent) \<Rightarrow>
     (plain sv answer)\<lparr>oc_sent := sent, oc_audit := Some (audit_of w rq (who_of i) (tree_of (rq_path rq)) status bytes)\<rparr>)"

subsection \<open>The dispatch\<close>

definition proposals_path :: string where
  "proposals_path = ''/api/admin/policy/proposals''"

definition proposal_of :: "string \<Rightarrow> string option" where
  "proposal_of path = strip_prefix (proposals_path @ ''/'') path"

definition approved_of :: "string \<Rightarrow> string option" where
  "approved_of path = Option.bind (proposal_of path) (strip_suffix ''/approve'')"

text \<open>After the identity is known and the permission mirror is known to be fresh.\<close>

definition serve :: "config \<Rightarrow> ('k, 'doc) surround \<Rightarrow> 'doc server \<Rightarrow> request \<Rightarrow> identity option \<Rightarrow> 'doc outcome" where
  "serve cf w sv rq i =
     (let path = rq_path rq; get = (rq_method rq = ''GET''); post = (rq_method rq = ''POST'') in
      if (path = ''/review'' \<or> path = ''/admin'') \<and> get
        then plain sv (respond_ui ''text/html; charset=utf-8'' (cf_console_html cf) (cf_sso cf))
      else if path = ''/console.css'' \<and> get then plain sv (respond_ui ''text/css; charset=utf-8'' (cf_console_css cf) None)
      else if path = ''/console.js'' \<and> get
        then plain sv (respond_ui ''application/javascript; charset=utf-8'' (cf_console_js cf) None)
      else if path = ''/api/sso'' \<and> get then plain sv (case cf_sso cf of
          Some s \<Rightarrow> respond_json ''200 OK'' (wo_print w (sso_public_json s)) | None \<Rightarrow> respond_json ''204 No Content'' [])
      else if path = ''/api/session'' \<and> get then session w sv rq i
      else if path = proposals_path \<and> get then proposals_endpoint w sv rq i
      else if path = ''/api/review/impact'' \<and> post then impact cf w sv rq i
      else if path = ''/workspaces'' \<and> get then workspaces w sv rq i
      else if path = ''/api/admin/access-review'' \<and> get then access_review_endpoint w sv rq i
      else if path = ''/api/admin/audit'' \<and> get then audit_timeline w sv rq i
      else if path = proposals_path \<and> post then propose w sv rq i
      else if get \<and> (case proposal_of path of None \<Rightarrow> False | Some pid \<Rightarrow> is_valid_identifier pid)
        then read_endpoint w sv rq i (the (proposal_of path))
      else if post \<and> approved_of path \<noteq> None then approve_endpoint w sv rq i (the (approved_of path))
      else if path = ''/api/sync/status'' \<and> get then sync_status cf w sv rq i
      else if path = ''/api/cross-repo/evidence'' \<and> get then evidence_endpoint cf w sv rq i
      else if path = ''/trees'' then trees_endpoint w sv rq i
      else mcp w sv rq i)"

text \<open>A credential that identifies no one costs five tokens more.\<close>

definition guarded :: "config \<Rightarrow> ('k, 'doc) surround \<Rightarrow> 'doc server \<Rightarrow> request \<Rightarrow> 'doc outcome" where
  "guarded cf w sv rq =
     (if \<not> mirror_fresh cf w then plain sv (respond ''503 Service Unavailable'' ''permission mirror is stale'')
      else let i = identity_of cf w rq in
        (serve cf w sv rq i)\<lparr>oc_penalty := (i = None \<and> header rq ''authorization'' \<noteq> None)\<rparr>)"

definition dispatch :: "config \<Rightarrow> ('k, 'doc) surround \<Rightarrow> 'doc server \<Rightarrow> request \<Rightarrow> 'doc outcome" where
  "dispatch cf w sv rq =
     (let path = rq_path rq in
      if \<not> origin_allowed (header rq ''origin'') (cf_allowed_origin cf) then plain sv (respond ''403 Forbidden'' ''origin not allowed'')
      else if path = ''/health'' \<or> path = ''/healthz'' then health cf w sv rq
      else if path = ''/ready'' then ready_endpoint cf w sv
      else if path = ''/metrics'' then metrics cf w sv
      else if rq_method rq = ''OPTIONS'' then plain sv (respond_options (cf_allowed_origin cf))
      else if path = ''/api/sync/webhook/github'' \<and> rq_method rq = ''POST'' then github_webhook cf w sv rq
      else if path = ''/api/sync/webhook/gitlab'' \<and> rq_method rq = ''POST'' then gitlab_webhook cf w sv rq
      else guarded cf w sv rq)"

definition settle :: "'doc outcome \<Rightarrow> limiter \<Rightarrow> 'doc server \<Rightarrow> answer \<times> (tree \<times> request) list \<times> 'doc server" where
  "settle oc left sv = (oc_answer oc, oc_sent oc, sv\<lparr>sv_limiter := left, sv_store := oc_store oc,
     sv_audit := (case (sv_audit sv, oc_audit oc) of (Some q, Some r) \<Rightarrow> Some (record_event r q) | (q, _) \<Rightarrow> q)\<rparr>)"

definition handle :: "config \<Rightarrow> ('k, 'doc) surround \<Rightarrow> 'doc server \<Rightarrow> answer \<times> (tree \<times> request) list \<times> 'doc server" where
  "handle cf w sv =
     (case check_and_consume (wo_instant w) (wo_ip w) 1 (sv_limiter sv) of
        (False, left) \<Rightarrow> (Answer too_many_requests, [], sv\<lparr>sv_limiter := left\<rparr>)
      | (True, left) \<Rightarrow> (case read_request (wo_clean w) (wo_stream w) of
          Inl e \<Rightarrow> (Failed e, [], sv\<lparr>sv_limiter := left\<rparr>)
        | Inr None \<Rightarrow> (NoRequest, [], sv\<lparr>sv_limiter := left\<rparr>)
        | Inr (Some rq) \<Rightarrow>
            let oc = dispatch cf w sv rq;
                spent = (if oc_penalty oc then snd (check_and_consume (wo_instant w) (wo_ip w) 5 left) else left)
            in settle oc spent sv))"

end
