(* ===== verification/Server_Safety.thy ===== *)
theory Server_Safety
  imports Server
begin

text \<open>
  What \<open>handle\<close> promises: who is contacted, what changes the policy and the proposals, and what a
  caller without a credential or under a stale permission mirror gets.
\<close>

subsection \<open>Projections of an outcome\<close>

lemma plain_sel [simp]:
  "oc_answer (plain sv a) = Answer a" "oc_sent (plain sv a) = []" "oc_audit (plain sv a) = None" "oc_store (plain sv a) = sv_store sv"
  "oc_penalty (plain sv a) = False"
  by (simp_all add: plain_def)

lemma audited_sel [simp]:
  "oc_answer (audited w sv rq who reply) = Answer (snd (snd reply))" "oc_sent (audited w sv rq who reply) = []"
  "oc_store (audited w sv rq who reply) = sv_store sv"
  by (simp_all add: audited_def split: prod.split)

lemma policy_reply_sel [simp]:
  "oc_sent (policy_reply w sv rq i good rejected bytes result) = []"
  "oc_store (policy_reply w sv rq i good rejected bytes result) = snd result"
  by (simp_all add: policy_reply_def split: prod.split)

lemma review_reply_sel [simp]:
  "oc_sent (review_reply sv sent body) = sent" "oc_store (review_reply sv sent body) = sv_store sv"
  by (simp_all add: review_reply_def)

text \<open>The endpoints that contact nobody, and those that change nothing.\<close>

lemmas quiet_defs = health_def ready_endpoint_def metrics_def session_def proposals_endpoint_def workspaces_def
  access_review_endpoint_def audit_timeline_def propose_def read_endpoint_def approve_endpoint_def sync_status_def
  evidence_endpoint_def trees_endpoint_def

lemma quiet_sent [simp]:
  "oc_sent (health cf w sv rq) = []" "oc_sent (ready_endpoint cf w sv) = []" "oc_sent (metrics cf w sv) = []"
  "oc_sent (session w sv rq i) = []" "oc_sent (proposals_endpoint w sv rq i) = []" "oc_sent (workspaces w sv rq i) = []"
  "oc_sent (access_review_endpoint w sv rq i) = []" "oc_sent (audit_timeline w sv rq i) = []" "oc_sent (propose w sv rq i) = []"
  "oc_sent (read_endpoint w sv rq i pid) = []" "oc_sent (approve_endpoint w sv rq i pid) = []" "oc_sent (sync_status cf w sv rq i) = []"
  "oc_sent (evidence_endpoint cf w sv rq i) = []" "oc_sent (trees_endpoint w sv rq i) = []"
  by (simp_all add: quiet_defs Let_def)

lemma quiet_store [simp]:
  "oc_store (health cf w sv rq) = sv_store sv" "oc_store (ready_endpoint cf w sv) = sv_store sv" "oc_store (metrics cf w sv) = sv_store sv"
  "oc_store (session w sv rq i) = sv_store sv" "oc_store (proposals_endpoint w sv rq i) = sv_store sv"
  "oc_store (workspaces w sv rq i) = sv_store sv" "oc_store (access_review_endpoint w sv rq i) = sv_store sv"
  "oc_store (audit_timeline w sv rq i) = sv_store sv" "oc_store (read_endpoint w sv rq i pid) = sv_store sv"
  "oc_store (sync_status cf w sv rq i) = sv_store sv" "oc_store (evidence_endpoint cf w sv rq i) = sv_store sv"
  "oc_store (trees_endpoint w sv rq i) = sv_store sv"
  by (simp_all add: quiet_defs Let_def)

lemma mcp_store [simp]: "oc_store (mcp w sv rq i) = sv_store sv"
  by (simp add: mcp_def split: prod.split)

lemma review_workspace_store [simp]: "oc_store (review_workspace cf w sv rq x name trees revision depth) = sv_store sv"
  by (simp add: review_workspace_def split: prod.split option.split)

lemma impact_store [simp]: "oc_store (impact cf w sv rq i) = sv_store sv"
  by (auto simp: impact_def Let_def split: option.split prod.split)

lemma review_store [simp]:
  "oc_store (github_review cf w sv payload) = sv_store sv" "oc_store (gitlab_review cf w sv payload) = sv_store sv"
  by (simp_all add: github_review_def gitlab_review_def split: sum.split option.split prod.split)

lemma apply_webhook_sent [simp]: "oc_sent (apply_webhook w sv parsed) = []"
  by (simp add: apply_webhook_def split: sum.split option.split prod.split)

subsection \<open>Who is contacted\<close>

lemma tree_named_name: "tree_named r n = Some t \<Longrightarrow> t_name t = n"
  using tree_named_Some by blast

lemma review_trees_sent:
  "(t, q) \<in> set (snd (review_trees w r rq ns)) \<Longrightarrow> q = rq \<and> t_name t \<in> set ns \<and> tree_named r (t_name t) = Some t"
  by (induction ns) (auto split: option.splits sum.splits prod.splits dest: tree_named_name)

lemma detect_changes_sent:
  "(t, q) \<in> set (snd (detect_changes w r args ns)) \<Longrightarrow>
     q = internal_request w ''detect_changes'' args \<and> t_name t \<in> set ns \<and> tree_named r (t_name t) = Some t"
  by (induction ns) (auto split: option.splits prod.splits dest: tree_named_name)

lemma surfaces_sent:
  "(t, q) \<in> set (snd (surfaces w r ns)) \<Longrightarrow>
     q = internal_request w ''http_surface'' (JObj []) \<and> t_name t \<in> set ns \<and> tree_named r (t_name t) = Some t"
  by (induction ns) (auto split: option.splits prod.splits dest: tree_named_name)

lemma find_pair: "find (\<lambda>(n, _). n = wanted) xs = Some (name, v) \<Longrightarrow> (name, v) \<in> set xs \<and> name = wanted"
  by (induction xs) (auto split: if_splits)

lemma internal_headers [simp]: "rq_headers (internal_request w tool args) = []"
  by (simp add: internal_request_def)

lemma review_workspace_sent:
  assumes "(t, q) \<in> set (oc_sent (review_workspace cf w sv rq x name trees revision depth))"
  shows "t_name t \<in> set trees \<and> tree_named (wo_rights w) (t_name t) = Some t \<and> rq_headers q = []"
proof -
  have "(t, q) \<in> set (snd (detect_changes w (wo_rights w) (JObj [(''rev'', JStr revision), (''depth'', JNum (int depth))]) trees)) \<or>
      (t, q) \<in> set (snd (surfaces w (wo_rights w) trees))"
    using assms by (auto simp: review_workspace_def split: prod.splits option.splits if_splits)
  then show ?thesis by (auto dest!: detect_changes_sent surfaces_sent)
qed

lemma impact_sent:
  assumes "(t, q) \<in> set (oc_sent (impact cf w sv rq i))"
  shows "\<exists>x. i = Some x \<and> rq_headers q = [] \<and> tree_named (wo_rights w) (t_name t) = Some t \<and>
    may_with_groups (wo_rights w) (id_subject x) (id_groups x) (t_name t)"
proof (cases i)
  case None
  then show ?thesis using assms by (simp add: impact_def)
next
  case (Some x)
  obtain wanted name trees revision depth where
      f: "find (\<lambda>(n, _). n = wanted) (visible_workspaces (wo_rights w) (id_subject x) (id_groups x)) = Some (name, trees)"
      and s: "(t, q) \<in> set (oc_sent (review_workspace cf w sv rq x name trees revision depth))"
    using assms by (auto simp: impact_def Some Let_def split: option.splits if_splits prod.splits)
  from find_pair [OF f] have "\<forall>n\<in>set trees. may_with_groups (wo_rights w) (id_subject x) (id_groups x) n"
    by (simp add: visible_workspace_iff)
  then show ?thesis using review_workspace_sent [OF s] Some by blast
qed

lemma mcp_sent:
  assumes "(t, q) \<in> set (oc_sent (mcp w sv rq i))"
  shows "\<exists>x. i = Some x \<and> q = rq \<and> tree_of (rq_path rq) = Some (t_name t) \<and> tree_named (wo_rights w) (t_name t) = Some t \<and>
    may (wo_rights w) (id_subject x) (t_name t) \<and>
    (\<forall>tool. mcp_tool_name w rq = Some tool \<longrightarrow> may_tool_with_groups (wo_rights w) (id_subject x) (id_groups x) (t_name t) tool)"
proof -
  have m: "(t, q) \<in> set (snd (mcp_reply w rq i))" using assms by (auto simp: mcp_def split: prod.splits)
  then obtain t' where r: "Proxy.route (wo_rights w) (who_of i) (rq_path rq) = To t'" and n: "\<not> tool_refused w rq i" and e: "t' = t" "q = rq"
    by (auto simp: mcp_reply_def split: Proxy.route.splits if_splits)
  then obtain x name where x: "i = Some x" "tree_of (rq_path rq) = Some name" "may (wo_rights w) (id_subject x) name"
      "tree_named (wo_rights w) name = Some t"
    by (cases i) (auto simp: Proxy.route_def who_of_def split: option.splits if_splits)
  moreover have "t_name t = name" using x(4) by (rule tree_named_name)
  ultimately show ?thesis using n e by (auto simp: tool_refused_def)
qed

text \<open>A review for a code host: of the one workspace that holds the tree the repository is mapped to.\<close>

definition mapped_member :: "config \<Rightarrow> rights \<Rightarrow> string \<Rightarrow> string \<Rightarrow> bool" where
  "mapped_member cf r provider name \<longleftrightarrow> (\<exists>repo m workspace. map_of (c_mapping (cf_sync cf)) (provider @ repo) = Some m \<and>
     unique_workspace_for_tree r m = Some workspace \<and> name \<in> set (hm_vals (r_workspaces r) workspace))"

lemma webhook_review_sent:
  assumes "(t, q) \<in> set (snd (webhook_review cf w provider ev))"
  shows "mapped_member cf (wo_rights w) provider (t_name t) \<and> tree_named (wo_rights w) (t_name t) = Some t \<and> rq_headers q = []"
proof -
  obtain m workspace trees where m: "map_of (c_mapping (cf_sync cf)) (provider @ ev_repository ev) = Some m"
      "unique_workspace_for_tree (wo_rights w) m = Some workspace" "map_of (r_workspaces (wo_rights w)) workspace = Some trees"
    and s: "(t, q) \<in> set (snd (review_trees w (wo_rights w)
        (internal_request w ''detect_changes'' (JObj [(''rev'', JStr (ev_revision ev)), (''depth'', JNum 3)])) trees))"
    using assms by (auto simp: webhook_review_def provider_workspace_review_def Let_def resolve_tree_def Option.bind_eq_Some_conv
        split: option.splits if_splits sum.splits prod.splits)
  have "hm_vals (r_workspaces (wo_rights w)) workspace = trees" using m(3) by (simp add: hm_vals_def)
  then show ?thesis using m review_trees_sent [OF s] unfolding mapped_member_def by auto
qed

lemma review_sent:
  "(t, q) \<in> set (oc_sent (github_review cf w sv payload)) \<Longrightarrow> \<exists>ev. (t, q) \<in> set (snd (webhook_review cf w ''github:'' ev))"
  unfolding github_review_def by (auto split: sum.splits option.splits prod.splits) (metis snd_conv)+

lemma merge_review_sent:
  "(t, q) \<in> set (oc_sent (gitlab_review cf w sv payload)) \<Longrightarrow> \<exists>ev. (t, q) \<in> set (snd (webhook_review cf w ''gitlab:'' ev))"
  unfolding gitlab_review_def by (auto split: sum.splits option.splits prod.splits) (metis snd_conv)+

text \<open>A delivery is signed when its host's secret is configured and its header matches it.\<close>

definition github_signed :: "config \<Rightarrow> request \<Rightarrow> bool" where
  "github_signed cf rq = (case c_github_secret (cf_sync cf) of None \<Rightarrow> False
     | Some secret \<Rightarrow> verify_github_signature secret (rq_body rq) (header rq ''x-hub-signature-256''))"

definition gitlab_signed :: "config \<Rightarrow> request \<Rightarrow> bool" where
  "gitlab_signed cf rq = (case c_gitlab_secret (cf_sync cf) of None \<Rightarrow> False
     | Some secret \<Rightarrow> verify_gitlab_token secret (header rq ''x-gitlab-token''))"

lemma webhook_sent:
  "(t, q) \<in> set (oc_sent (github_webhook cf w sv rq)) \<Longrightarrow> github_signed cf rq \<and> mapped_member cf (wo_rights w) ''github:'' (t_name t) \<and>
     tree_named (wo_rights w) (t_name t) = Some t \<and> rq_headers q = []"
  "(t, q) \<in> set (oc_sent (gitlab_webhook cf w sv rq)) \<Longrightarrow> gitlab_signed cf rq \<and> mapped_member cf (wo_rights w) ''gitlab:'' (t_name t) \<and>
     tree_named (wo_rights w) (t_name t) = Some t \<and> rq_headers q = []"
  unfolding github_webhook_def gitlab_webhook_def github_signed_def gitlab_signed_def
  by (auto simp: Let_def split: option.splits if_splits dest!: review_sent merge_review_sent webhook_review_sent)

lemma serve_sent:
  "(t, q) \<in> set (oc_sent (serve cf w sv rq i)) \<Longrightarrow> (t, q) \<in> set (oc_sent (impact cf w sv rq i)) \<or> (t, q) \<in> set (oc_sent (mcp w sv rq i))"
  by (simp add: serve_def Let_def split: if_splits)

lemma guarded_sent:
  "(t, q) \<in> set (oc_sent (guarded cf w sv rq)) \<Longrightarrow> mirror_fresh cf w \<and>
     ((t, q) \<in> set (oc_sent (impact cf w sv rq (identity_of cf w rq))) \<or> (t, q) \<in> set (oc_sent (mcp w sv rq (identity_of cf w rq))))"
  by (auto simp: guarded_def Let_def split: if_splits dest: serve_sent)

lemma dispatch_sent:
  "(t, q) \<in> set (oc_sent (dispatch cf w sv rq)) \<Longrightarrow> (t, q) \<in> set (oc_sent (github_webhook cf w sv rq)) \<or>
     (t, q) \<in> set (oc_sent (gitlab_webhook cf w sv rq)) \<or> (t, q) \<in> set (oc_sent (guarded cf w sv rq))"
  by (simp add: dispatch_def Let_def split: if_splits)

lemma handle_cases:
  assumes "handle cf w sv = (ans, sent, sv')"
  obtains (quiet) "sent = []" and "sv_store sv' = sv_store sv"
  | (served) rq where "read_request (wo_clean w) (wo_stream w) = Inr (Some rq)" and "ans = oc_answer (dispatch cf w sv rq)"
    and "sent = oc_sent (dispatch cf w sv rq)" and "sv_store sv' = oc_store (dispatch cf w sv rq)"
  using assms by (auto simp: handle_def settle_def Let_def split: prod.splits bool.splits sum.splits option.splits)

text \<open>
  C29. A tree is contacted only for someone who may. Whatever arrives on a connection, each request
  the server sends goes to a served tree, and either the caller was identified under a fresh
  permission mirror and may reach that tree, with the path naming it and any tool the server
  can name being allowed when the call is passed on; or a code host signed the delivery, and the
  tree belongs to the one workspace of the tree the repository is mapped to. No caller's
  header goes with the server's own calls.
\<close>

theorem only_authorised_trees_are_contacted:
  assumes "handle cf w sv = (ans, sent, sv')" and "(t, q) \<in> set sent"
  shows "\<exists>rq. read_request (wo_clean w) (wo_stream w) = Inr (Some rq) \<and> tree_named (wo_rights w) (t_name t) = Some t \<and>
    ((\<exists>x. identity_of cf w rq = Some x \<and> mirror_fresh cf w \<and>
        (q = rq \<and> tree_of (rq_path rq) = Some (t_name t) \<and> may (wo_rights w) (id_subject x) (t_name t) \<and>
           (\<forall>tool. mcp_tool_name w rq = Some tool \<longrightarrow>
              may_tool_with_groups (wo_rights w) (id_subject x) (id_groups x) (t_name t) tool) \<or>
         rq_headers q = [] \<and> may_with_groups (wo_rights w) (id_subject x) (id_groups x) (t_name t))) \<or>
     rq_headers q = [] \<and> (github_signed cf rq \<and> mapped_member cf (wo_rights w) ''github:'' (t_name t) \<or>
       gitlab_signed cf rq \<and> mapped_member cf (wo_rights w) ''gitlab:'' (t_name t)))"
  using assms(1)
proof (cases rule: handle_cases)
  case quiet
  then show ?thesis using assms(2) by simp
next
  case (served rq)
  then consider "(t, q) \<in> set (oc_sent (github_webhook cf w sv rq))" | "(t, q) \<in> set (oc_sent (gitlab_webhook cf w sv rq))"
    | "(t, q) \<in> set (oc_sent (guarded cf w sv rq))" using dispatch_sent assms(2) by blast
  then show ?thesis
  proof cases
    case 3
    then show ?thesis using guarded_sent [OF 3] impact_sent [of t q cf w sv rq] mcp_sent [of t q w sv rq] served(1) by blast
  qed (use served(1) webhook_sent in blast)+
qed

text \<open>A server with one tree, in OIDC mode, with a mounted key and a library that accepts one token.\<close>

definition sample_rights :: rights where
  "sample_rights = rights_default\<lparr>r_trees := [\<lparr>t_name = ''alpha'', t_addr = ''h:1'', t_token = ''ours''\<rparr>],
     r_grants := [(''anna'', [''alpha''])], r_members := [(''anna'', [''admin''])], r_roles := [(''admin'', [''alpha''])]\<rparr>"

definition sample_jwt :: "unit jwt_lib" where
  "sample_jwt = \<lparr>decode_header = (\<lambda>t. if t = ''mine'' then Some (RS256, Some ''k'') else None), rsa_key = (\<lambda>_ _. Some ()),
     jwt_decode = (\<lambda>_ _ _. Some (JObj [(''sub'', JStr ''anna'')]))\<rparr>"

definition sample_config :: config where
  "sample_config = \<lparr>cf_sync = \<lparr>c_mapping = [(''github:org/alpha'', ''alpha'')], c_github_secret = Some ''s3cret'', c_gitlab_secret = None,
       c_github_token = None, c_gitlab_token = None\<rparr>, cf_allowed_origin = None,
     cf_oidc = Some \<lparr>o_issuer = ''i'', o_audience = ''a'', o_subject_claim = ''sub'', o_groups_claim = ''groups''\<rparr>, cf_sso = None,
     cf_sync_max_age = None, cf_evidence = None, cf_version = ''0'', cf_console_html = [], cf_console_css = [], cf_console_js = []\<rparr>"

definition sample_world :: "string list \<Rightarrow> (unit, json) surround" where
  "sample_world stream = \<lparr>wo_clean = True, wo_stream = stream, wo_ip = ''127.0.0.1'', wo_addr = ''127.0.0.1:5000'', wo_instant = 0,
     wo_now = 1000, wo_uptime = 0, wo_duration_ms = 1, wo_active = 1, wo_rights = sample_rights, wo_rights_file = None,
     wo_entries = [], wo_keys = [\<lparr>k_kid = Some ''k'', k_kty = ''RSA'', k_n = Some ''n'', k_e = Some ''e''\<rparr>], wo_jwt = sample_jwt,
     wo_json = (\<lambda>_. None), wo_codec = value_codec, wo_print = (\<lambda>_. []),
     wo_connect = (\<lambda>_ _. Some ''HTTP/1.1 200 OK''), wo_tls = None, wo_http = (\<lambda>_. Inr []),
     wo_log = \<lparr>al_current = None, al_backup = None\<rparr>, wo_list_ok = True, wo_swap = True, wo_write = Written, wo_sync_io = True\<rparr>"

definition sample_server :: "json server" where
  "sample_server = \<lparr>sv_limiter = new_limiter 200 400, sv_store = \<lparr>ps_active = None, ps_dir = []\<rparr>, sv_audit = None\<rparr>"

lemma sample_identity: "identity_of sample_config (sample_world s) sample_request = Some \<lparr>id_subject = ''anna'', id_groups = []\<rparr>"
  unfolding sample_world_def by code_simp

lemma sample_admitted: "fst (check_and_consume 0 ip 1 (new_limiter 200 400))"
  by (simp add: check_and_consume_def new_limiter_def purge_def duration_since_def Let_def)

lemma handle_admitted:
  assumes "fst (check_and_consume (wo_instant w) (wo_ip w) 1 (sv_limiter sv))" and "read_request (wo_clean w) (wo_stream w) = Inr (Some rq)"
  shows "fst (handle cf w sv) = oc_answer (dispatch cf w sv rq)" and "fst (snd (handle cf w sv)) = oc_sent (dispatch cf w sv rq)"
    and "sv_store (snd (snd (handle cf w sv))) = oc_store (dispatch cf w sv rq)"
  using assms by (cases "check_and_consume (wo_instant w) (wo_ip w) 1 (sv_limiter sv)";
      simp add: handle_def settle_def Let_def)+

lemma sample_sent_from:
  assumes "sv_limiter sv = new_limiter 200 400"
  shows "fst (snd (handle sample_config (sample_world sample_stream) sv)) =
     [(\<lparr>t_name = ''alpha'', t_addr = ''h:1'', t_token = ''ours''\<rparr>, sample_request)]"
proof -
  let ?w = "sample_world sample_stream"
  have r: "read_request (wo_clean ?w) (wo_stream ?w) = Inr (Some sample_request)" using sample_read by (simp add: sample_world_def)
  have a: "fst (check_and_consume (wo_instant ?w) (wo_ip ?w) 1 (sv_limiter sv))"
    using sample_admitted assms by (simp add: sample_world_def)
  have "oc_sent (dispatch sample_config ?w sv sample_request) = [(\<lparr>t_name = ''alpha'', t_addr = ''h:1'', t_token = ''ours''\<rparr>, sample_request)]"
  proof -
    have o: "origin_allowed (header sample_request ''origin'') (cf_allowed_origin sample_config)" by code_simp
    have m: "mirror_fresh sample_config ?w" by (simp add: mirror_fresh_def sample_config_def)
    have p: "rq_path sample_request = ''/mcp/alpha''" "rq_method sample_request = ''POST''" "approved_of ''/mcp/alpha'' = None" by code_simp+
    have t: "mcp_tool_name ?w sample_request = None" by (simp add: mcp_tool_name_def sample_world_def)
    have "Proxy.route sample_rights (Some ''anna'') ''/mcp/alpha'' = To \<lparr>t_name = ''alpha'', t_addr = ''h:1'', t_token = ''ours''\<rparr>" by code_simp
    then have "oc_sent (mcp ?w sv sample_request (Some \<lparr>id_subject = ''anna'', id_groups = []\<rparr>)) =
        [(\<lparr>t_name = ''alpha'', t_addr = ''h:1'', t_token = ''ours''\<rparr>, sample_request)]"
      using t by (simp add: mcp_def mcp_reply_def who_of_def tool_refused_def p(1) sample_world_def split: prod.split option.split)
    then show ?thesis using m o p sample_identity [of sample_stream]
      by (simp add: dispatch_def guarded_def serve_def Let_def proposals_path_def)
  qed
  then show ?thesis using handle_admitted(2) [OF a r] by simp
qed

lemma sample_sent:
  "fst (snd (handle sample_config (sample_world sample_stream) sample_server)) =
     [(\<lparr>t_name = ''alpha'', t_addr = ''h:1'', t_token = ''ours''\<rparr>, sample_request)]"
  by (rule sample_sent_from) (simp add: sample_server_def)

theorem only_authorised_trees_are_contacted_witness:
  "\<exists>rq. read_request True sample_stream = Inr (Some rq) \<and> tree_of (rq_path rq) = Some ''alpha'' \<and> may sample_rights ''anna'' ''alpha''"
proof -
  let ?w = "sample_world sample_stream"
  obtain ans sent sv' where h: "handle sample_config ?w sample_server = (ans, sent, sv')" by (cases "handle sample_config ?w sample_server")
  have "(\<lparr>t_name = ''alpha'', t_addr = ''h:1'', t_token = ''ours''\<rparr>, sample_request) \<in> set sent" using sample_sent h by simp
  from only_authorised_trees_are_contacted [OF h this] obtain rq x where
      "read_request (wo_clean ?w) (wo_stream ?w) = Inr (Some rq)" and
      d: "may (wo_rights ?w) (id_subject x) ''alpha'' \<and> identity_of sample_config ?w rq = Some x \<and> tree_of (rq_path rq) = Some ''alpha'' \<or>
          rq_headers sample_request = []" by auto
  moreover from this have e: "rq = sample_request" using sample_read by (simp add: sample_world_def)
  moreover have "rq_headers sample_request \<noteq> []" by (simp add: sample_request_def)
  ultimately show ?thesis using sample_identity [of sample_stream] sample_read by (auto simp: sample_world_def)
qed

subsection \<open>What changes the policy\<close>

text \<open>What a host's membership event may ask for: one grant or revocation on the tree a repository is mapped to.\<close>

definition delivered :: "config \<Rightarrow> string \<Rightarrow> sync_action \<Rightarrow> bool" where
  "delivered cf provider a \<longleftrightarrow> (\<exists>user repo m. map_of (c_mapping (cf_sync cf)) (provider @ repo) = Some m \<and>
     is_valid_principal user \<and> is_valid_identifier m \<and> a \<in> {Grant user m, Revoke user m})"

definition host_change :: "config \<Rightarrow> ('k, 'doc) surround \<Rightarrow> request \<Rightarrow> 'doc pstore \<Rightarrow> 'doc pstore \<Rightarrow> bool" where
  "host_change cf w rq st st' \<longleftrightarrow> (\<exists>a out. (github_signed cf rq \<and> delivered cf ''github:'' a \<or> gitlab_signed cf rq \<and> delivered cf ''gitlab:'' a) \<and>
     apply_sync_action (wo_sync_io w) a (ps_active st) = (Inr (), Some out) \<and> st' = st\<lparr>ps_active := Some out\<rparr>)"

lemma apply_webhook_store:
  assumes "oc_store (apply_webhook w sv parsed) \<noteq> sv_store sv"
  shows "\<exists>a out. parsed = Inr (Some a) \<and> apply_sync_action (wo_sync_io w) a (ps_active (sv_store sv)) = (Inr (), Some out) \<and>
    oc_store (apply_webhook w sv parsed) = (sv_store sv)\<lparr>ps_active := Some out\<rparr>"
proof (cases parsed)
  case (Inr o')
  then obtain a where a: "o' = Some a" using assms by (cases o') (simp_all add: apply_webhook_def)
  show ?thesis
    using assms unfolding apply_webhook_def Inr a apply_sync_action_def
    by (simp add: apply_sync_cases split: if_splits)
qed (use assms in \<open>simp add: apply_webhook_def\<close>)

lemma github_webhook_store:
  assumes "oc_store (github_webhook cf w sv rq) \<noteq> sv_store sv"
  shows "host_change cf w rq (sv_store sv) (oc_store (github_webhook cf w sv rq))"
proof -
  let ?p = "handle_github_webhook (header_or rq ''x-github-event'' ''member'') (from_utf8_lossy (rq_body rq)) (cf_sync cf)"
  have s: "github_signed cf rq" and e: "oc_store (github_webhook cf w sv rq) = oc_store (apply_webhook w sv ?p)"
    using assms by (auto simp: github_webhook_def github_signed_def Let_def split: option.splits if_splits)
  from apply_webhook_store [of w sv ?p] assms e obtain a out where a: "?p = Inr (Some a)"
      "apply_sync_action (wo_sync_io w) a (ps_active (sv_store sv)) = (Inr (), Some out)"
      "oc_store (github_webhook cf w sv rq) = (sv_store sv)\<lparr>ps_active := Some out\<rparr>" by auto
  from a(1) have "delivered cf ''github:'' a"
    by (rule github_webhook_action) (auto simp: delivered_def resolve_tree_def)
  then show ?thesis using s a(2,3) unfolding host_change_def by blast
qed

lemma gitlab_webhook_store:
  assumes "oc_store (gitlab_webhook cf w sv rq) \<noteq> sv_store sv"
  shows "host_change cf w rq (sv_store sv) (oc_store (gitlab_webhook cf w sv rq))"
proof -
  let ?p = "handle_gitlab_webhook (header_or rq ''x-gitlab-event'' ''member'') (from_utf8_lossy (rq_body rq)) (cf_sync cf)"
  have s: "gitlab_signed cf rq" and e: "oc_store (gitlab_webhook cf w sv rq) = oc_store (apply_webhook w sv ?p)"
    using assms by (auto simp: gitlab_webhook_def gitlab_signed_def Let_def split: option.splits if_splits)
  from apply_webhook_store [of w sv ?p] assms e obtain a out where a: "?p = Inr (Some a)"
      "apply_sync_action (wo_sync_io w) a (ps_active (sv_store sv)) = (Inr (), Some out)"
      "oc_store (gitlab_webhook cf w sv rq) = (sv_store sv)\<lparr>ps_active := Some out\<rparr>" by auto
  from a(1) have "delivered cf ''gitlab:'' a"
    by (rule gitlab_webhook_action) (auto simp: delivered_def resolve_tree_def)
  then show ?thesis using s a(2,3) unfolding host_change_def by blast
qed

text \<open>A proposal stored for, and one put in force by, an administrator.\<close>

definition proposed_by :: "('k, 'doc) surround \<Rightarrow> identity \<Rightarrow> admin_scope \<Rightarrow> 'doc pstore \<Rightarrow> 'doc pstore \<Rightarrow> bool" where
  "proposed_by w x scope st st' \<longleftrightarrow> (\<exists>pid rights. is_valid_identifier pid \<and>
     st' = snd (create (wo_codec w) (wo_write w) (wo_now w) pid (id_subject x) rights scope st))"

definition approved_by :: "('k, 'doc) surround \<Rightarrow> identity \<Rightarrow> admin_scope \<Rightarrow> 'doc pstore \<Rightarrow> 'doc pstore \<Rightarrow> bool" where
  "approved_by w x scope st st' \<longleftrightarrow> (\<exists>pid decided. is_valid_identifier pid \<and>
     approve_check (wo_codec w) pid (id_subject x) scope st = Inr decided \<and> wo_swap w \<and>
     st' = snd (approve_commit (wo_codec w) True (wo_write w) (wo_now w) pid (id_subject x) decided st))"

lemma propose_store:
  assumes "oc_store (propose w sv rq i) \<noteq> sv_store sv"
  shows "\<exists>x scope. i = Some x \<and> scope_of w i = Some scope \<and> proposed_by w x scope (sv_store sv) (oc_store (propose w sv rq i))"
proof -
  have s: "oc_store (propose w sv rq i) = snd (propose_status w sv rq i)" by (simp add: propose_def)
  show ?thesis using assms unfolding s
    by (auto simp: propose_status_def proposed_by_def Let_def split: option.splits if_splits sum.splits prod.splits) (metis snd_conv)+
qed

lemma approve_store:
  assumes "oc_store (approve_endpoint w sv rq i pid) \<noteq> sv_store sv"
  shows "\<exists>x scope. i = Some x \<and> scope_of w i = Some scope \<and> approved_by w x scope (sv_store sv) (oc_store (approve_endpoint w sv rq i pid))"
proof -
  have s: "oc_store (approve_endpoint w sv rq i pid) = snd (approve_status w sv i pid)" by (simp add: approve_endpoint_def)
  obtain x scope where x: "i = Some x" "scope_of w i = Some scope" "is_valid_identifier pid"
    using assms unfolding s by (auto simp: approve_status_def split: option.splits if_splits)
  then have e: "snd (approve_status w sv i pid) =
      snd (approve (wo_codec w) (wo_swap w) (wo_write w) (wo_now w) pid (id_subject x) scope (sv_store sv))"
    by (auto simp: approve_status_def split: sum.splits prod.splits)
  then obtain decided where "approve_check (wo_codec w) pid (id_subject x) scope (sv_store sv) = Inr decided" "wo_swap w"
    using assms unfolding s by (auto simp: approve_def approve_commit_def split: sum.splits if_splits)
  then have "approved_by w x scope (sv_store sv) (snd (approve_status w sv i pid))"
    unfolding approved_by_def using x(3) e by (intro exI [of _ pid] exI [of _ decided]) (simp add: approve_def)
  then show ?thesis using x(1,2) unfolding s by blast
qed

lemma serve_store_cases:
  assumes "P (sv_store sv)" and "rq_method rq = ''POST'' \<Longrightarrow> P (oc_store (propose w sv rq i))"
    and "\<And>pid. rq_method rq = ''POST'' \<Longrightarrow> P (oc_store (approve_endpoint w sv rq i pid))"
  shows "P (oc_store (serve cf w sv rq i))"
  unfolding serve_def Let_def using assms by (simp split: if_split)

lemma dispatch_store_cases:
  assumes "P (sv_store sv)" and "rq_method rq = ''POST'' \<Longrightarrow> P (oc_store (github_webhook cf w sv rq))"
    and "rq_method rq = ''POST'' \<Longrightarrow> P (oc_store (gitlab_webhook cf w sv rq))"
    and "mirror_fresh cf w \<Longrightarrow> P (oc_store (serve cf w sv rq (identity_of cf w rq)))"
  shows "P (oc_store (dispatch cf w sv rq))"
  unfolding dispatch_def guarded_def Let_def using assms by (simp split: if_split)

text \<open>What an administrator changes, and what a request changes, as one predicate of the store after it.\<close>

definition admin_change :: "('k, 'doc) surround \<Rightarrow> identity option \<Rightarrow> 'doc pstore \<Rightarrow> 'doc pstore \<Rightarrow> bool" where
  "admin_change w i st st' \<longleftrightarrow> (\<exists>x scope. i = Some x \<and> admin_scope_of (wo_rights w) (id_subject x) (id_groups x) = Some scope \<and>
     (proposed_by w x scope st st' \<or> approved_by w x scope st st'))"

definition request_change :: "config \<Rightarrow> ('k, 'doc) surround \<Rightarrow> request \<Rightarrow> 'doc pstore \<Rightarrow> 'doc pstore \<Rightarrow> bool" where
  "request_change cf w rq st st' \<longleftrightarrow> rq_method rq = ''POST'' \<and>
     (host_change cf w rq st st' \<or> mirror_fresh cf w \<and> admin_change w (identity_of cf w rq) st st')"

lemma admin_changeI:
  assumes "\<exists>x scope. i = Some x \<and> scope_of w i = Some scope \<and> Q x scope"
    and "\<And>x scope. Q x scope \<Longrightarrow> proposed_by w x scope st st' \<or> approved_by w x scope st st'"
  shows "admin_change w i st st'"
  using assms unfolding admin_change_def scope_of_def by fastforce

lemma serve_store:
  "oc_store (serve cf w sv rq i) = sv_store sv \<or> rq_method rq = ''POST'' \<and> admin_change w i (sv_store sv) (oc_store (serve cf w sv rq i))"
proof (rule serve_store_cases [where P = "\<lambda>st. st = sv_store sv \<or> rq_method rq = ''POST'' \<and> admin_change w i (sv_store sv) st"])
  show "oc_store (propose w sv rq i) = sv_store sv \<or> rq_method rq = ''POST'' \<and> admin_change w i (sv_store sv) (oc_store (propose w sv rq i))"
    if "rq_method rq = ''POST''"
    using admin_changeI [OF propose_store [of w sv rq i]] that by blast
  show "oc_store (approve_endpoint w sv rq i pid) = sv_store sv \<or>
      rq_method rq = ''POST'' \<and> admin_change w i (sv_store sv) (oc_store (approve_endpoint w sv rq i pid))"
    if "rq_method rq = ''POST''" for pid
    using admin_changeI [OF approve_store [of w sv rq i pid]] that by blast
qed simp

lemma dispatch_store:
  "oc_store (dispatch cf w sv rq) = sv_store sv \<or> request_change cf w rq (sv_store sv) (oc_store (dispatch cf w sv rq))"
  by (rule dispatch_store_cases [where P = "\<lambda>st. st = sv_store sv \<or> request_change cf w rq (sv_store sv) st"])
    (use github_webhook_store [of cf w sv rq] gitlab_webhook_store [of cf w sv rq] serve_store [of cf w sv rq "identity_of cf w rq"]
     in \<open>auto simp: request_change_def\<close>)

text \<open>
  C30. The policy and the proposals change only for someone who may change them. A request changes
  the rights file or the stored proposals only as a POST, and only so: a configured code host
  signed the delivery, and the file is the old one after one grant or revocation, of a well-formed
  name, on a tree the operator mapped a repository of that host to; or an administrator,
  identified under a fresh permission mirror, created a proposal within their scope or put one
  in force that the four-eyes check decided for them.
\<close>

theorem changes_are_authorised:
  assumes "handle cf w sv = (ans, sent, sv')" and "sv_store sv' \<noteq> sv_store sv"
  shows "\<exists>rq. read_request (wo_clean w) (wo_stream w) = Inr (Some rq) \<and> request_change cf w rq (sv_store sv) (sv_store sv')"
  using assms(1)
proof (cases rule: handle_cases)
  case (served rq)
  then show ?thesis using dispatch_store [of cf w sv rq] assms(2) by auto
qed (use assms(2) in simp)

text \<open>A GitLab server hook that adds paula to the group mapped to the sample tree.\<close>

definition hook_config :: config where
  "hook_config = sample_config\<lparr>cf_sync := \<lparr>c_mapping = [(''gitlab:org'', ''alpha'')], c_github_secret = None,
     c_gitlab_secret = Some ''t0p'', c_github_token = None, c_gitlab_token = None\<rparr>\<rparr>"

definition hook_body :: string where
  "hook_body = ''{'' @ quoted ''event_name'' @ '':'' @ quoted ''user_add_to_team'' @ '','' @ quoted ''user_username'' @ '':'' @
     quoted ''paula'' @ '','' @ quoted ''group_path'' @ '':'' @ quoted ''org'' @ ''}''"

definition hook_stream :: "string list" where
  "hook_stream = [''POST /api/sync/webhook/gitlab HTTP/1.1'' @ crlf @ ''X-Gitlab-Token: t0p'' @ crlf @
     ''Content-Length: '' @ dec_str (length hook_body) @ crlf @ crlf @ hook_body]"

definition hook_request :: request where
  "hook_request = \<lparr>rq_method = ''POST'', rq_path = ''/api/sync/webhook/gitlab'',
     rq_headers = [(''X-Gitlab-Token'', ''t0p''), (''Content-Length'', dec_str (length hook_body))], rq_body = hook_body\<rparr>"

lemma hook_read: "read_request True hook_stream = Inr (Some hook_request)"
  by code_simp

lemma hook_store:
  "sv_store (snd (snd (handle hook_config (sample_world hook_stream) sample_server))) =
     \<lparr>ps_active = Some (join [tab] [''grant'', ''paula'', ''alpha''] @ [nl]), ps_dir = []\<rparr>"
proof -
  let ?w = "sample_world hook_stream"
  have r: "read_request (wo_clean ?w) (wo_stream ?w) = Inr (Some hook_request)" using hook_read by (simp add: sample_world_def)
  have a: "fst (check_and_consume (wo_instant ?w) (wo_ip ?w) 1 (sv_limiter sample_server))"
    using sample_admitted by (simp add: sample_world_def sample_server_def)
  have p: "header hook_request ''origin'' = None" "verify_gitlab_token ''t0p'' (header hook_request ''x-gitlab-token'')"
    "header_or hook_request ''x-gitlab-event'' ''member'' = ''member''"
    "handle_gitlab_webhook ''member'' (from_utf8_lossy (rq_body hook_request)) (cf_sync hook_config) = Inr (Some (Grant ''paula'' ''alpha''))"
    "apply_sync_action True (Grant ''paula'' ''alpha'') None = (Inr (), Some (join [tab] [''grant'', ''paula'', ''alpha''] @ [nl]))"
    "c_gitlab_secret (cf_sync hook_config) = Some ''t0p''" "rq_path hook_request = ''/api/sync/webhook/gitlab''" "rq_method hook_request = ''POST''"
    by code_simp+
  have "oc_store (dispatch hook_config ?w sample_server hook_request) =
      \<lparr>ps_active = Some (join [tab] [''grant'', ''paula'', ''alpha''] @ [nl]), ps_dir = []\<rparr>"
    using p by (simp add: dispatch_def Let_def origin_allowed_def gitlab_webhook_def apply_webhook_def sample_world_def sample_server_def)
  then show ?thesis using handle_admitted(3) [OF a r] by simp
qed

theorem changes_are_authorised_witness:
  "\<exists>rq. read_request True hook_stream = Inr (Some rq) \<and> rq_method rq = ''POST'' \<and>
     (\<exists>st'. ps_active st' = Some (join [tab] [''grant'', ''paula'', ''alpha''] @ [nl]) \<and>
        request_change hook_config (sample_world hook_stream) rq (sv_store sample_server) st')"
proof -
  let ?w = "sample_world hook_stream"
  obtain ans sent sv' where h: "handle hook_config ?w sample_server = (ans, sent, sv')" by (cases "handle hook_config ?w sample_server")
  have s: "ps_active (sv_store sv') = Some (join [tab] [''grant'', ''paula'', ''alpha''] @ [nl])" using hook_store h by simp
  then have "sv_store sv' \<noteq> sv_store sample_server" by (auto simp: sample_server_def)
  from changes_are_authorised [OF h this] s show ?thesis by (auto simp: sample_world_def request_change_def)
qed

subsection \<open>Without a credential, or under a stale mirror\<close>

definition webhook_call :: "request \<Rightarrow> bool" where
  "webhook_call rq \<longleftrightarrow> rq_method rq = ''POST'' \<and> rq_path rq \<in> {''/api/sync/webhook/github'', ''/api/sync/webhook/gitlab''}"

text \<open>What is answered before anyone is asked who they are: the probes, a preflight, a signed webhook.\<close>

definition open_call :: "request \<Rightarrow> bool" where
  "open_call rq \<longleftrightarrow> rq_path rq \<in> {''/health'', ''/healthz'', ''/ready'', ''/metrics''} \<or> rq_method rq = ''OPTIONS'' \<or> webhook_call rq"

definition console_call :: "request \<Rightarrow> bool" where
  "console_call rq \<longleftrightarrow> rq_method rq = ''GET'' \<and> rq_path rq \<in> {''/review'', ''/admin'', ''/console.css'', ''/console.js'', ''/api/sso''}"

definition refused :: "'doc outcome \<Rightarrow> string \<Rightarrow> 'doc server \<Rightarrow> bool" where
  "refused oc answer sv \<longleftrightarrow> oc_answer oc = Answer answer \<and> oc_sent oc = [] \<and> oc_store oc = sv_store sv"

lemma audited_refused [simp]: "refused (audited w sv rq who reply) answer sv \<longleftrightarrow> snd (snd reply) = answer"
  by (simp add: refused_def)

lemma plain_refused [simp]: "refused (plain sv a) answer sv \<longleftrightarrow> a = answer"
  by (simp add: refused_def)

lemma anonymous_endpoints:
  "refused (session w sv rq None) unauthorized sv" "refused (proposals_endpoint w sv rq None) unauthorized sv"
  "refused (impact cf w sv rq None) unauthorized sv" "refused (workspaces w sv rq None) unauthorized sv"
  "refused (access_review_endpoint w sv rq None) unauthorized sv" "refused (audit_timeline w sv rq None) unauthorized sv"
  "refused (propose w sv rq None) unauthorized sv" "refused (read_endpoint w sv rq None pid) unauthorized sv"
  "refused (approve_endpoint w sv rq None pid) unauthorized sv" "refused (sync_status cf w sv rq None) unauthorized sv"
  "refused (evidence_endpoint cf w sv rq None) unauthorized sv" "refused (trees_endpoint w sv rq None) unauthorized sv"
  "refused (mcp w sv rq None) unauthorized sv"
  by (simp_all add: quiet_defs impact_def no_credential_def operator_only_def)
    (simp_all add: refused_def propose_status_def approve_status_def policy_reply_def audited_def mcp_def mcp_reply_def Proxy.route_def who_of_def no_credential_def)

lemma serve_anonymous:
  assumes "\<not> console_call rq"
  shows "refused (serve cf w sv rq None) unauthorized sv"
  unfolding serve_def Let_def using assms by (simp add: console_call_def anonymous_endpoints split: if_split)

lemma guarded_refused:
  assumes "\<not> console_call rq" and "identity_of cf w rq = None \<or> \<not> mirror_fresh cf w"
  shows "refused (guarded cf w sv rq) (if mirror_fresh cf w then unauthorized
    else respond ''503 Service Unavailable'' ''permission mirror is stale'') sv"
  using assms serve_anonymous [OF assms(1), of cf w sv] by (auto simp: guarded_def Let_def refused_def)

lemma dispatch_guarded:
  assumes "\<not> open_call rq"
  shows "dispatch cf w sv rq = (if origin_allowed (header rq ''origin'') (cf_allowed_origin cf) then guarded cf w sv rq
    else plain sv (respond ''403 Forbidden'' ''origin not allowed''))"
  using assms by (auto simp: dispatch_def open_call_def webhook_call_def Let_def)

lemma unsigned_quiet:
  "\<not> github_signed cf rq \<Longrightarrow> oc_sent (github_webhook cf w sv rq) = [] \<and> oc_store (github_webhook cf w sv rq) = sv_store sv"
  "\<not> gitlab_signed cf rq \<Longrightarrow> oc_sent (gitlab_webhook cf w sv rq) = [] \<and> oc_store (gitlab_webhook cf w sv rq) = sv_store sv"
  by (auto simp: github_webhook_def github_signed_def gitlab_webhook_def gitlab_signed_def Let_def split: option.splits)

text \<open>The delivery of a code host: its path, its method and its secret.\<close>

definition signed_delivery :: "config \<Rightarrow> request \<Rightarrow> bool" where
  "signed_delivery cf rq \<longleftrightarrow> rq_method rq = ''POST'' \<and>
     (rq_path rq = ''/api/sync/webhook/github'' \<and> github_signed cf rq \<or> rq_path rq = ''/api/sync/webhook/gitlab'' \<and> gitlab_signed cf rq)"

lemma guarded_quiet:
  assumes "\<not> mirror_fresh cf w \<or> identity_of cf w rq = None"
  shows "oc_sent (guarded cf w sv rq) = [] \<and> oc_store (guarded cf w sv rq) = sv_store sv"
proof (cases "mirror_fresh cf w")
  case True
  then have i: "identity_of cf w rq = None" using assms by blast
  have "(t, q) \<notin> set (oc_sent (guarded cf w sv rq))" for t q
    using guarded_sent [of t q cf w sv rq] anonymous_endpoints(3) [of cf w sv rq] anonymous_endpoints(13) [of w sv rq]
    by (auto simp: i refused_def)
  then have "oc_sent (guarded cf w sv rq) = []" by (metis list.set_intros(1) neq_Nil_conv surj_pair)
  moreover have "oc_store (guarded cf w sv rq) = oc_store (serve cf w sv rq None)" using True by (simp add: guarded_def i)
  moreover have "oc_store (serve cf w sv rq None) = sv_store sv" using serve_store [of cf w sv rq None] by (auto simp: admin_change_def)
  ultimately show ?thesis by simp
qed (simp add: guarded_def)

lemma dispatch_quiet:
  assumes "\<not> mirror_fresh cf w \<or> identity_of cf w rq = None" and "\<not> signed_delivery cf rq"
  shows "oc_sent (dispatch cf w sv rq) = [] \<and> oc_store (dispatch cf w sv rq) = sv_store sv"
proof (cases "webhook_call rq")
  case True
  then show ?thesis using assms(2) unsigned_quiet [of cf rq w sv]
    by (auto simp: dispatch_def webhook_call_def signed_delivery_def Let_def)
next
  case no: False
  show ?thesis
  proof (cases "open_call rq")
    case True
    then show ?thesis using no unfolding open_call_def by (auto simp: dispatch_def Let_def)
  next
    case False
    then show ?thesis using guarded_quiet [OF assms(1), of sv] by (simp add: dispatch_guarded)
  qed
qed

lemma handle_refused:
  assumes "handle cf w sv = (ans, sent, sv')" and "read_request (wo_clean w) (wo_stream w) = Inr (Some rq)"
    and "refused (dispatch cf w sv rq) answer sv"
  shows "ans = Answer (if fst (check_and_consume (wo_instant w) (wo_ip w) 1 (sv_limiter sv)) then answer else too_many_requests)"
  using assms handle_admitted(1) [OF _ assms(2), of sv cf]
  by (cases "check_and_consume (wo_instant w) (wo_ip w) 1 (sv_limiter sv)") (auto simp: refused_def handle_def)

lemma mirror_unseen:
  "evidence_for (cf\<lparr>cf_sync_max_age := age\<rparr>) = evidence_for cf" "cf_sync (cf\<lparr>cf_sync_max_age := age\<rparr>) = cf_sync cf"
  by (simp_all add: fun_eq_iff evidence_for_def)

lemma mirror_unseen_review:
  "provider_workspace_review (cf\<lparr>cf_sync_max_age := age\<rparr>) = provider_workspace_review cf"
  unfolding fun_eq_iff provider_workspace_review_def mirror_unseen by blast

lemma mirror_unseen_webhook_review:
  "webhook_review (cf\<lparr>cf_sync_max_age := age\<rparr>) = webhook_review cf"
  unfolding fun_eq_iff webhook_review_def mirror_unseen mirror_unseen_review by blast

lemma mirror_unseen_webhooks:
  "github_webhook (cf\<lparr>cf_sync_max_age := age\<rparr>) w sv rq = github_webhook cf w sv rq"
  "gitlab_webhook (cf\<lparr>cf_sync_max_age := age\<rparr>) w sv rq = gitlab_webhook cf w sv rq"
  unfolding github_webhook_def github_review_def gitlab_webhook_def gitlab_review_def mirror_unseen mirror_unseen_webhook_review by (rule refl)+

lemma webhook_dispatch_mirror:
  assumes "webhook_call rq"
  shows "dispatch (cf\<lparr>cf_sync_max_age := age\<rparr>) w sv rq = dispatch cf w sv rq"
  using assms by (auto simp: dispatch_def webhook_call_def Let_def mirror_unseen_webhooks)

text \<open>
  C31. A call without an identity, or under a stale permission mirror, does nothing, whatever its path, method and body, unless it
  is a delivery signed by a configured code host: no tree is contacted and neither the policy nor the
  proposals change. The refusal is the same for all of them: first 429 for an address that has used up its requests, then 403 for a foreign origin, then 503 while the
  mirror is stale, then 401; only the probes, preflights and webhooks are answered before the mirror and
  the identity are looked at, and the console's own pages before the identity. A webhook
  is answered alike whatever the age of the mirror: a signed delivery contacts trees and changes the policy
  under a stale one too.
\<close>

theorem refusals_are_uniform:
  assumes "handle cf w sv = (ans, sent, sv')" and "read_request (wo_clean w) (wo_stream w) = Inr (Some rq)"
    and "\<not> mirror_fresh cf w \<or> identity_of cf w rq = None"
  shows "(sent \<noteq> [] \<or> sv_store sv' \<noteq> sv_store sv \<longrightarrow> signed_delivery cf rq) \<and>
    (\<not> open_call rq \<and> \<not> (mirror_fresh cf w \<and> console_call rq) \<longrightarrow>
       ans = Answer (if \<not> fst (check_and_consume (wo_instant w) (wo_ip w) 1 (sv_limiter sv)) then too_many_requests
         else if \<not> origin_allowed (header rq ''origin'') (cf_allowed_origin cf) then respond ''403 Forbidden'' ''origin not allowed''
         else if \<not> mirror_fresh cf w then respond ''503 Service Unavailable'' ''permission mirror is stale''
         else unauthorized)) \<and>
    (webhook_call rq \<longrightarrow> (\<forall>age. handle (cf\<lparr>cf_sync_max_age := age\<rparr>) w sv = (ans, sent, sv')))"
proof (intro conjI impI allI)
  show "signed_delivery cf rq" if "sent \<noteq> [] \<or> sv_store sv' \<noteq> sv_store sv"
    using assms(1)
  proof (cases rule: handle_cases)
    case quiet
    then show ?thesis using that by blast
  next
    case (served rq')
    then have "rq' = rq" using assms(2) by simp
    then show ?thesis using dispatch_quiet [OF assms(3), of sv] that served(3,4) by auto
  qed
next
  assume c: "\<not> open_call rq \<and> \<not> (mirror_fresh cf w \<and> console_call rq)"
  let ?o = "origin_allowed (header rq ''origin'') (cf_allowed_origin cf)"
  have "refused (guarded cf w sv rq) (if mirror_fresh cf w then unauthorized
      else respond ''503 Service Unavailable'' ''permission mirror is stale'') sv"
    using c assms(3) guarded_refused [of rq cf w sv] by (cases "mirror_fresh cf w") (auto simp: guarded_def)
  then have "refused (dispatch cf w sv rq) (if \<not> ?o then respond ''403 Forbidden'' ''origin not allowed''
      else if \<not> mirror_fresh cf w then respond ''503 Service Unavailable'' ''permission mirror is stale'' else unauthorized) sv"
    using c by (cases ?o; cases "mirror_fresh cf w") (simp_all add: dispatch_guarded)
  from handle_refused [OF assms(1,2) this] show "ans = Answer (if \<not> fst (check_and_consume (wo_instant w) (wo_ip w) 1 (sv_limiter sv)) then too_many_requests
         else if \<not> ?o then respond ''403 Forbidden'' ''origin not allowed''
         else if \<not> mirror_fresh cf w then respond ''503 Service Unavailable'' ''permission mirror is stale''
         else unauthorized)" by simp
next
  fix age
  assume "webhook_call rq"
  then have "handle (cf\<lparr>cf_sync_max_age := age\<rparr>) w sv = handle cf w sv"
    unfolding handle_def assms(2) by (simp only: sum.case option.case webhook_dispatch_mirror)
  then show "handle (cf\<lparr>cf_sync_max_age := age\<rparr>) w sv = (ans, sent, sv')" using assms(1) by simp
qed

theorem refusals_are_uniform_witness:
  "fst (handle sample_config ((sample_world sample_stream)\<lparr>wo_keys := []\<rparr>) sample_server) = Answer unauthorized \<and>
   fst (snd (handle sample_config ((sample_world sample_stream)\<lparr>wo_keys := []\<rparr>) sample_server)) = []"
proof -
  let ?w = "(sample_world sample_stream)\<lparr>wo_keys := []\<rparr>"
  have a: "fst (check_and_consume (wo_instant ?w) (wo_ip ?w) 1 (sv_limiter sample_server))"
    using sample_admitted by (simp add: sample_world_def sample_server_def)
  have r: "read_request (wo_clean ?w) (wo_stream ?w) = Inr (Some sample_request)" using sample_read by (simp add: sample_world_def)
  have o: "\<not> open_call sample_request" "origin_allowed (header sample_request ''origin'') (cf_allowed_origin sample_config)"
    "\<not> console_call sample_request" "\<not> signed_delivery sample_config sample_request" by code_simp+
  have i: "identity_of sample_config ?w sample_request = None" unfolding sample_world_def by code_simp
  have m: "mirror_fresh sample_config ?w" by (simp add: mirror_fresh_def sample_config_def)
  obtain ans sent sv' where h: "handle sample_config ?w sample_server = (ans, sent, sv')" by (cases "handle sample_config ?w sample_server")
  show ?thesis using refusals_are_uniform [OF h r] i a o m h by simp
qed

end
