(* ===== verification/Server_Audit.thy ===== *)
theory Server_Audit
  imports Server_Safety
begin

text \<open>
  What the audit log knows of what \<open>handle\<close> does: every contact with a tree and every change of the
  policy or the proposals against the record the request hands to the writer.
\<close>

text \<open>The record of a request by an identified caller.\<close>

definition names_caller :: "('k, 'doc) surround \<Rightarrow> request \<Rightarrow> identity \<Rightarrow> audit_record \<Rightarrow> bool" where
  "names_caller w rq x r \<longleftrightarrow> a_who r = Some (id_subject x) \<and> a_ts r = wo_now w \<and> a_method r = rq_method rq \<and>
     a_path r = rq_path rq \<and> a_client_addr r = wo_addr w"

definition idle :: "'doc server \<Rightarrow> 'doc outcome \<Rightarrow> bool" where
  "idle sv oc \<longleftrightarrow> oc_sent oc = [] \<and> oc_store oc = sv_store sv"

definition review_call :: "request \<Rightarrow> bool" where
  "review_call rq \<longleftrightarrow> rq_path rq = ''/api/review/impact'' \<and> rq_method rq = ''POST''"

definition logged :: "('k, 'doc) surround \<Rightarrow> request \<Rightarrow> identity option \<Rightarrow> 'doc server \<Rightarrow> 'doc outcome \<Rightarrow> bool" where
  "logged w rq i sv oc \<longleftrightarrow> idle sv oc \<or> review_call rq \<and> oc_answer oc = Panicked \<and> oc_audit oc = None \<and> oc_store oc = sv_store sv \<or>
     (\<exists>x r. i = Some x \<and> oc_audit oc = Some r \<and> names_caller w rq x r \<and>
        (oc_sent oc = [] \<or> review_call rq \<or> (\<exists>t. oc_sent oc = [(t, rq)] \<and> a_tree r = Some (t_name t))))"

lemma audit_of_names: "i = Some x \<Longrightarrow> names_caller w rq x (audit_of w rq (who_of i) tr status bytes)"
  by (simp add: names_caller_def audit_of_def who_of_def)

lemma audited_audit: "oc_audit (audited w sv rq who reply) = Some (audit_of w rq who None (fst reply) (fst (snd reply)))"
  by (cases reply) (simp add: audited_def)

lemma idle_logged [simp]: "idle sv oc \<Longrightarrow> logged w rq i sv oc"
  by (simp add: logged_def)

lemma plain_idle [simp]: "idle sv (plain sv answer)"
  by (simp add: idle_def)

lemma quiet_idle [simp]:
  "idle sv (health cf w sv rq)" "idle sv (ready_endpoint cf w sv)" "idle sv (metrics cf w sv)"
  "idle sv (session w sv rq i)" "idle sv (proposals_endpoint w sv rq i)" "idle sv (workspaces w sv rq i)"
  "idle sv (access_review_endpoint w sv rq i)" "idle sv (audit_timeline w sv rq i)" "idle sv (read_endpoint w sv rq i pid)"
  "idle sv (sync_status cf w sv rq i)" "idle sv (evidence_endpoint cf w sv rq i)" "idle sv (trees_endpoint w sv rq i)"
  by (simp_all add: idle_def)

lemma policy_reply_audit:
  "\<exists>status bytes. oc_audit (policy_reply w sv rq i good rejected bs result) = Some (audit_of w rq (who_of i) None status bytes)"
  by (cases result) (auto simp: policy_reply_def audited_audit)

lemma policy_logged:
  assumes "oc_audit oc = Some (audit_of w rq (who_of i) None status bytes)" and "i = None \<Longrightarrow> idle sv oc" and "oc_sent oc = []"
  shows "logged w rq i sv oc"
proof (cases i)
  case (Some x)
  have "names_caller w rq x (audit_of w rq (who_of i) None status bytes)" using Some by (rule audit_of_names)
  then show ?thesis using Some assms(1,3) by (auto simp: logged_def)
qed (use assms(2) in simp)

lemma propose_logged [simp]: "logged w rq i sv (propose w sv rq i)"
proof -
  obtain s b where "oc_audit (propose w sv rq i) = Some (audit_of w rq (who_of i) None s b)"
    using policy_reply_audit unfolding propose_def by blast
  then show ?thesis by (rule policy_logged) (simp_all add: idle_def propose_def propose_status_def)
qed

lemma approve_logged [simp]: "logged w rq i sv (approve_endpoint w sv rq i pid)"
proof -
  obtain s b where "oc_audit (approve_endpoint w sv rq i pid) = Some (audit_of w rq (who_of i) None s b)"
    using policy_reply_audit unfolding approve_endpoint_def by blast
  then show ?thesis by (rule policy_logged) (simp_all add: idle_def approve_endpoint_def approve_status_def)
qed

lemma review_workspace_logged:
  assumes "review_call rq"
  shows "logged w rq (Some x) sv (review_workspace cf w sv rq x name trees revision depth)"
proof (cases "detect_changes w (wo_rights w) (JObj [(''rev'', JStr revision), (''depth'', JNum (int depth))]) trees")
  case (Pair found sent)
  show ?thesis
  proof (cases found)
    case None
    then show ?thesis using assms by (simp add: Pair logged_def review_workspace_def plain_def)
  next
    case (Some cr)
    obtain changed results where c: "cr = (changed, results)" by (cases cr)
    have "names_caller w rq x (audit_of w rq (Some (id_subject x)) None s b)" for s b
      by (simp add: names_caller_def audit_of_def)
    then show ?thesis using assms unfolding logged_def review_workspace_def Pair Some c
      by (simp add: audited_audit split: prod.split)
  qed
qed

lemma impact_logged [simp]: "review_call rq \<Longrightarrow> logged w rq i sv (impact cf w sv rq i)"
proof (cases i)
  case None
  then show ?thesis by (simp add: impact_def idle_def)
next
  case (Some x)
  assume "review_call rq"
  then show ?thesis using Some by (simp add: impact_def Let_def review_workspace_logged split: option.split prod.split)
qed

lemma mcp_logged [simp]: "logged w rq i sv (mcp w sv rq i)"
proof (cases "snd (mcp_reply w rq i) = []")
  case True
  then show ?thesis by (auto simp: idle_def mcp_def split: prod.split)
next
  case False
  then obtain t where t: "snd (mcp_reply w rq i) = [(t, rq)]"
    by (auto simp: mcp_reply_def split: Proxy.route.splits if_splits)
  then have s: "oc_sent (mcp w sv rq i) = [(t, rq)]" by (auto simp: mcp_def split: prod.split)
  obtain x where x: "i = Some x" "tree_of (rq_path rq) = Some (t_name t)" using mcp_sent [of t rq w sv rq i] s by auto
  obtain status bytes answer sent where m: "mcp_reply w rq i = ((status, bytes, answer), sent)" by (metis prod.exhaust)
  then have "oc_audit (mcp w sv rq i) = Some (audit_of w rq (who_of i) (tree_of (rq_path rq)) status bytes)" by (simp add: mcp_def)
  moreover have "names_caller w rq x (audit_of w rq (who_of i) (tree_of (rq_path rq)) status bytes)" using x(1) by (rule audit_of_names)
  moreover have "a_tree (audit_of w rq (who_of i) (tree_of (rq_path rq)) status bytes) = Some (t_name t)" using x(2) by (simp add: audit_of_def)
  ultimately show ?thesis using x(1) s unfolding logged_def by blast
qed

lemma serve_cases:
  assumes "\<And>answer. P (plain sv answer)" and "rq_path rq = ''/api/review/impact'' \<and> rq_method rq = ''POST'' \<Longrightarrow> P (impact cf w sv rq i)"
    and "P (session w sv rq i)" and "P (proposals_endpoint w sv rq i)" and "P (workspaces w sv rq i)" and "P (access_review_endpoint w sv rq i)"
    and "P (audit_timeline w sv rq i)" and "\<And>pid. P (read_endpoint w sv rq i pid)" and "P (sync_status cf w sv rq i)"
    and "P (evidence_endpoint cf w sv rq i)" and "P (trees_endpoint w sv rq i)"
    and "P (propose w sv rq i)" and "\<And>pid. P (approve_endpoint w sv rq i pid)" and "P (mcp w sv rq i)"
  shows "P (serve cf w sv rq i)"
proof -
  have b: "P (if c then a else b)" if "c \<Longrightarrow> P a" "P b" for c a b using that by simp
  show ?thesis unfolding serve_def Let_def by (intro b) (fact assms | rule assms; assumption)+
qed

lemma serve_logged: "logged w rq i sv (serve cf w sv rq i)"
  by (rule serve_cases) (simp_all add: review_call_def)

lemma penalty_logged [simp]: "logged w rq i sv (oc\<lparr>oc_penalty := p\<rparr>) = logged w rq i sv oc"
  by (simp add: logged_def idle_def)

lemma guarded_logged: "logged w rq (identity_of cf w rq) sv (guarded cf w sv rq)"
  by (simp add: guarded_def Let_def serve_logged)

lemma webhook_unaudited [simp]: "oc_audit (github_webhook cf w sv rq) = None" "oc_audit (gitlab_webhook cf w sv rq) = None"
  by (simp_all add: github_webhook_def gitlab_webhook_def github_review_def gitlab_review_def apply_webhook_def review_reply_def plain_def Let_def
      split: option.split sum.split prod.split)

lemma webhook_signed:
  "idle sv (github_webhook cf w sv rq) \<or> github_signed cf rq" "idle sv (gitlab_webhook cf w sv rq) \<or> gitlab_signed cf rq"
  by (auto simp: github_webhook_def gitlab_webhook_def github_signed_def gitlab_signed_def split: option.splits)

definition accounted :: "config \<Rightarrow> ('k, 'doc) surround \<Rightarrow> request \<Rightarrow> 'doc server \<Rightarrow> 'doc outcome \<Rightarrow> bool" where
  "accounted cf w rq sv oc \<longleftrightarrow> logged w rq (identity_of cf w rq) sv oc \<or>
     webhook_call rq \<and> (github_signed cf rq \<or> gitlab_signed cf rq) \<and> oc_audit oc = None"

lemma webhook_accounted:
  "rq_method rq = ''POST'' \<Longrightarrow> rq_path rq = ''/api/sync/webhook/github'' \<Longrightarrow> accounted cf w rq sv (github_webhook cf w sv rq)"
  "rq_method rq = ''POST'' \<Longrightarrow> rq_path rq = ''/api/sync/webhook/gitlab'' \<Longrightarrow> accounted cf w rq sv (gitlab_webhook cf w sv rq)"
  using webhook_signed [of sv cf w rq] by (auto simp: accounted_def webhook_call_def)

lemma logged_accounted: "logged w rq (identity_of cf w rq) sv oc \<Longrightarrow> accounted cf w rq sv oc"
  by (simp add: accounted_def)

lemma dispatch_accounted: "accounted cf w rq sv (dispatch cf w sv rq)"
  unfolding dispatch_def Let_def
  by (simp add: webhook_accounted logged_accounted guarded_logged split: if_split)

lemma handle_audit:
  assumes "handle cf w sv = (ans, sent, sv')"
  obtains (quiet) "sent = []" and "sv_store sv' = sv_store sv"
  | (served) rq where "read_request (wo_clean w) (wo_stream w) = Inr (Some rq)" and "ans = oc_answer (dispatch cf w sv rq)"
    and "sent = oc_sent (dispatch cf w sv rq)" and "sv_store sv' = oc_store (dispatch cf w sv rq)"
    and "sv_audit sv' = (case (sv_audit sv, oc_audit (dispatch cf w sv rq)) of (Some q, Some r) \<Rightarrow> Some (record_event r q) | (q, _) \<Rightarrow> q)"
  using assms by (auto simp: handle_def settle_def Let_def split: prod.splits bool.splits sum.splits option.splits)

text \<open>
  C32. Whoever reaches a tree or changes the policy is queued for the log, code hosts excepted. With the log on, a request
  after which a tree was contacted, or the rights file or a proposal was changed, has exactly one record, which
  names the identified caller, the time, the method, the path and the address, and, for a call passed on, the tree. It is
  put at the end of the writer's queue, behind everything that waits there, if fewer than 2048 records do; if the queue is full, nothing is queued, one more record is counted as
  dropped, and who did what is lost. There are two
  further exceptions. A signed delivery of a code host, though it may change the policy or send a review to a
  whole workspace, leaves no record. And a review in which the connection's thread panics, over a workspace with a tree that is
  not served, leaves none of the calls it made.
\<close>

theorem activity_is_logged:
  assumes "handle cf w sv = (ans, sent, sv')" and "sv_audit sv = Some q" and "sent \<noteq> [] \<or> sv_store sv' \<noteq> sv_store sv"
  shows "\<exists>rq. read_request (wo_clean w) (wo_stream w) = Inr (Some rq) \<and>
    ((\<exists>x r. identity_of cf w rq = Some x \<and> names_caller w rq x r \<and>
        sv_audit sv' = Some (if length (q_queue q) < 2048 then q\<lparr>q_queue := q_queue q @ [r]\<rparr> else q\<lparr>q_dropped := q_dropped q + 1\<rparr>) \<and>
        (sent = [] \<or> review_call rq \<or> (\<exists>t. sent = [(t, rq)] \<and> a_tree r = Some (t_name t)))) \<or>
     review_call rq \<and> ans = Panicked \<and> sv_audit sv' = Some q \<and> sv_store sv' = sv_store sv \<or>
     webhook_call rq \<and> (github_signed cf rq \<or> gitlab_signed cf rq) \<and> sv_audit sv' = Some q)"
  using assms(1)
proof (cases rule: handle_audit)
  case (served rq)
  have "\<not> idle sv (dispatch cf w sv rq)" using assms(3) served(3,4) by (auto simp: idle_def)
  with dispatch_accounted [of cf w rq sv] consider (logged) x :: identity and r :: audit_record where "identity_of cf w rq = Some x" "oc_audit (dispatch cf w sv rq) = Some r"
      "names_caller w rq x r"
      "oc_sent (dispatch cf w sv rq) = [] \<or> review_call rq \<or> (\<exists>t. oc_sent (dispatch cf w sv rq) = [(t, rq)] \<and> a_tree r = Some (t_name t))"
    | (panicked) "review_call rq" "oc_answer (dispatch cf w sv rq) = Panicked" "oc_audit (dispatch cf w sv rq) = None" "oc_store (dispatch cf w sv rq) = sv_store sv"
    | (webhook) "webhook_call rq" "github_signed cf rq \<or> gitlab_signed cf rq" "oc_audit (dispatch cf w sv rq) = None"
    unfolding accounted_def logged_def by (elim disjE exE conjE) blast+
  then show ?thesis
  proof cases
    case logged
    then have "sv_audit sv' = Some (if length (q_queue q) < 2048 then q\<lparr>q_queue := q_queue q @ [r]\<rparr> else q\<lparr>q_dropped := q_dropped q + 1\<rparr>)"
      using served(5) assms(2) by (simp add: record_event_def queue_capacity_def)
    then show ?thesis using served(1,3) logged by blast
  next
    case panicked
    then show ?thesis using served(1,2,4,5) assms(2) by (intro exI [of _ rq]) simp
  next
    case webhook
    then have "sv_audit sv' = Some q" using served(5) assms(2) by simp
    then show ?thesis using served(1) webhook by blast
  qed
qed (use assms(3) in simp)

theorem activity_is_logged_witness:
  "\<exists>sv' q' r. snd (snd (handle sample_config (sample_world sample_stream)
       (sample_server\<lparr>sv_audit := Some \<lparr>q_queue = [], q_dropped = 0, q_missed = 0, q_remote_failed = 0\<rparr>\<rparr>))) = sv' \<and>
     sv_audit sv' = Some q' \<and> q_queue q' = [r] \<and> a_who r = Some ''anna'' \<and> a_tree r = Some ''alpha''"
proof -
  let ?w = "sample_world sample_stream" and ?q = "\<lparr>q_queue = [], q_dropped = 0, q_missed = 0, q_remote_failed = 0\<rparr>"
  let ?sv = "sample_server\<lparr>sv_audit := Some ?q\<rparr>"
  obtain ans sent sv' where h: "handle sample_config ?w ?sv = (ans, sent, sv')" by (cases "handle sample_config ?w ?sv")
  have "sv_limiter ?sv = new_limiter 200 400" by (simp add: sample_server_def)
  from sample_sent_from [OF this] h have s: "sent = [(\<lparr>t_name = ''alpha'', t_addr = ''h:1'', t_token = ''ours''\<rparr>, sample_request)]" by simp
  have r: "read_request (wo_clean ?w) (wo_stream ?w) = Inr (Some sample_request)" using sample_read by (simp add: sample_world_def)
  have c: "\<not> webhook_call sample_request" "\<not> review_call sample_request"
    by (simp_all add: webhook_call_def review_call_def sample_request_def)
  have "sv_audit ?sv = Some ?q" "sent \<noteq> [] \<or> sv_store sv' \<noteq> sv_store ?sv" using s by simp_all
  from activity_is_logged [OF h this] r obtain x :: identity and r :: audit_record where x: "identity_of sample_config ?w sample_request = Some x"
      "names_caller ?w sample_request x r" and q: "sv_audit sv' = Some (?q\<lparr>q_queue := [r]\<rparr>)"
      and "sent = [] \<or> (\<exists>t. sent = [(t, sample_request)] \<and> a_tree r = Some (t_name t))"
    using c by auto
  then have "a_tree r = Some ''alpha''" using s by auto
  moreover have "a_who r = Some ''anna''" using x sample_identity [of sample_stream] by (auto simp: names_caller_def)
  ultimately show ?thesis using q h by simp
qed

end
