(* ===== verification/Server_Run.thy ===== *)
theory Server_Run
  imports Server_Safety
begin

text \<open>
  The server over time: a run is a sequence of requests through \<open>handle\<close>, between which an
  operator or a reconciliation may write the rights file. Every step of a run is a sequence of steps
  of the proposal store (\<open>Policy\<close>), so its invariant holds of every run, and the authors the
  proposals name are the administrators the server identified when they were made.
\<close>

inductive server_run :: "config \<Rightarrow> 'doc codec \<Rightarrow> (('k, 'doc) surround \<times> 'doc server \<times> 'doc server) list \<Rightarrow> 'doc server \<Rightarrow> bool" for cf c where
  Boot: "ps_dir (sv_store sv) = [] \<Longrightarrow> server_run cf c [] sv"
| Serve: "\<lbrakk>server_run cf c h sv; handle cf w sv = (ans, sent, sv'); wo_codec w = c; torn_ok c (wo_write w)\<rbrakk> \<Longrightarrow>
    server_run cf c ((w, sv, sv') # h) sv'"
| Edit: "server_run cf c h sv \<Longrightarrow> server_run cf c h (sv\<lparr>sv_store := (sv_store sv)\<lparr>ps_active := f\<rparr>\<rparr>)"

text \<open>A proposal made by a request of the run, by an administrator of its scope.\<close>

definition made_by :: "config \<Rightarrow> ('k, 'doc) surround \<Rightarrow> 'doc server \<Rightarrow> 'doc server \<Rightarrow> creation \<Rightarrow> bool" where
  "made_by cf w sv sv' cn \<longleftrightarrow> (\<exists>rq x. read_request (wo_clean w) (wo_stream w) = Inr (Some rq) \<and>
     identity_of cf w rq = Some x \<and> id_subject x = cr_author cn \<and> mirror_fresh cf w \<and>
     admin_scope_of (wo_rights w) (id_subject x) (id_groups x) = Some (cr_scope cn) \<and>
     ps_active (sv_store sv) = Some (cr_base cn) \<and>
     (Inr (), sv_store sv') =
       create (wo_codec w) (wo_write w) (wo_now w) (cr_pid cn) (cr_author cn) (cr_submitted cn) (cr_scope cn) (sv_store sv))"

definition made_in :: "config \<Rightarrow> (('k, 'doc) surround \<times> 'doc server \<times> 'doc server) list \<Rightarrow> creation set" where
  "made_in cf h = {cn. \<exists>(w, sv, sv')\<in>set h. made_by cf w sv sv' cn}"

definition at_rest :: "'doc pstore \<Rightarrow> creation list \<Rightarrow> 'doc world" where
  "at_rest st crs = \<lparr>w_store = st, w_created = crs, w_decided = []\<rparr>"

lemma admin_scope_finite: "admin_scope_of r u gs = Some (Trees T) \<Longrightarrow> finite T"
  by (auto simp: admin_scope_of_def Let_def split: if_splits)

lemma create_active: "create c w now pid author submitted scope st = (r, st') \<Longrightarrow> ps_active st' = ps_active st"
  by (auto simp: create_def split: option.splits sum.splits if_splits dest: put_file_active)

lemma create_changes:
  assumes "create c w now pid author submitted scope st = (r, st')" and "st' \<noteq> st"
  obtains base rights where "ps_active st = Some base" and "proposed_rights base submitted scope = Inr rights"
  using assms by (auto simp: create_def split: option.splits sum.splits)

lemma made_in_Cons: "made_in cf (e # h) = {cn. case e of (w, sv, sv') \<Rightarrow> made_by cf w sv sv' cn} \<union> made_in cf h"
  by (auto simp: made_in_def)

text \<open>A change by an administrator, as steps of the proposal store.\<close>

lemma proposed_steps:
  assumes "proposed_by w x scope st st'" and "st' \<noteq> st" and "policy_reachable (wo_codec w) (at_rest st crs)"
    and "torn_ok (wo_codec w) (wo_write w)" and "\<forall>T. scope = Trees T \<longrightarrow> finite T"
  obtains cn where "policy_reachable (wo_codec w) (at_rest st' (cn # crs))" and "cr_author cn = id_subject x" and "cr_scope cn = scope"
    and "ps_active st = Some (cr_base cn)"
    and "create (wo_codec w) (wo_write w) (wo_now w) (cr_pid cn) (id_subject x) (cr_submitted cn) scope st = (Inr (), st')"
  | "policy_reachable (wo_codec w) (at_rest st' crs)"
proof -
  obtain pid submitted r where c: "create (wo_codec w) (wo_write w) (wo_now w) pid (id_subject x) submitted scope st = (r, st')"
    using assms(1) unfolding proposed_by_def by (metis prod.collapse)
  obtain base rights where b: "ps_active st = Some base" "proposed_rights base submitted scope = Inr rights"
    using create_changes [OF c assms(2)] by blast
  let ?cn = "\<lparr>cr_pid = pid, cr_author = id_subject x, cr_submitted = submitted, cr_base = base, cr_scope = scope, cr_rights = rights\<rparr>"
  have "policy_step (wo_codec w) (at_rest st crs) (at_rest st' (if r = Inr () then ?cn # crs else crs))"
    using policy_step.Create [of "wo_codec w" "wo_write w" "wo_now w" pid "id_subject x" submitted scope "at_rest st crs" r st' base rights]
      c b assms(4,5) by (simp add: at_rest_def cong: if_cong)
  then have s: "policy_reachable (wo_codec w) (at_rest st' (if r = Inr () then ?cn # crs else crs))"
    using assms(3) policy_reachable.Step by blast
  show ?thesis
  proof (cases "r = Inr ()")
    case True
    then show ?thesis using s c b that(1) [of ?cn] by simp
  next
    case False
    then show ?thesis using s that(2) by simp
  qed
qed

lemma approved_steps:
  assumes "approved_by w x scope st st'" and "policy_reachable (wo_codec w) (at_rest st crs)" and "torn_ok (wo_codec w) (wo_write w)"
  shows "policy_reachable (wo_codec w) (at_rest st' crs)"
proof -
  obtain pid decided where d: "approve_check (wo_codec w) pid (id_subject x) scope st = Inr decided"
      "st' = snd (approve_commit (wo_codec w) True (wo_write w) (wo_now w) pid (id_subject x) decided st)"
    using assms(1) unfolding approved_by_def by blast
  let ?d = "\<lparr>de_pid = pid, de_approver = id_subject x, de_scope = scope, de_decided = decided\<rparr>"
  let ?mid = "(at_rest st crs)\<lparr>w_decided := [?d]\<rparr>"
  have "policy_step (wo_codec w) (at_rest st crs) ?mid"
    using policy_step.Decide [of "wo_codec w" pid "id_subject x" scope "at_rest st crs" decided] d(1) by (simp add: at_rest_def)
  then have m: "policy_reachable (wo_codec w) ?mid" using assms(2) policy_reachable.Step by blast
  obtain r where r: "approve_commit (wo_codec w) True (wo_write w) (wo_now w) pid (id_subject x) decided st = (r, st')"
    using d(2) by (metis prod.collapse)
  have "policy_step (wo_codec w) ?mid (at_rest st' crs)"
    using policy_step.Commit [of ?d ?mid "wo_codec w" True "wo_write w" "wo_now w" r st'] r assms(3) by (simp add: at_rest_def)
  then show ?thesis using m policy_reachable.Step by blast
qed

lemma create_ps_active: "st' = snd (create c w now pid author submitted scope st) \<Longrightarrow> ps_active st' = ps_active st"
  using create_active by (metis prod.collapse)

lemma approve_commit_active: "ps_active (snd (approve_commit c True w now pid approver (v, rights) st)) = Some rights"
  by (simp add: approve_commit_def put_file_active [OF surjective_pairing])

lemma request_traced:
  assumes "policy_reachable (wo_codec w) (at_rest (sv_store sv) crs)" and "set crs \<subseteq> made_in cf h"
    and "handle cf w sv = (ans, sent, sv')" and "torn_ok (wo_codec w) (wo_write w)"
  shows "\<exists>crs'. set crs' \<subseteq> made_in cf ((w, sv, sv') # h) \<and> policy_reachable (wo_codec w) (at_rest (sv_store sv') crs')"
proof (cases "sv_store sv' = sv_store sv")
  case True
  then show ?thesis using assms(1,2) by (intro exI [of _ crs]) (auto simp: made_in_Cons)
next
  case changed: False
  from assms(3) show ?thesis
  proof (cases rule: handle_cases)
    case quiet
    then show ?thesis using changed by simp
  next
    case (served rq)
    then have "request_change cf w rq (sv_store sv) (sv_store sv')" using dispatch_store [of cf w sv rq] changed by simp
    then consider (host) out where "sv_store sv' = (sv_store sv)\<lparr>ps_active := Some out\<rparr>"
      | (admin) x scope where "mirror_fresh cf w" "identity_of cf w rq = Some x"
          "admin_scope_of (wo_rights w) (id_subject x) (id_groups x) = Some scope"
          "proposed_by w x scope (sv_store sv) (sv_store sv') \<or> approved_by w x scope (sv_store sv) (sv_store sv')"
      unfolding request_change_def host_change_def admin_change_def by blast
    then show ?thesis
    proof cases
      case host
      have "policy_step (wo_codec w) (at_rest (sv_store sv) crs) (at_rest (sv_store sv') crs)"
        using policy_step.Edit [of "wo_codec w" "at_rest (sv_store sv) crs" "Some out"] by (simp add: at_rest_def host)
      then show ?thesis using assms(1,2) policy_reachable.Step by (intro exI [of _ crs]) (auto simp: made_in_Cons)
    next
      case admin
      have fin: "\<forall>T. scope = Trees T \<longrightarrow> finite T" using admin(3) admin_scope_finite by blast
      from admin(4) show ?thesis
      proof
        assume "approved_by w x scope (sv_store sv) (sv_store sv')"
        from approved_steps [OF this assms(1,4)] show ?thesis using assms(2) by (intro exI [of _ crs]) (auto simp: made_in_Cons)
      next
        assume p: "proposed_by w x scope (sv_store sv) (sv_store sv')"
        from p changed assms(1,4) fin show ?thesis
        proof (cases rule: proposed_steps)
          case (1 cn)
          then have "made_by cf w sv sv' cn" unfolding made_by_def using served(1) admin(1-3) by auto
          then show ?thesis using 1(1) assms(2) by (intro exI [of _ "cn # crs"]) (auto simp: made_in_Cons)
        next
          case 2
          then show ?thesis using assms(2) by (intro exI [of _ crs]) (auto simp: made_in_Cons)
        qed
      qed
    qed
  qed
qed

lemma run_traced:
  "server_run cf c h sv \<Longrightarrow> \<exists>crs. set crs \<subseteq> made_in cf h \<and> policy_reachable c (at_rest (sv_store sv) crs)"
proof (induction rule: server_run.induct)
  case (Boot sv)
  obtain f where "sv_store sv = \<lparr>ps_active = f, ps_dir = []\<rparr>" using Boot by (cases "sv_store sv") simp
  then show ?case using policy_reachable.Init [of c f] by (intro exI [of _ "[]"]) (simp add: at_rest_def)
next
  case (Serve h sv w ans sent sv')
  then show ?case using request_traced [of w sv _ cf h ans sent sv'] by blast
next
  case (Edit h sv f)
  then obtain crs where "set crs \<subseteq> made_in cf h" "policy_reachable c (at_rest (sv_store sv) crs)" by blast
  moreover have "policy_step c (at_rest (sv_store sv) crs) (at_rest ((sv_store sv)\<lparr>ps_active := f\<rparr>) crs)"
    using policy_step.Edit [of c "at_rest (sv_store sv) crs" f] by (simp add: at_rest_def)
  ultimately show ?case using policy_reachable.Step by (intro exI [of _ crs]) auto
qed

text \<open>
  C33. Over a whole run, a request changes the policy in force only with two pairs of eyes behind it,
  or a code host. However requests, edits of the rights file and failing writes follow each other: if
  a request changes the rights file, then a configured host signed the change; or the
  caller was identified as an administrator, and what is now in force is exactly what an earlier
  request of the run proposed, whose caller was then identified, under a fresh mirror, as another
  administrator, and within that one's scope.
\<close>

theorem policy_changes_need_two:
  assumes "codec_law c" and "server_run cf c h sv" and "handle cf w sv = (ans, sent, sv')" and "wo_codec w = c"
    and "ps_active (sv_store sv') \<noteq> ps_active (sv_store sv)"
  shows "\<exists>rq. read_request (wo_clean w) (wo_stream w) = Inr (Some rq) \<and>
    (host_change cf w rq (sv_store sv) (sv_store sv') \<or>
     (\<exists>x cn. identity_of cf w rq = Some x \<and> admin_scope_of (wo_rights w) (id_subject x) (id_groups x) \<noteq> None \<and>
        cn \<in> made_in cf h \<and> cr_author cn \<noteq> id_subject x \<and> ps_active (sv_store sv') = Some (cr_rights cn) \<and>
        proposed_rights (cr_base cn) (cr_submitted cn) (cr_scope cn) = Inr (cr_rights cn)))"
  using assms(3)
proof (cases rule: handle_cases)
  case quiet
  then show ?thesis using assms(5) by simp
next
  case (served rq)
  have ch: "request_change cf w rq (sv_store sv) (sv_store sv')" using dispatch_store [of cf w sv rq] assms(5) served by auto
  show ?thesis
  proof (cases "host_change cf w rq (sv_store sv) (sv_store sv')")
    case False
    then obtain x scope where x: "identity_of cf w rq = Some x" "admin_scope_of (wo_rights w) (id_subject x) (id_groups x) = Some scope"
        "approved_by w x scope (sv_store sv) (sv_store sv')"
      using ch assms(5) unfolding request_change_def admin_change_def by (auto simp: proposed_by_def dest: create_ps_active)
    obtain crs where crs: "set crs \<subseteq> made_in cf h" "policy_reachable c (at_rest (sv_store sv) crs)" using run_traced [OF assms(2)] by blast
    obtain pid v rights where d: "approve_check c pid (id_subject x) scope (sv_store sv) = Inr (v, rights)"
        "sv_store sv' = snd (approve_commit c True (wo_write w) (wo_now w) pid (id_subject x) (v, rights) (sv_store sv))"
      using x(3) assms(4) unfolding approved_by_def by auto
    have "store_ok c crs (sv_store sv)" using reachable_world_ok [OF crs(2) assms(1)] by (simp add: world_ok_def at_rest_def)
    from check_decision_ok [OF this d(1)] obtain cn where cn: "cn \<in> set crs" "cr_author cn \<noteq> id_subject x" "rights = cr_rights cn"
        "records_creation v cn" by (auto simp: decision_ok_def)
    have "ps_active (sv_store sv') = Some rights" using approve_commit_active [of c "wo_write w" "wo_now w" pid "id_subject x" v rights] d(2) by simp
    then show ?thesis using served(1) x(1,2) cn crs(1) by (auto simp: records_creation_def)
  qed (use served(1) in blast)
qed

text \<open>A run of two requests: paula, who administers a tenant, proposes, and root approves.\<close>

definition token_jwt :: "unit jwt_lib" where
  "token_jwt = \<lparr>decode_header = (\<lambda>_. Some (RS256, Some ''k'')), rsa_key = (\<lambda>_ _. Some ()),
     jwt_decode = (\<lambda>t _ _. Some (JObj [(''sub'', JStr t)]))\<rparr>"

definition console_stream :: "string \<Rightarrow> string \<Rightarrow> string list" where
  "console_stream path token = [''POST '' @ path @ '' HTTP/1.1'' @ crlf @ ''Authorization: Bearer '' @ token @ crlf @ crlf]"

definition console_request :: "string \<Rightarrow> string \<Rightarrow> request" where
  "console_request path token = \<lparr>rq_method = ''POST'', rq_path = path, rq_headers = [(''Authorization'', ''Bearer '' @ token)], rq_body = []\<rparr>"

definition console_world :: "string \<Rightarrow> string \<Rightarrow> nat \<Rightarrow> (unit, json) surround" where
  "console_world path token now = (sample_world (console_stream path token))\<lparr>wo_rights := parse sample_policy, wo_jwt := token_jwt,
     wo_now := now, wo_json := (\<lambda>_. Some (JObj [(''id'', JStr ''p1''), (''rights'', JStr sample_edit)]))\<rparr>"

definition approve_path :: string where
  "approve_path = ''/api/admin/policy/proposals/p1/approve''"

definition policy_server :: "json server" where
  "policy_server = sample_server\<lparr>sv_store := \<lparr>ps_active = Some sample_policy, ps_dir = []\<rparr>\<rparr>"

lemma console_read:
  "read_request True (console_stream proposals_path ''paula'') = Inr (Some (console_request proposals_path ''paula''))"
  "read_request True (console_stream approve_path ''root'') = Inr (Some (console_request approve_path ''root''))"
  by code_simp+

lemma console_scope:
  "admin_scope_of (parse sample_policy) ''paula'' [] = Some (Trees {''alpha''})"
  "admin_scope_of (parse sample_policy) ''root'' [] = Some Global"
  by code_simp+

lemma console_identity:
  "identity_of sample_config (console_world p t n) (console_request proposals_path ''paula'') = Some \<lparr>id_subject = ''paula'', id_groups = []\<rparr>"
  "identity_of sample_config (console_world p t n) (console_request approve_path ''root'') = Some \<lparr>id_subject = ''root'', id_groups = []\<rparr>"
  unfolding console_world_def sample_world_def by code_simp+

lemma console_facts:
  "is_valid_identifier ''p1''" "approved_of approve_path = Some ''p1''" "proposal_of proposals_path = None"
  "header (console_request p t) ''origin'' = None" "approve_path \<noteq> proposals_path"
  by (code_simp | simp add: header_def header_in_def console_request_def eq_ignore_ascii_case_def to_ascii_lowercase_def)+

lemma dispatch_served:
  assumes "\<not> open_call rq" and "origin_allowed (header rq ''origin'') (cf_allowed_origin cf)" and "mirror_fresh cf w" and "identity_of cf w rq = Some x"
  shows "oc_store (dispatch cf w sv rq) = oc_store (serve cf w sv rq (Some x)) \<and> \<not> oc_penalty (dispatch cf w sv rq)"
  using assms by (simp add: dispatch_guarded guarded_def Let_def)

lemma console_open:
  "\<not> open_call (console_request proposals_path t)" "\<not> open_call (console_request approve_path t)"
  "origin_allowed (header (console_request p t) ''origin'') (cf_allowed_origin sample_config)" "mirror_fresh sample_config (console_world p t n)"
  using console_facts(4) [of p t]
  by (simp_all add: mirror_fresh_def sample_config_def origin_allowed_def)
    (simp_all add: open_call_def webhook_call_def console_request_def proposals_path_def approve_path_def)

lemma serve_propose: "oc_store (serve cf w sv (console_request proposals_path t) i) = snd (propose_status w sv (console_request proposals_path t) i)"
  by (simp add: serve_def Let_def console_request_def proposals_path_def propose_def)

lemma serve_approve: "oc_store (serve cf w sv (console_request approve_path t) i) = snd (approve_status w sv i ''p1'')"
  using console_facts(2) by (simp add: serve_def Let_def console_request_def proposals_path_def approve_path_def approve_endpoint_def)

lemma proposal_made:
  "snd (propose_status (console_world proposals_path ''paula'' 7) policy_server rq (Some \<lparr>id_subject = ''paula'', id_groups = []\<rparr>)) = sample_store"
  using console_scope(1) console_facts(1)
  by (simp add: propose_status_def scope_of_def console_world_def sample_world_def policy_server_def create_def proposed_rights_def
      sample_compose sample_valid put_file_def sample_store_def value_codec_def proposal_path_def)

lemma proposal_approved:
  "sv_store sv = sample_store \<Longrightarrow> ps_active (snd (approve_status (console_world approve_path ''root'' 9) sv (Some \<lparr>id_subject = ''root'', id_groups = []\<rparr>) ''p1''))
     = Some sample_composed"
  using console_scope(2) console_facts(1) sample_approve
  by (simp add: approve_status_def scope_of_def console_world_def sample_world_def)

lemma handle_limiter:
  assumes "fst (check_and_consume (wo_instant w) (wo_ip w) 1 (sv_limiter sv))" and "read_request (wo_clean w) (wo_stream w) = Inr (Some rq)"
    and "\<not> oc_penalty (dispatch cf w sv rq)"
  shows "sv_limiter (snd (snd (handle cf w sv))) = snd (check_and_consume (wo_instant w) (wo_ip w) 1 (sv_limiter sv))"
  using assms by (cases "check_and_consume (wo_instant w) (wo_ip w) 1 (sv_limiter sv)") (simp add: handle_def settle_def Let_def)

lemma admitted_twice: "fst (check_and_consume 0 ip 1 (snd (check_and_consume 0 ip 1 (new_limiter 200 400))))"
  by (simp add: check_and_consume_def new_limiter_def purge_def duration_since_def Let_def)

theorem policy_changes_need_two_witness:
  "\<exists>cn :: creation. cr_author cn \<noteq> ''root'' \<and> cr_rights cn = sample_composed \<and> proposed_rights (cr_base cn) (cr_submitted cn) (cr_scope cn) = Inr sample_composed"
proof -
  let ?w1 = "console_world proposals_path ''paula'' 7" and ?w2 = "console_world approve_path ''root'' 9"
  have r: "read_request (wo_clean ?w1) (wo_stream ?w1) = Inr (Some (console_request proposals_path ''paula''))"
    "read_request (wo_clean ?w2) (wo_stream ?w2) = Inr (Some (console_request approve_path ''root''))"
    using console_read by (simp_all add: console_world_def sample_world_def)
  have a1: "fst (check_and_consume (wo_instant ?w1) (wo_ip ?w1) 1 (sv_limiter policy_server))"
    using sample_admitted by (simp add: console_world_def sample_world_def policy_server_def sample_server_def)
  note d1 = dispatch_served [OF console_open(1,3,4) console_identity(1), where sv = policy_server]
  obtain ans1 sent1 sv1 where h1: "handle sample_config ?w1 policy_server = (ans1, sent1, sv1)" by (cases "handle sample_config ?w1 policy_server")
  have s1: "sv_store sv1 = sample_store"
    using handle_admitted(3) [OF a1 r(1), of sample_config] d1 h1 by (simp add: serve_propose proposal_made)
  have "sv_limiter sv1 = snd (check_and_consume 0 ''127.0.0.1'' 1 (new_limiter 200 400))"
    using handle_limiter [OF a1 r(1), of sample_config] d1 h1
    by (simp add: console_world_def sample_world_def policy_server_def sample_server_def)
  then have a2: "fst (check_and_consume (wo_instant ?w2) (wo_ip ?w2) 1 (sv_limiter sv1))"
    using admitted_twice by (simp add: console_world_def sample_world_def)
  have run: "server_run sample_config value_codec [(?w1, policy_server, sv1)] sv1"
    by (rule server_run.Serve [OF server_run.Boot h1]) (simp_all add: policy_server_def console_world_def sample_world_def torn_ok_def)
  obtain ans2 sent2 sv2 where h2: "handle sample_config ?w2 sv1 = (ans2, sent2, sv2)" by (cases "handle sample_config ?w2 sv1")
  have s2: "ps_active (sv_store sv2) = Some sample_composed"
    using handle_admitted(3) [OF a2 r(2), of sample_config] dispatch_served [OF console_open(2,3,4) console_identity(2), where sv = sv1] h2
    by (simp add: serve_approve proposal_approved [OF s1])
  have ne: "ps_active (sv_store sv2) \<noteq> ps_active (sv_store sv1)"
  proof -
    have "sample_composed \<noteq> sample_policy" by code_simp
    then show ?thesis using s1 s2 by (simp add: sample_store_def)
  qed
  have codec: "wo_codec ?w2 = value_codec" by (simp add: console_world_def sample_world_def)
  have not_hosted: "\<not> host_change sample_config ?w2 (console_request approve_path ''root'') (sv_store sv1) (sv_store sv2)"
  proof -
    have "\<not> github_signed sample_config (console_request approve_path ''root'')" "\<not> gitlab_signed sample_config (console_request approve_path ''root'')"
      by (simp_all add: github_signed_def gitlab_signed_def sample_config_def console_request_def header_def header_in_def
          eq_ignore_ascii_case_def to_ascii_lowercase_def verify_github_signature_def)
    then show ?thesis by (simp add: host_change_def)
  qed
  from policy_changes_need_two [OF value_codec_law run h2 codec ne] obtain rq where
      t: "read_request (wo_clean ?w2) (wo_stream ?w2) = Inr (Some rq)" and
      d: "host_change sample_config ?w2 rq (sv_store sv1) (sv_store sv2) \<or> (\<exists>x cn. identity_of sample_config ?w2 rq = Some x \<and>
        admin_scope_of (wo_rights ?w2) (id_subject x) (id_groups x) \<noteq> None \<and>
        cn \<in> made_in sample_config [(?w1, policy_server, sv1)] \<and> cr_author cn \<noteq> id_subject x \<and>
        ps_active (sv_store sv2) = Some (cr_rights cn) \<and>
        proposed_rights (cr_base cn) (cr_submitted cn) (cr_scope cn) = Inr (cr_rights cn))"
    by (elim exE conjE) (rule that)
  have q: "rq = console_request approve_path ''root''" using t r(2) by simp
  from d [unfolded q] not_hosted obtain x and cn :: creation where "identity_of sample_config ?w2 (console_request approve_path ''root'') = Some x" "cr_author cn \<noteq> id_subject x"
      "ps_active (sv_store sv2) = Some (cr_rights cn)" "proposed_rights (cr_base cn) (cr_submitted cn) (cr_scope cn) = Inr (cr_rights cn)"
    by blast
  with console_identity(2) [of approve_path "''root''" 9] s2 show ?thesis by (intro exI [of _ cn]) simp
qed

end
