(* ===== verification/Admission.thy ===== *)
theory Admission
  imports Http_Replies Audit_Log "HOL-Library.Word"
begin

text \<open>
  How many connections are served at once: the accept loops of \<^verbatim>\<open>main\<close> and of
  \<^verbatim>\<open>run_audit_ingest\<close> in \<^verbatim>\<open>src/main.rs\<close>, with the guard
  \<^verbatim>\<open>Live\<close> of the connection threads. One thread accepts, any number of threads end
  at any moment. The counter is a machine word; its values since the accept thread's last own
  write are kept, because a relaxed load may return any of them that is not older than what the
  thread has already seen. The audit ingest's request handler is at the end.
\<close>

subsection \<open>Gates\<close>

text \<open>
  What both loops promise: every step keeps an invariant under which at most \<open>cap\<close>
  connections live, and a free place can be taken.
\<close>

locale gate =
  fixes step :: "'s \<Rightarrow> 's \<Rightarrow> bool" and start :: 's and live :: "'s \<Rightarrow> nat" and ok :: "'s \<Rightarrow> bool" and cap :: nat
  assumes start_ok: "ok start"
    and step_ok: "ok s \<Longrightarrow> step s s' \<Longrightarrow> ok s'"
    and ok_bound: "ok s \<Longrightarrow> live s \<le> cap"
    and leave: "ok s \<Longrightarrow> 0 < live s \<Longrightarrow> \<exists>s'. step s s' \<and> live s' = live s - 1"
    and admit: "ok s \<Longrightarrow> live s < cap \<Longrightarrow> \<exists>s'. step\<^sup>*\<^sup>* s s' \<and> live s' = live s + 1"
begin

lemma runs_ok: "step\<^sup>*\<^sup>* s s' \<Longrightarrow> ok s \<Longrightarrow> ok s'"
  by (induction rule: rtranclp_induct) (auto intro: step_ok)

lemma bounded: "step\<^sup>*\<^sup>* start s \<Longrightarrow> live s \<le> cap"
  by (rule ok_bound [OF runs_ok [OF _ start_ok]])

lemma drains: "ok s \<Longrightarrow> \<exists>s'. step\<^sup>*\<^sup>* s s' \<and> live s' = 0"
proof (induction "live s" arbitrary: s)
  case 0
  have "step\<^sup>*\<^sup>* s s \<and> live s = 0" using 0(1) by simp
  then show ?case by (rule exI)
next
  case (Suc n)
  obtain s1 where s1: "step s s1" "live s1 = live s - 1"
    using leave [OF Suc.prems] Suc.hyps(2) by auto
  have "ok s1" by (rule step_ok [OF Suc.prems s1(1)])
  moreover have "n = live s1" using s1(2) Suc.hyps(2) by simp
  ultimately obtain s2 where s2: "step\<^sup>*\<^sup>* s1 s2" "live s2 = 0" using Suc.hyps(1) by blast
  have "step\<^sup>*\<^sup>* s s2" by (rule converse_rtranclp_into_rtranclp [OF s1(1) s2(1)])
  with s2(2) show ?case by blast
qed

lemma fills: "ok s \<Longrightarrow> live s \<le> n \<Longrightarrow> n \<le> cap \<Longrightarrow> \<exists>s'. step\<^sup>*\<^sup>* s s' \<and> live s' = n"
proof (induction "n - live s" arbitrary: s)
  case 0
  have "step\<^sup>*\<^sup>* s s \<and> live s = n" using 0(1) 0(3) by simp
  then show ?case by (rule exI)
next
  case (Suc k)
  have "live s < cap" using Suc.hyps(2) Suc.prems(3) by simp
  then obtain s1 where s1: "step\<^sup>*\<^sup>* s s1" "live s1 = live s + 1" using admit [OF Suc.prems(1)] by auto
  have "ok s1" by (rule runs_ok [OF s1(1) Suc.prems(1)])
  moreover have "k = n - live s1" "live s1 \<le> n" using s1(2) Suc.hyps(2) by simp_all
  ultimately obtain s2 where s2: "step\<^sup>*\<^sup>* s1 s2" "live s2 = n" using Suc.hyps(1) Suc.prems(3) by blast
  have "step\<^sup>*\<^sup>* s s2" by (rule rtranclp_trans [OF s1(1) s2(1)])
  with s2(2) show ?case by blast
qed

text \<open>No place is ever lost: whatever happened, the gate can empty, and fill up to any level again.\<close>

lemma no_place_lost:
  assumes s: "step\<^sup>*\<^sup>* start s" and n: "n \<le> cap"
  shows "\<exists>s'. step\<^sup>*\<^sup>* s s' \<and> live s' = n"
proof -
  have ok: "ok s" by (rule runs_ok [OF s start_ok])
  obtain s1 where s1: "step\<^sup>*\<^sup>* s s1" "live s1 = 0" using drains [OF ok] by blast
  have "ok s1" by (rule runs_ok [OF s1(1) ok])
  moreover have "live s1 \<le> n" using s1(2) by simp
  ultimately obtain s2 where s2: "step\<^sup>*\<^sup>* s1 s2" "live s2 = n" using fills n by blast
  have "step\<^sup>*\<^sup>* s s2" by (rule rtranclp_trans [OF s1(1) s2(1)])
  with s2(2) show ?thesis by blast
qed

end

subsection \<open>The accept loop of the server\<close>

definition max_connections :: "64 word" where "max_connections = 64"

text \<open>
  Where the accepting thread stands: waiting for a connection, holding one with the count it has
  just loaded, or holding one that is counted and whose thread is not started yet.
\<close>

datatype accept_pc = Waiting | Loaded "64 word" | Counted

record turnstile =
  t_count :: "64 word"
  t_seen :: "64 word list"
  t_live :: nat
  t_pc :: accept_pc

definition fresh_turnstile :: turnstile where
  "fresh_turnstile = \<lparr>t_count = 0, t_seen = [0], t_live = 0, t_pc = Waiting\<rparr>"

definition fetch_add :: "turnstile \<Rightarrow> turnstile" where
  "fetch_add s = s\<lparr>t_count := t_count s + 1, t_seen := [t_count s + 1], t_pc := Counted\<rparr>"

text \<open>\<^verbatim>\<open>Live::drop\<close>, which also runs when the thread of the connection panics.\<close>

definition drop_live :: "turnstile \<Rightarrow> turnstile" where
  "drop_live s = s\<lparr>t_count := t_count s - 1, t_seen := (t_count s - 1) # t_seen s, t_live := t_live s - 1\<rparr>"

definition spawn :: "turnstile \<Rightarrow> turnstile" where
  "spawn s = s\<lparr>t_live := Suc (t_live s), t_pc := Waiting\<rparr>"

inductive accept_step :: "turnstile \<Rightarrow> turnstile \<Rightarrow> bool" where
  Load: "t_pc s = Waiting \<Longrightarrow> v \<in> set (t_seen s) \<Longrightarrow> accept_step s (s\<lparr>t_pc := Loaded v\<rparr>)"
| Refuse: "t_pc s = Loaded v \<Longrightarrow> max_connections \<le> v \<Longrightarrow> accept_step s (s\<lparr>t_pc := Waiting\<rparr>)"
| Count: "t_pc s = Loaded v \<Longrightarrow> v < max_connections \<Longrightarrow> accept_step s (fetch_add s)"
| Start: "t_pc s = Counted \<Longrightarrow> accept_step s (spawn s)"
| Finish: "0 < t_live s \<Longrightarrow> accept_step s (drop_live s)"

text \<open>The ingest claims its place by a compare-and-swap that may fail although the count is unchanged.\<close>

inductive ingest_step :: "turnstile \<Rightarrow> turnstile \<Rightarrow> bool" where
  Load: "t_pc s = Waiting \<Longrightarrow> v \<in> set (t_seen s) \<Longrightarrow> ingest_step s (s\<lparr>t_pc := Loaded v\<rparr>)"
| Refuse: "t_pc s = Loaded v \<Longrightarrow> max_connections \<le> v \<Longrightarrow> ingest_step s (s\<lparr>t_pc := Waiting\<rparr>)"
| Swap: "t_pc s = Loaded v \<Longrightarrow> v < max_connections \<Longrightarrow> v = t_count s \<Longrightarrow> ingest_step s (fetch_add s)"
| Retry: "t_pc s = Loaded v \<Longrightarrow> v < max_connections \<Longrightarrow> v' \<in> set (t_seen s) \<Longrightarrow>
    ingest_step s (s\<lparr>t_pc := Loaded v'\<rparr>)"
| Start: "t_pc s = Counted \<Longrightarrow> ingest_step s (spawn s)"
| Finish: "0 < t_live s \<Longrightarrow> ingest_step s (drop_live s)"

subsection \<open>The invariant of both loops\<close>

fun pending :: "accept_pc \<Rightarrow> nat" where
  "pending Counted = 1"
| "pending _ = 0"

definition turnstile_ok :: "turnstile \<Rightarrow> bool" where
  "turnstile_ok s \<longleftrightarrow> unat (t_count s) = t_live s + pending (t_pc s) \<and> t_live s + pending (t_pc s) \<le> 64 \<and>
     t_count s \<in> set (t_seen s) \<and> (\<forall>v \<in> set (t_seen s). t_count s \<le> v \<and> v \<le> last (t_seen s)) \<and>
     last (t_seen s) \<le> 64 \<and> (\<forall>v. t_pc s = Loaded v \<longrightarrow> v \<in> set (t_seen s))"

lemma count_up: "t_count s < max_connections \<Longrightarrow> unat (t_count s + 1) = Suc (unat (t_count s)) \<and> unat (t_count s) < 64"
proof -
  assume "t_count s < max_connections"
  then have u: "unat (t_count s) < 64" by (simp add: max_connections_def word_less_nat_alt)
  have "unat (t_count s + 1) = (unat (t_count s) + 1) mod 2 ^ 64" by (simp add: unat_word_ariths)
  with u show ?thesis by simp
qed

lemma count_down: "0 < unat (t_count s) \<Longrightarrow> unat (t_count s - 1) = unat (t_count s) - 1 \<and> t_count s - 1 \<le> t_count s"
proof -
  assume u: "0 < unat (t_count s)"
  then have "1 \<le> t_count s" by (simp add: word_le_nat_alt)
  then show ?thesis using u by (simp add: unat_sub word_le_nat_alt)
qed

lemma load_ok: "turnstile_ok s \<Longrightarrow> t_pc s \<noteq> Counted \<Longrightarrow> v \<in> set (t_seen s) \<Longrightarrow> turnstile_ok (s\<lparr>t_pc := Loaded v\<rparr>)"
  by (cases "t_pc s") (simp_all add: turnstile_ok_def)

lemma refuse_ok: "turnstile_ok s \<Longrightarrow> t_pc s \<noteq> Counted \<Longrightarrow> turnstile_ok (s\<lparr>t_pc := Waiting\<rparr>)"
  by (cases "t_pc s") (simp_all add: turnstile_ok_def)

lemma count_ok: "turnstile_ok s \<Longrightarrow> t_pc s = Loaded v \<Longrightarrow> v < max_connections \<Longrightarrow> turnstile_ok (fetch_add s)"
proof -
  assume s: "turnstile_ok s" and v: "t_pc s = Loaded v" "v < max_connections"
  then have "t_count s \<le> v" by (auto simp: turnstile_ok_def)
  then have "t_count s < max_connections" using v(2) by simp
  then have "unat (t_count s + 1) = Suc (unat (t_count s))" "unat (t_count s) < 64" using count_up by auto
  then show ?thesis using s v(1) by (simp add: turnstile_ok_def fetch_add_def word_le_nat_alt)
qed

lemma start_ok: "turnstile_ok s \<Longrightarrow> t_pc s = Counted \<Longrightarrow> turnstile_ok (spawn s)"
  by (simp add: turnstile_ok_def spawn_def)

lemma finish_ok: "turnstile_ok s \<Longrightarrow> 0 < t_live s \<Longrightarrow> turnstile_ok (drop_live s)"
proof -
  assume s: "turnstile_ok s" and l: "0 < t_live s"
  then have "0 < unat (t_count s)" by (simp add: turnstile_ok_def)
  note d = count_down [OF this]
  have n: "t_seen s \<noteq> []" and le: "\<forall>v \<in> set (t_seen s). t_count s \<le> v \<and> v \<le> last (t_seen s)" "t_count s \<in> set (t_seen s)"
    using s by (auto simp: turnstile_ok_def)
  have "\<forall>v \<in> set (t_seen s). t_count s - 1 \<le> v \<and> v \<le> last (t_seen s)" "t_count s - 1 \<le> last (t_seen s)"
    using le d by (blast intro: order_trans)+
  then show ?thesis using s l d n by (auto simp: turnstile_ok_def drop_live_def)
qed

lemmas turnstile_intros = load_ok refuse_ok count_ok start_ok finish_ok

inductive_cases accept_stepE [elim!]: "accept_step s s'"
inductive_cases ingest_stepE [elim!]: "ingest_step s s'"

lemma accept_keeps: "turnstile_ok s \<Longrightarrow> accept_step s s' \<Longrightarrow> turnstile_ok s'"
  by (auto intro: turnstile_intros)

lemma ingest_keeps: "turnstile_ok s \<Longrightarrow> ingest_step s s' \<Longrightarrow> turnstile_ok s'"
  by (auto intro: turnstile_intros)

lemma fresh_ok: "turnstile_ok fresh_turnstile"
  by (simp add: turnstile_ok_def fresh_turnstile_def)

lemma turnstile_bound: "turnstile_ok s \<Longrightarrow> t_live s \<le> 64"
  by (simp add: turnstile_ok_def)

lemma count_below: "turnstile_ok s \<Longrightarrow> t_pc s \<noteq> Counted \<Longrightarrow> t_live s < 64 \<Longrightarrow> t_count s < max_connections"
  by (cases "t_pc s") (simp_all add: turnstile_ok_def max_connections_def word_less_nat_alt)

lemma refuse_full: "turnstile_ok s \<Longrightarrow> t_pc s = Loaded v \<Longrightarrow> max_connections \<le> v \<Longrightarrow> last (t_seen s) = max_connections"
proof -
  assume s: "turnstile_ok s" and v: "t_pc s = Loaded v" "max_connections \<le> v"
  then have "v \<le> last (t_seen s)" "last (t_seen s) \<le> 64" by (auto simp: turnstile_ok_def)
  then show ?thesis using v(2) by (simp add: max_connections_def)
qed

lemma seen_current: "turnstile_ok s \<Longrightarrow> t_count s \<in> set (t_seen s)"
  by (simp add: turnstile_ok_def)

lemma spawned: "t_live (spawn (fetch_add s)) = t_live s + 1" "t_pc (fetch_add s) = Counted"
  by (simp_all add: spawn_def fetch_add_def)

lemma accept_from_waiting:
  assumes "turnstile_ok s" and "t_live s < 64" and "t_pc s = Waiting"
  shows "accept_step\<^sup>*\<^sup>* s (spawn (fetch_add (s\<lparr>t_pc := Loaded (t_count s)\<rparr>)))"
proof -
  let ?l = "s\<lparr>t_pc := Loaded (t_count s)\<rparr>"
  have "accept_step s ?l" using assms seen_current by (simp add: accept_step.Load)
  moreover have "accept_step ?l (fetch_add ?l)" using count_below [of s] assms by (intro accept_step.Count) simp_all
  moreover have "accept_step (fetch_add ?l) (spawn (fetch_add ?l))" by (intro accept_step.Start) (simp add: spawned)
  ultimately show ?thesis by (meson converse_rtranclp_into_rtranclp rtranclp.rtrancl_refl)
qed

lemma ingest_from_loaded:
  assumes "turnstile_ok s" and "t_live s < 64" and "t_pc s = Loaded (t_count s)"
  shows "ingest_step\<^sup>*\<^sup>* s (spawn (fetch_add s))"
proof -
  have "ingest_step s (fetch_add s)" using count_below [of s] assms by (intro ingest_step.Swap) simp_all
  moreover have "ingest_step (fetch_add s) (spawn (fetch_add s))" by (intro ingest_step.Start) (simp add: spawned)
  ultimately show ?thesis by (meson converse_rtranclp_into_rtranclp rtranclp.rtrancl_refl)
qed

lemma accept_admits:
  assumes "turnstile_ok s" and "t_live s < 64"
  shows "\<exists>s'. accept_step\<^sup>*\<^sup>* s s' \<and> t_live s' = t_live s + 1"
proof (cases "t_pc s")
  case Waiting
  then show ?thesis using accept_from_waiting [OF assms Waiting] by (auto simp: spawn_def fetch_add_def)
next
  case (Loaded v)
  show ?thesis
  proof (cases "v < max_connections")
    case True
    have "accept_step s (fetch_add s)" "accept_step (fetch_add s) (spawn (fetch_add s))"
      using accept_step.Count [OF Loaded True] accept_step.Start spawned(2) by blast+
    then have "accept_step\<^sup>*\<^sup>* s (spawn (fetch_add s))" by (meson converse_rtranclp_into_rtranclp rtranclp.rtrancl_refl)
    then show ?thesis using spawned(1) by blast
  next
    case False
    let ?w = "s\<lparr>t_pc := Waiting\<rparr>"
    have "accept_step s ?w" using False accept_step.Refuse [OF Loaded] by simp
    moreover have "turnstile_ok ?w" using assms(1) Loaded by (simp add: refuse_ok)
    ultimately show ?thesis using accept_from_waiting [of ?w] assms(2)
      by (intro exI [of _ "spawn (fetch_add (?w\<lparr>t_pc := Loaded (t_count ?w)\<rparr>))"]) (simp add: spawn_def fetch_add_def converse_rtranclp_into_rtranclp)
  qed
next
  case Counted
  then have "accept_step s (spawn s)" by (rule accept_step.Start)
  then show ?thesis by (intro exI [of _ "spawn s"]) (simp add: spawn_def)
qed

lemma ingest_admits:
  assumes "turnstile_ok s" and "t_live s < 64"
  shows "\<exists>s'. ingest_step\<^sup>*\<^sup>* s s' \<and> t_live s' = t_live s + 1"
proof (cases "t_pc s = Counted")
  case True
  then have "ingest_step s (spawn s)" by (rule ingest_step.Start)
  then show ?thesis by (intro exI [of _ "spawn s"]) (simp add: spawn_def)
next
  case False
  let ?l = "s\<lparr>t_pc := Loaded (t_count s)\<rparr>"
  have "ingest_step\<^sup>*\<^sup>* s ?l"
  proof (cases "t_pc s")
    case (Loaded v)
    let ?w = "s\<lparr>t_pc := Waiting\<rparr>"
    have "ingest_step s ?w" "ingest_step ?w ?l" if "\<not> v < max_connections"
      using that ingest_step.Refuse [OF Loaded] ingest_step.Load [of ?w "t_count s"] seen_current [OF assms(1)] by simp_all
    moreover have "ingest_step s ?l" if "v < max_connections"
      using that ingest_step.Retry [OF Loaded] seen_current [OF assms(1)] by blast
    ultimately show ?thesis by (meson converse_rtranclp_into_rtranclp rtranclp.rtrancl_refl)
  next
    case Waiting
    then have "ingest_step s ?l" using seen_current [OF assms(1)] by (rule ingest_step.Load)
    then show ?thesis ..
  qed (use False in simp)
  moreover have "ingest_step\<^sup>*\<^sup>* ?l (spawn (fetch_add ?l))"
    using ingest_from_loaded [of ?l] load_ok [OF assms(1) False seen_current [OF assms(1)]] assms(2) by simp
  ultimately have "ingest_step\<^sup>*\<^sup>* s (spawn (fetch_add ?l))" by (rule rtranclp_trans)
  then show ?thesis by (intro exI [of _ "spawn (fetch_add ?l)"]) (simp add: spawn_def fetch_add_def)
qed

interpretation server_gate: gate accept_step fresh_turnstile t_live turnstile_ok 64
proof unfold_locales
  show "\<exists>s'. accept_step s s' \<and> t_live s' = t_live s - 1" if "turnstile_ok s" "0 < t_live s" for s
    using accept_step.Finish [OF that(2)] by (intro exI [of _ "drop_live s"]) (simp add: drop_live_def)
qed (fact fresh_ok, fact accept_keeps, fact turnstile_bound, fact accept_admits)

interpretation ingest_gate: gate ingest_step fresh_turnstile t_live turnstile_ok 64
proof unfold_locales
  show "\<exists>s'. ingest_step s s' \<and> t_live s' = t_live s - 1" if "turnstile_ok s" "0 < t_live s" for s
    using ingest_step.Finish [OF that(2)] by (intro exI [of _ "drop_live s"]) (simp add: drop_live_def)
qed (fact fresh_ok, fact ingest_keeps, fact turnstile_bound, fact ingest_admits)

text \<open>
  C36. At most 64 connections are served at once, by the server and by the audit ingest alike,
  whatever the order in which connections come, threads start and finish, stale values are loaded
  and compare-and-swaps fail. The check and the increment of the server's loop are two operations, and
  it is the single accepting thread that makes them safe. A connection is refused only when the last
  one admitted before it filled the gate.
\<close>

theorem connections_are_bounded:
  assumes "accept_step\<^sup>*\<^sup>* fresh_turnstile s" and "ingest_step\<^sup>*\<^sup>* fresh_turnstile i"
  shows "t_live s \<le> 64 \<and> t_live i \<le> 64 \<and>
    (\<forall>v. t_pc s = Loaded v \<and> max_connections \<le> v \<longrightarrow> last (t_seen s) = max_connections) \<and>
    (\<forall>v. t_pc i = Loaded v \<and> max_connections \<le> v \<longrightarrow> last (t_seen i) = max_connections)"
  using server_gate.bounded [OF assms(1)] ingest_gate.bounded [OF assms(2)]
    refuse_full [OF server_gate.runs_ok [OF assms(1) fresh_ok]] refuse_full [OF ingest_gate.runs_ok [OF assms(2) fresh_ok]] by blast

lemma first_arrival:
  "accept_step\<^sup>*\<^sup>* fresh_turnstile (spawn (fetch_add (fresh_turnstile\<lparr>t_pc := Loaded 0\<rparr>)))"
  "ingest_step\<^sup>*\<^sup>* fresh_turnstile (spawn (fetch_add (fresh_turnstile\<lparr>t_pc := Loaded 0\<rparr>)))"
proof -
  let ?l = "fresh_turnstile\<lparr>t_pc := Loaded 0\<rparr>"
  have f: "t_pc fresh_turnstile = Waiting" "0 \<in> set (t_seen fresh_turnstile)" "t_count fresh_turnstile = 0" "t_live fresh_turnstile = 0"
    by (simp_all add: fresh_turnstile_def)
  show "accept_step\<^sup>*\<^sup>* fresh_turnstile (spawn (fetch_add ?l))" using accept_from_waiting [OF fresh_ok] f by simp
  have "ingest_step fresh_turnstile ?l" using f by (simp add: ingest_step.Load)
  moreover have "ingest_step\<^sup>*\<^sup>* ?l (spawn (fetch_add ?l))" using ingest_from_loaded [of ?l] load_ok [OF fresh_ok] f by simp
  ultimately show "ingest_step\<^sup>*\<^sup>* fresh_turnstile (spawn (fetch_add ?l))" by (rule converse_rtranclp_into_rtranclp)
qed

theorem connections_are_bounded_witness:
  "t_live (spawn (fetch_add (fresh_turnstile\<lparr>t_pc := Loaded 0\<rparr>))) = 1 \<and>
   t_live (spawn (fetch_add (fresh_turnstile\<lparr>t_pc := Loaded 0\<rparr>))) \<le> 64"
  using connections_are_bounded [OF first_arrival] by (simp add: spawn_def fetch_add_def fresh_turnstile_def)

text \<open>
  C37. No place is ever lost. Whatever has happened, connections that panicked included, the
  gate can still come to serve any number of connections up to 64, in particular none and all 64: the counter never
  keeps a place for a connection that is gone, neither after a failed compare-and-swap nor
  after a refusal.
\<close>

theorem no_place_is_lost:
  assumes "accept_step\<^sup>*\<^sup>* fresh_turnstile s" and "ingest_step\<^sup>*\<^sup>* fresh_turnstile i" and "n \<le> 64"
  shows "(\<exists>s'. accept_step\<^sup>*\<^sup>* s s' \<and> t_live s' = n) \<and> (\<exists>i'. ingest_step\<^sup>*\<^sup>* i i' \<and> t_live i' = n)"
  using server_gate.no_place_lost [OF assms(1,3)] ingest_gate.no_place_lost [OF assms(2,3)] by (rule conjI)

theorem no_place_is_lost_witness:
  "\<exists>s'. accept_step\<^sup>*\<^sup>* (spawn (fetch_add (fresh_turnstile\<lparr>t_pc := Loaded 0\<rparr>))) s' \<and> t_live s' = 64"
  using no_place_is_lost [OF first_arrival, of 64] by simp

subsection \<open>Audit events from other machines\<close>

definition min_ingest_key :: nat where "min_ingest_key = 32"

text \<open>\<open>bind\<close> says whether the address could be bound.\<close>

definition run_audit_ingest :: "bool \<Rightarrow> string \<Rightarrow> bool" where
  "run_audit_ingest bind key \<longleftrightarrow> \<not> length key < min_ingest_key \<and> bind"

definition ingest_event :: "(string \<Rightarrow> json option) \<Rightarrow> bool \<Rightarrow> string \<Rightarrow> request option \<Rightarrow> audit_log \<Rightarrow> bool \<times> audit_log" where
  "ingest_event from_slice io key request fs =
     (case request of None \<Rightarrow> (False, fs) | Some rq \<Rightarrow>
        if rq_method rq = ''POST'' \<and> rq_path rq = ''/v1/events''
        then (case header rq ''x-glasir-audit-signature'' of None \<Rightarrow> (False, fs)
          | Some signature \<Rightarrow> (case append_remote_event from_slice io (rq_body rq) signature key fs of (r, fs') \<Rightarrow> (is_ok r, fs')))
        else (False, fs))"

text \<open>No answer when the request cannot be read.\<close>

definition handle_audit_ingest_connection ::
    "(string \<Rightarrow> json option) \<Rightarrow> bool \<Rightarrow> string \<Rightarrow> bool \<Rightarrow> string list \<Rightarrow> audit_log \<Rightarrow> string option \<times> audit_log" where
  "handle_audit_ingest_connection from_slice io key clean cs fs =
     (case read_request clean cs of Inl _ \<Rightarrow> (None, fs) | Inr request \<Rightarrow>
       (case ingest_event from_slice io key request fs of (ok, fs') \<Rightarrow>
         (Some (if ok then respond_audit ''204 No Content'' [] else respond_audit ''401 Unauthorized'' ''audit event rejected''), fs')))"

text \<open>Deliveries one after another; the lock file keeps appends of concurrent connections apart.\<close>

fun deliveries :: "(string \<Rightarrow> json option) \<Rightarrow> string \<Rightarrow> (bool \<times> bool \<times> string list) list \<Rightarrow> audit_log \<Rightarrow> audit_log" where
  "deliveries from_slice key [] fs = fs"
| "deliveries from_slice key ((io, clean, cs) # ds) fs =
     deliveries from_slice key ds (snd (handle_audit_ingest_connection from_slice io key clean cs fs))"

text \<open>What an event must be, independently of how the handler finds out.\<close>

definition genuine :: "(string \<Rightarrow> json option) \<Rightarrow> string \<Rightarrow> request \<Rightarrow> bool" where
  "genuine from_slice key rq \<longleftrightarrow> rq_method rq = ''POST'' \<and> rq_path rq = ''/v1/events'' \<and>
     header rq ''x-glasir-audit-signature'' = Some (''sha256='' @ hmac_sha256_hex key (rq_body rq)) \<and>
     Option.bind (from_slice (rq_body rq)) as_object \<noteq> None"

definition accepted_body :: "(string \<Rightarrow> json option) \<Rightarrow> string \<Rightarrow> bool \<times> bool \<times> string list \<Rightarrow> string option" where
  "accepted_body from_slice key d = (case d of (io, clean, cs) \<Rightarrow> (case read_request clean cs of
       Inr (Some rq) \<Rightarrow> if genuine from_slice key rq \<and> io then Some (rq_body rq) else None
     | _ \<Rightarrow> None))"

definition log_text :: "audit_log \<Rightarrow> string" where
  "log_text fs = (case al_current fs of None \<Rightarrow> [] | Some s \<Rightarrow> s)"

lemma ingest_event_exact:
  assumes "length (rq_body rq) \<le> max_body"
  shows "ingest_event from_slice io key (Some rq) fs =
    (if genuine from_slice key rq \<and> io then (True, append_line (rq_body rq) fs) else (False, fs))"
  using assms
  by (auto simp: ingest_event_def genuine_def append_remote_event_def max_body_def constant_time_eq_iff is_ok_def
      split: option.splits bind_splits)

lemma handle_ingest_exact:
  "handle_audit_ingest_connection from_slice io key clean cs fs =
    (case read_request clean cs of Inl _ \<Rightarrow> (None, fs)
     | Inr request \<Rightarrow> (case accepted_body from_slice key (io, clean, cs) of
         Some body \<Rightarrow> (Some (respond_audit ''204 No Content'' []), append_line body fs)
       | None \<Rightarrow> (Some (respond_audit ''401 Unauthorized'' ''audit event rejected''), fs)))"
proof (cases "read_request clean cs")
  case (Inr request)
  show ?thesis
  proof (cases request)
    case None
    then show ?thesis using Inr by (simp add: handle_audit_ingest_connection_def ingest_event_def accepted_body_def)
  next
    case (Some rq)
    have "length (rq_body rq) \<le> max_body" using request_bounded [of clean cs rq] Inr Some by simp
    then show ?thesis using Inr Some
      by (simp add: handle_audit_ingest_connection_def ingest_event_exact accepted_body_def)
  qed
qed (simp add: handle_audit_ingest_connection_def)

lemma log_text_append_line: "log_text (append_line l fs) = log_text fs @ l @ [nl]"
  by (simp add: log_text_def append_line_def)

lemma accepted_read: "accepted_body from_slice key (io, clean, cs) = Some body \<Longrightarrow> is_ok (read_request clean cs)"
  by (auto simp: accepted_body_def is_ok_def split: sum.splits)

lemma delivery_text:
  "log_text (snd (handle_audit_ingest_connection from_slice io key clean cs fs)) = log_text fs @
     (case accepted_body from_slice key (io, clean, cs) of None \<Rightarrow> [] | Some body \<Rightarrow> body @ [nl])"
proof (cases "read_request clean cs")
  case Inl
  then show ?thesis by (simp add: handle_ingest_exact accepted_body_def)
next
  case Inr
  then show ?thesis by (simp add: handle_ingest_exact log_text_append_line split: option.split)
qed

lemma deliveries_text:
  "log_text (deliveries from_slice key ds fs) = log_text fs @ concat (map (\<lambda>b. b @ [nl]) (List.map_filter (accepted_body from_slice key) ds))"
  by (induction from_slice key ds fs rule: deliveries.induct)
    (auto simp: delivery_text List.map_filter_simps split: option.split)

text \<open>
  The collected log is exactly the genuine events, in the order of their delivery. An event gets in
  when it was posted to the event path with the signature of exactly its bytes under the key
  of at least 32 bytes and is a JSON object; then precisely its bytes and a line end are appended and
  the sender hears 204. Everything else that can be read hears the same 401 and leaves the log as it
  was, and so does an event that could not be written. Nothing distinguishes
  a repeated delivery from a new event.
\<close>

theorem ingest_log_exact:
  "log_text (deliveries from_slice key ds fs) =
     log_text fs @ concat (map (\<lambda>b. b @ [nl]) (List.map_filter (accepted_body from_slice key) ds)) \<and>
   fst (handle_audit_ingest_connection from_slice io key clean cs fs) =
     (if is_ok (read_request clean cs) then
        Some (if accepted_body from_slice key (io, clean, cs) \<noteq> None then respond_audit ''204 No Content'' []
              else respond_audit ''401 Unauthorized'' ''audit event rejected'')
      else None) \<and>
   \<not> (run_audit_ingest bind k \<and> length k < 32)"
  using deliveries_text by (auto simp: handle_ingest_exact is_ok_def run_audit_ingest_def min_ingest_key_def split: sum.split option.split)

end
