(* ===== verification/Backend_Tls.thy ===== *)
theory Backend_Tls
  imports Http_Replies
begin

text \<open>
  \<^verbatim>\<open>src/backend_tls.rs\<close>: the certificates and keys of the two kinds of mutually
  authenticated channels, the connection to a tree or to the audit ingest, and the one
  bounded request sent to the ingest. The PEM reader, the TLS library and the
  network are parameters: a PEM block is its tag and its contents, \<open>exchange\<close> is the answer to the
  bytes sent over a connection to an address, whose server must be called \<open>host\<close>, and how its stream ended.
\<close>

subsection \<open>Certificates and keys\<close>

record pem_block =
  pb_tag :: string
  pb_contents :: string

datatype tls_error = CannotRead | BadPem | NoCertificate | NoPrivateKey | BadRoot | BadVerifier | BadKeyPair

text \<open>
  What is used of the libraries: reading PEM text, adding a certificate to a trust store,
  the check of clients against a store, and the configurations.
\<close>

record ('roots, 'verifier, 'client, 'server) tls_lib =
  parse_many :: "string \<Rightarrow> pem_block list option"
  no_roots :: 'roots
  add_root :: "'roots \<Rightarrow> string \<Rightarrow> 'roots option"
  client_verifier :: "'roots \<Rightarrow> 'verifier option"
  client_config :: "'roots \<Rightarrow> string list \<Rightarrow> string \<Rightarrow> 'client option"
  server_config :: "'verifier \<Rightarrow> string list \<Rightarrow> string \<Rightarrow> 'server option"

definition and_then :: "('e, 'a) result \<Rightarrow> ('a \<Rightarrow> ('e, 'b) result) \<Rightarrow> ('e, 'b) result" where
  "and_then r f = (case r of Inl e \<Rightarrow> Inl e | Inr a \<Rightarrow> f a)"

definition certs :: "('roots, 'verifier, 'client, 'server) tls_lib \<Rightarrow> (string \<Rightarrow> string option) \<Rightarrow> string \<Rightarrow> (tls_error, string list) result" where
  "certs L files path =
     and_then (ok_or CannotRead (files path)) (\<lambda>text.
     and_then (ok_or BadPem (parse_many L text)) (\<lambda>blocks.
       let certs = map pb_contents (filter (\<lambda>b. pb_tag b = ''CERTIFICATE'') blocks)
       in if certs = [] then Inl NoCertificate else Inr certs))"

definition private_key :: "('roots, 'verifier, 'client, 'server) tls_lib \<Rightarrow> (string \<Rightarrow> string option) \<Rightarrow> string \<Rightarrow> (tls_error, string) result" where
  "private_key L files path =
     and_then (ok_or CannotRead (files path)) (\<lambda>text.
     and_then (ok_or BadPem (parse_many L text)) (\<lambda>blocks.
       ok_or NoPrivateKey (map_option pb_contents (find (\<lambda>b. pb_tag b = ''PRIVATE KEY'') blocks))))"

fun add_roots :: "('roots, 'verifier, 'client, 'server) tls_lib \<Rightarrow> 'roots \<Rightarrow> string list \<Rightarrow> (tls_error, 'roots) result" where
  "add_roots L rs [] = Inr rs"
| "add_roots L rs (c # cs) = and_then (ok_or BadRoot (add_root L rs c)) (\<lambda>rs'. add_roots L rs' cs)"

definition roots :: "('roots, 'verifier, 'client, 'server) tls_lib \<Rightarrow> (string \<Rightarrow> string option) \<Rightarrow> string \<Rightarrow> (tls_error, 'roots) result" where
  "roots L files ca = and_then (certs L files ca) (add_roots L (no_roots L))"

definition load :: "('roots, 'verifier, 'client, 'server) tls_lib \<Rightarrow> (string \<Rightarrow> string option) \<Rightarrow> string \<Rightarrow> string \<Rightarrow> string \<Rightarrow>
    (tls_error, 'client) result" where
  "load L files ca cert key =
     and_then (roots L files ca) (\<lambda>rs. and_then (certs L files cert) (\<lambda>cs. and_then (private_key L files key) (\<lambda>k.
       ok_or BadKeyPair (client_config L rs cs k))))"

definition load_server :: "('roots, 'verifier, 'client, 'server) tls_lib \<Rightarrow> (string \<Rightarrow> string option) \<Rightarrow> string \<Rightarrow> string \<Rightarrow> string \<Rightarrow>
    (tls_error, 'server) result" where
  "load_server L files ca cert key =
     and_then (roots L files ca) (\<lambda>rs. and_then (ok_or BadVerifier (client_verifier L rs)) (\<lambda>v.
     and_then (certs L files cert) (\<lambda>cs. and_then (private_key L files key) (\<lambda>k.
       ok_or BadKeyPair (server_config L v cs k)))))"

lemma and_then_Inr: "and_then r f = Inr b \<longleftrightarrow> (\<exists>a. r = Inr a \<and> f a = Inr b)"
  by (cases r) (simp_all add: and_then_def)

lemma ok_or_Inr: "ok_or e x = Inr a \<longleftrightarrow> x = Some a"
  by (cases x) (simp_all add: ok_or_def)

lemmas tls_results = and_then_Inr ok_or_Inr

text \<open>The certificates of a file that can be read, and a trust store built from a list.\<close>

definition certificates_in :: "('roots, 'verifier, 'client, 'server) tls_lib \<Rightarrow> (string \<Rightarrow> string option) \<Rightarrow> string \<Rightarrow> string list" where
  "certificates_in L files path = (case Option.bind (files path) (parse_many L) of None \<Rightarrow> []
     | Some blocks \<Rightarrow> map pb_contents (filter (\<lambda>b. pb_tag b = ''CERTIFICATE'') blocks))"

definition trusting :: "('roots, 'verifier, 'client, 'server) tls_lib \<Rightarrow> string list \<Rightarrow> 'roots option" where
  "trusting L cs = fold (\<lambda>c rs. Option.bind rs (\<lambda>r. add_root L r c)) cs (Some (no_roots L))"

lemma certs_exact: "certs L files path = Inr cs \<longleftrightarrow> cs \<noteq> [] \<and> certificates_in L files path = cs"
  by (auto simp: certs_def certificates_in_def tls_results Let_def split: option.splits bind_splits)

lemma fold_bind_None: "fold (\<lambda>c rs. Option.bind rs (\<lambda>r. f r c)) cs None = None"
  by (induction cs) simp_all

lemma add_roots_exact: "add_roots L rs cs = Inr rs' \<longleftrightarrow> fold (\<lambda>c rs. Option.bind rs (\<lambda>r. add_root L r c)) cs (Some rs) = Some rs'"
proof (induction cs arbitrary: rs)
  case (Cons c cs)
  then show ?case by (cases "add_root L rs c") (simp_all add: and_then_def ok_or_def fold_bind_None)
qed simp

lemma roots_exact: "roots L files ca = Inr rs \<longleftrightarrow> certificates_in L files ca \<noteq> [] \<and> trusting L (certificates_in L files ca) = Some rs"
  by (auto simp: roots_def tls_results certs_exact add_roots_exact trusting_def)

definition key_in :: "('roots, 'verifier, 'client, 'server) tls_lib \<Rightarrow> (string \<Rightarrow> string option) \<Rightarrow> string \<Rightarrow> string option" where
  "key_in L files path = Option.bind (Option.bind (files path) (parse_many L))
     (\<lambda>blocks. map_option pb_contents (find (\<lambda>b. pb_tag b = ''PRIVATE KEY'') blocks))"

lemma private_key_exact: "private_key L files path = Inr k \<longleftrightarrow> key_in L files path = Some k"
  by (auto simp: private_key_def key_in_def tls_results split: bind_splits)

text \<open>
  What a channel trusts is what its files say. A channel is set up only from a CA file with
  a certificate in it, a certificate file with a certificate in it and a key file with an unencrypted
  PKCS#8 key; it trusts exactly the certificates of the CA file, presents exactly the chain of the certificate
  file with the first such key, and a server is configured with the check of its
  clients against that trust store and never without one. Anything missing, unreadable or unfit is an error.
\<close>

theorem channels_are_mutual:
  "(load L files ca cert key = Inr c \<longleftrightarrow> (\<exists>rs k. certificates_in L files ca \<noteq> [] \<and> trusting L (certificates_in L files ca) = Some rs \<and>
      certificates_in L files cert \<noteq> [] \<and> key_in L files key = Some k \<and> client_config L rs (certificates_in L files cert) k = Some c)) \<and>
   (load_server L files ca cert key = Inr s \<longleftrightarrow> (\<exists>rs v k. certificates_in L files ca \<noteq> [] \<and>
      trusting L (certificates_in L files ca) = Some rs \<and> client_verifier L rs = Some v \<and>
      certificates_in L files cert \<noteq> [] \<and> key_in L files key = Some k \<and> server_config L v (certificates_in L files cert) k = Some s))"
  by (auto simp: load_def load_server_def tls_results roots_exact certs_exact private_key_exact)

subsection \<open>The connection\<close>

definition host_of :: "string \<Rightarrow> string" where
  "host_of addr = (case rsplit_once (CHR '':'') addr of None \<Rightarrow> addr | Some (host, _) \<Rightarrow> host)"

text \<open>
  \<open>valid_name\<close> says which host names a certificate can be checked against. Beside the bytes of the answer, \<open>exchange\<close> says
  how the other end closed the stream: with a TLS close notification or by ending the connection beneath it. The second is
  an error to whoever reads to the end, unless the limit has stopped the reading before.
\<close>

definition forward_tls :: "(string \<Rightarrow> bool) \<Rightarrow> (string \<Rightarrow> string \<Rightarrow> string \<Rightarrow> (string \<times> bool) option) \<Rightarrow> string \<Rightarrow> string \<Rightarrow> string option" where
  "forward_tls valid_name exchange addr request =
     (if \<not> valid_name (host_of addr) then None
      else (case exchange addr (host_of addr) request of
          None \<Rightarrow> None
        | Some (reply, notified) \<Rightarrow>
            if 32 * 1024 * 1024 \<le> length reply then Some (take (32 * 1024 * 1024) reply)
            else if notified then Some reply else None))"

subsection \<open>One request to the audit ingest\<close>

datatype post_error = NotHttps | BadAuthority | BadPort | BadHeader | NoReply | Refused

definition address_of :: "string \<Rightarrow> (post_error, string) result" where
  "address_of authority =
     (case rsplit_once (CHR '':'') authority of
        Some (host, port) \<Rightarrow> if CHR '':'' \<notin> set host \<and> parse_u16 port \<noteq> None then Inr authority else Inl BadPort
      | None \<Rightarrow> Inr (authority @ '':443''))"

definition header_writable :: "string \<times> string \<Rightarrow> bool" where
  "header_writable kv \<longleftrightarrow> set (fst kv) \<inter> {cr, nl, CHR '':''} = {} \<and> set (snd kv) \<inter> {cr, nl} = {}"

text \<open>The address and the bytes of the request, or why there is none.\<close>

definition post_request :: "string \<Rightarrow> (string \<times> string) list \<Rightarrow> string \<Rightarrow> (post_error, string \<times> string) result" where
  "post_request url headers body =
     and_then (ok_or NotHttps (strip_prefix ''https://'' url)) (\<lambda>rest.
       let (authority, suffix) = (case split_once (CHR ''/'') rest of None \<Rightarrow> (rest, []) | Some p \<Rightarrow> p) in
       if authority = [] \<or> set authority \<inter> {CHR ''@'', CHR ''?'', CHR ''#'', CHR '' ''} \<noteq> {} then Inl BadAuthority
       else and_then (address_of authority) (\<lambda>addr.
         if \<not> list_all header_writable headers then Inl BadHeader
         else Inr (addr, ''POST /'' @ suffix @ '' HTTP/1.1'' @ crlf @ ''Host: '' @ authority @ crlf @
           ''Content-Length: '' @ dec_str (length body) @ crlf @ ''Connection: close'' @ crlf @
           concat (map header_line headers) @ crlf @ body)))"

definition post :: "(string \<Rightarrow> bool) \<Rightarrow> (string \<Rightarrow> string \<Rightarrow> string \<Rightarrow> (string \<times> bool) option) \<Rightarrow> string \<Rightarrow> (string \<times> string) list \<Rightarrow> string \<Rightarrow>
    (post_error, unit) result" where
  "post valid_name exchange url headers body =
     and_then (post_request url headers body) (\<lambda>(addr, bytes).
     and_then (ok_or NoReply (forward_tls valid_name exchange addr bytes)) (\<lambda>reply.
       if starts_with ''HTTP/1.1 2'' reply \<or> starts_with ''HTTP/1.0 2'' reply then Inr () else Inl Refused))"

subsection \<open>A written request is read back\<close>

lemma words_of_plain:
  "\<forall>c\<in>set w. \<not> is_whitespace [c] \<Longrightarrow> words_of (map (\<lambda>c. [c]) (w @ s)) acc = words_of (map (\<lambda>c. [c]) s) (acc @ w)"
  by (induction w arbitrary: acc) simp_all

lemma blank_whitespace: "is_whitespace [CHR '' '']" "is_whitespace [cr]" "is_whitespace [nl]"
  by code_simp+

lemma printable_not_whitespace: "printable c \<Longrightarrow> c \<noteq> CHR '' '' \<Longrightarrow> \<not> is_whitespace [c]"
  using printable_plain [of c] by (simp add: ws_byte_def)

lemma words_of_word:
  assumes "\<forall>c\<in>set w. \<not> is_whitespace [c]" and "w \<noteq> []" and "is_whitespace [d]"
  shows "words_of (map (\<lambda>c. [c]) (w @ d # s)) [] = w # words_of (map (\<lambda>c. [c]) s) []"
  using words_of_plain [OF assms(1), of "d # s" "[]"] assms(2,3) by simp

lemma three_words:
  assumes "\<forall>c\<in>set a. \<not> is_whitespace [c]" and "a \<noteq> []" and "\<forall>c\<in>set b. \<not> is_whitespace [c]" and "b \<noteq> []"
    and "\<forall>c\<in>set e. \<not> is_whitespace [c]" and "e \<noteq> []" and "ascii a" and "ascii b" and "ascii e"
  shows "split_whitespace (a @ CHR '' '' # b @ CHR '' '' # e @ crlf) = [a, b, e]"
proof -
  have "ascii (a @ CHR '' '' # b @ CHR '' '' # e @ crlf)" using assms(7-9) by (simp add: ascii_def byte_def)
  then have "split_whitespace (a @ CHR '' '' # b @ CHR '' '' # e @ crlf) =
      words_of (map (\<lambda>c. [c]) (a @ CHR '' '' # b @ CHR '' '' # e @ cr # [nl])) []"
    by (simp only: split_whitespace_def uchars_ascii)
  also have "\<dots> = [a, b, e]"
    by (simp only: words_of_word [OF assms(1,2) blank_whitespace(1)] words_of_word [OF assms(3,4) blank_whitespace(1)]
        words_of_word [OF assms(5,6) blank_whitespace(2)] list.map words_of.simps blank_whitespace(3) if_True append.simps simp_thms)
  finally show ?thesis .
qed

lemma printable_word:
  assumes "list_all printable w" and "CHR '' '' \<notin> set w"
  shows "\<forall>c\<in>set w. \<not> is_whitespace [c]"
proof
  fix c
  assume c: "c \<in> set w"
  have "printable c" using assms(1) c unfolding list_all_iff by (rule bspec)
  moreover have "c \<noteq> CHR '' ''" using assms(2) c by metis
  ultimately show "\<not> is_whitespace [c]" by (rule printable_not_whitespace)
qed

definition request_bytes :: "string \<Rightarrow> string \<Rightarrow> (string \<times> string) list \<Rightarrow> string \<Rightarrow> string" where
  "request_bytes meth target fs body =
     (meth @ CHR '' '' # target @ CHR '' '' # ''HTTP/1.1'') @ crlf @ concat (map header_line fs) @ crlf @ body"

lemma start_words:
  "list_all printable ''POST''" "list_all printable ''HTTP/1.1''" "printable (CHR '' '')"
  "CHR '' '' \<notin> set ''POST''" "CHR '' '' \<notin> set ''HTTP/1.1''"
  by (code_simp, code_simp, code_simp, simp_all)

lemma start_line_words:
  assumes "list_all printable target" and "CHR '' '' \<notin> set target" and "target \<noteq> []"
  shows "split_whitespace (''POST'' @ CHR '' '' # target @ CHR '' '' # ''HTTP/1.1'' @ crlf) = [''POST'', target, ''HTTP/1.1'']"
proof (rule three_words)
  show "\<forall>c\<in>set ''POST''. \<not> is_whitespace [c]" "\<forall>c\<in>set target. \<not> is_whitespace [c]" "\<forall>c\<in>set ''HTTP/1.1''. \<not> is_whitespace [c]"
    using printable_word start_words assms by blast+
  show "ascii ''POST''" "ascii target" "ascii ''HTTP/1.1''"
    using visible_ascii start_words assms by blast+
qed (use assms(3) in simp_all)

lemma request_read_back:
  assumes "visible target" and "CHR '' '' \<notin> set target" and "list_all writable_field fs" and "length fs < max_headers"
    and "header_in ''content-length'' fs = Some (dec_str (length body))" and "length body \<le> max_body"
    and "is_ok (validate_http_smuggling fs)" and "length (filter (\<lambda>(k, _). eq_ignore_ascii_case k ''host'') fs) \<le> 1"
  shows "read_request True [request_bytes ''POST'' target fs body] =
    Inr (Some \<lparr>rq_method = ''POST'', rq_path = path_of target, rq_headers = fs, rq_body = body\<rparr>)"
proof -
  let ?l = "''POST'' @ CHR '' '' # target @ CHR '' '' # ''HTTP/1.1''" and ?rest = "concat (map header_line fs) @ crlf @ body"
  have v: "list_all printable target" "target \<noteq> []" "length target \<le> 4000" using assms(1) by (simp_all add: visible_def)
  have "list_all printable ?l" using v start_words(1-3) by (simp only: list_all_append list.pred_inject simp_thms)
  moreover have "length ?l < 8190" using v by simp
  ultimately
  have "read_bounded_line max_line_bytes True [?l @ crlf @ ?rest] = Inr (Some (?l @ crlf), unread ?rest [])"
    by (rule read_line_here)
  then have l: "read_bounded_line max_line_bytes True [request_bytes ''POST'' target fs body] = Inr (Some (?l @ crlf), [?rest])"
    by (simp add: request_bytes_def unread_def)
  have w: "split_whitespace (?l @ crlf) = [''POST'', target, ''HTTP/1.1'']"
    using start_line_words [OF v(1) assms(2) v(2)] by (simp only: append.assoc append_Cons)
  have h: "read_headers True [?rest] [] = Inr (fs, unread body [])"
    using read_headers_written [OF assms(3), of "[]" body] assms(4) by simp
  have "length body < 2 ^ 64" using assms(6) by (simp add: max_body_def)
  then have c: "content_length fs = length body" using assms(5) parse_uint_dec_str by (simp add: content_length_def)
  have e: "(if 0 < length body then read_exact (length body) (unread body []) else Inr []) = Inr body"
    by (simp add: read_exact_def)
  show ?thesis using assms(6-8)
    by (simp only: read_request_def l sum.case prod.case option.case w h c e Let_def) (simp add: nth_or_empty_def)
qed

end
