(* ===== verification/Audit_Export.thy ===== *)
theory Audit_Export
  imports Backend_Tls Admission
begin

text \<open>
  The way of an audit record from one machine to another: the writer thread of
  \<^verbatim>\<open>src/audit.rs\<close>, the request of \<^verbatim>\<open>src/backend_tls.rs\<close> and the ingest of
  \<^verbatim>\<open>src/main.rs\<close>, put together.
\<close>

text \<open>
  The ingest at the other end of the connection, which receives the request in one piece. The thread drops the stream when the
  handler returns: the connection is closed, and no close notification is sent.
\<close>

definition ingest_service :: "(string \<Rightarrow> json option) \<Rightarrow> string \<Rightarrow> audit_log \<Rightarrow> string \<Rightarrow> (string \<times> bool) option \<times> audit_log" where
  "ingest_service from_slice key fs bytes =
     (case handle_audit_ingest_connection from_slice True key True [bytes] fs of
        (reply, fs') \<Rightarrow> (map_option (\<lambda>r. (r, False)) reply, fs'))"

definition export_fields :: "string \<Rightarrow> string \<Rightarrow> string \<Rightarrow> (string \<times> string) list" where
  "export_fields authority key event =
     [(''Host'', authority), (''Content-Length'', dec_str (length event)), (''Connection'', ''close'')] @ remote_headers key event"

lemma hex_visible:
  assumes "is_hex64 h"
  shows "visible (''sha256='' @ h) \<and> cr \<notin> set (''sha256='' @ h) \<and> nl \<notin> set (''sha256='' @ h)"
proof -
  have d: "printable c \<and> c \<noteq> CHR '' ''" if "is_ascii_hexdigit c" for c
    using that by (auto simp: printable_def ascii_class_defs byte_def)
  have h: "h \<noteq> []" "length h = 64" "\<forall>c\<in>set h. is_ascii_hexdigit c" using assms by (auto simp: is_hex64_def list_all_iff)
  then have "list_all printable h" "last h \<noteq> CHR '' ''" using d last_in_set [OF h(1)] by (auto simp: list_all_iff)
  moreover have p: "list_all printable ''sha256=''" by code_simp
  ultimately have v: "visible (''sha256='' @ h)" using h by (simp add: visible_def)
  then have "list_all printable (''sha256='' @ h)" by (simp only: visible_def)
  from visible_ascii [OF this] v show ?thesis by blast
qed

lemma export_consts:
  "visible ''Host''" "visible ''Content-Length''" "visible ''Connection''" "visible ''close''" "visible ''Content-Type''"
  "visible ''application/json''" "visible ''X-Glasir-Audit-Signature''"
  by code_simp+

lemma export_names:
  "to_ascii_lowercase ''Host'' = ''host''" "to_ascii_lowercase ''Content-Length'' = ''content-length''"
  "to_ascii_lowercase ''Connection'' = ''connection''" "to_ascii_lowercase ''Content-Type'' = ''content-type''"
  "to_ascii_lowercase ''X-Glasir-Audit-Signature'' = ''x-glasir-audit-signature''"
  by code_simp+

lemma lower_keys:
  "to_ascii_lowercase ''content-length'' = ''content-length''" "to_ascii_lowercase ''host'' = ''host''"
  "to_ascii_lowercase ''x-glasir-audit-signature'' = ''x-glasir-audit-signature''"
  by code_simp+

lemma export_fields_found:
  "header_in ''content-length'' (export_fields authority key event) = Some (dec_str (length event))"
  "header_in ''x-glasir-audit-signature'' (export_fields authority key event) = Some (''sha256='' @ hmac_sha256_hex key event)"
  "length (filter (\<lambda>(k, _). eq_ignore_ascii_case k ''host'') (export_fields authority key event)) \<le> 1"
  "length (export_fields authority key event) < max_headers"
  by (simp_all add: export_fields_def remote_headers_def header_in_def eq_ignore_ascii_case_def export_names lower_keys max_headers_def)

lemma export_fields_unambiguous: "length event < 2 ^ 64 \<Longrightarrow> is_ok (validate_http_smuggling (export_fields authority key event))"
proof -
  assume "length event < 2 ^ 64"
  then have "trim (dec_str (length event)) = dec_str (length event)" "dec_str (length event) \<noteq> []"
    using visible_dec_str [of "length event"] visible_trim by (auto simp: visible_def)
  then have "validate_http_smuggling (export_fields authority key event) = Inr ()"
    using dec_str_digits [of "length event"]
    by (simp add: smuggling_ok export_fields_def remote_headers_def export_names)
  then show ?thesis by (simp add: is_ok_def)
qed

lemma export_fields_writable:
  assumes "visible authority" and "length event < 2 ^ 64"
  shows "list_all writable_field (export_fields authority key event)"
proof -
  note s = hex_visible [OF hmac_hex_shape [of key event]]
  have "CHR '':'' \<notin> set ''Host''" "CHR '':'' \<notin> set ''Content-Length''" "CHR '':'' \<notin> set ''Connection''"
    "CHR '':'' \<notin> set ''Content-Type''" "CHR '':'' \<notin> set ''X-Glasir-Audit-Signature''" by simp_all
  then show ?thesis using assms(1) visible_dec_str [OF assms(2)] s export_consts
    by (simp only: export_fields_def remote_headers_def writable_field_def list_all_append list.pred_inject fst_conv snd_conv simp_thms)
qed

lemma export_request:
  assumes "authority \<noteq> []" and "set authority \<inter> {CHR ''/'', CHR ''@'', CHR ''?'', CHR ''#'', CHR '' ''} = {}"
    and "address_of authority = Inr addr"
  shows "post_request (''https://'' @ authority @ CHR ''/'' # suffix) (remote_headers key event) event =
    Inr (addr, request_bytes ''POST'' (CHR ''/'' # suffix) (export_fields authority key event) event)"
proof -
  have sp: "split_once (CHR ''/'') (authority @ CHR ''/'' # suffix) = Some (authority, suffix)"
    using assms(2) by (intro split_once_append) auto
  have "list_all header_writable (remote_headers key event)"
  proof -
    have "header_writable (''Content-Type'', ''application/json'')"
      "set ''X-Glasir-Audit-Signature'' \<inter> {cr, nl, CHR '':''} = {}" by code_simp+
    moreover note s = hex_visible [OF hmac_hex_shape [of key event]]
    ultimately show ?thesis
      by (simp only: remote_headers_def list.pred_inject header_writable_def fst_conv snd_conv simp_thms) blast
  qed
  moreover have "strip_prefix ''https://'' (''https://'' @ authority @ CHR ''/'' # suffix) = Some (authority @ CHR ''/'' # suffix)"
    by (rule strip_prefix_append)
  ultimately show ?thesis using assms
    by (simp only: post_request_def and_then_def ok_or_def option.case sum.case sp prod.case Let_def)
      (simp add: request_bytes_def export_fields_def header_line_def)
qed

abbreviation ingest_url :: "string \<Rightarrow> string" where
  "ingest_url authority \<equiv> ''https://'' @ authority @ CHR ''/'' # ''v1/events''"

lemma ingest_target: "visible (CHR ''/'' # ''v1/events'')" "CHR '' '' \<notin> set (CHR ''/'' # ''v1/events'')"
  "path_of (CHR ''/'' # ''v1/events'') = ''/v1/events''"
  by (code_simp, simp, code_simp)

lemma service_accepts:
  assumes "visible authority" and "length event \<le> max_body" and "from_slice event = Some v" and "as_object v \<noteq> None"
  shows "ingest_service from_slice key fs (request_bytes ''POST'' (CHR ''/'' # ''v1/events'') (export_fields authority key event) event) =
    (Some (respond_audit ''204 No Content'' [], False), append_line event fs)"
proof -
  let ?b = "request_bytes ''POST'' (CHR ''/'' # ''v1/events'') (export_fields authority key event) event"
  let ?rq = "\<lparr>rq_method = ''POST'', rq_path = ''/v1/events'', rq_headers = export_fields authority key event, rq_body = event\<rparr>"
  have l: "length event < 2 ^ 64" using assms(2) by (simp add: max_body_def)
  have r: "read_request True [?b] = Inr (Some ?rq)"
    using request_read_back [OF ingest_target(1,2) export_fields_writable [OF assms(1) l] export_fields_found(4) export_fields_found(1)
        assms(2) export_fields_unambiguous [OF l] export_fields_found(3)]
    by (simp only: ingest_target(3))
  have "genuine from_slice key ?rq"
    using assms(3,4) export_fields_found(2) by (simp add: genuine_def header_def)
  then show ?thesis using r by (simp add: ingest_service_def handle_ingest_exact accepted_body_def)
qed

lemma accepted_reply:
  "starts_with ''HTTP/1.1 2'' (respond_audit ''204 No Content'' [])" "length (respond_audit ''204 No Content'' []) \<le> 4000"
proof -
  have "respond_audit ''204 No Content'' [] = ''HTTP/1.1 2'' @ drop 10 (respond_audit ''204 No Content'' [])" by code_simp
  then show "starts_with ''HTTP/1.1 2'' (respond_audit ''204 No Content'' [])" using starts_with_append by metis
qed code_simp

lemma export_posts:
  assumes "visible authority" and "set authority \<inter> {CHR ''/'', CHR ''@'', CHR ''?'', CHR ''#'', CHR '' ''} = {}"
    and "address_of authority = Inr addr" and "valid_name (host_of addr)"
    and "\<And>bytes. post_request (ingest_url authority) (remote_headers key event) event = Inr (addr, bytes) \<Longrightarrow>
      exchange addr (host_of addr) bytes = Some (respond_audit ''204 No Content'' [], notified)"
  shows "is_ok (post valid_name exchange (ingest_url authority) (remote_headers key event) event) = notified"
proof -
  have "authority \<noteq> []" using assms(1) by (simp add: visible_def)
  from export_request [OF this assms(2,3), of "''v1/events''" key event]
  have p: "post_request (ingest_url authority) (remote_headers key event) event =
    Inr (addr, request_bytes ''POST'' (CHR ''/'' # ''v1/events'') (export_fields authority key event) event)" .
  have "\<not> 32 * 1024 * 1024 \<le> length (respond_audit ''204 No Content'' [])" using accepted_reply(2) by linarith
  then show ?thesis using assms(4) assms(5) [OF p] accepted_reply(1)
    by (simp only: post_def p and_then_def sum.case prod.case forward_tls_def ok_or_def option.case simp_thms if_True if_False)
      (cases notified; simp add: is_ok_def)
qed

text \<open>
  C38. What one machine exports, the other one collects, and the exporter counts it as lost. Whenever the writer takes a record off the
  queue and its local write succeeds, the request it posts to the ingest is read there as
  the event it was, its signature is found genuine under the common key, and exactly the event's
  line is appended to the collected log. But the ingest ends its stream without a close
  notification, which the exporter's reading to the end takes for an error: the counter of failed exports goes up by
  one for each such record. The notification alone is missing: had the same answer ended with it, the counter would stay as it is.
  This puts together the rendering of the record, the signature, the request writer, the request reader, the ingest and the answer.
  The record must fit the body limit of a request, and the JSON reader must read it as an object.
\<close>

theorem export_arrives:
  assumes "visible authority" and "set authority \<inter> {CHR ''/'', CHR ''@'', CHR ''?'', CHR ''#'', CHR '' ''} = {}"
    and "address_of authority = Inr addr" and "valid_name (host_of addr)"
    and "q_queue q = r # rest" and "event = format_jsonl r (q_missed q + q_dropped q)"
    and "length event \<le> max_body" and "from_slice event = Some v" and "as_object v \<noteq> None"
    and "is_ok (fst (write_record from_str io signing r (q_missed q + q_dropped q) log))"
  shows "(\<exists>bytes. post_request (ingest_url authority) (remote_headers key event) event = Inr (addr, bytes) \<and>
      ingest_service from_slice key fs bytes = (Some (respond_audit ''204 No Content'' [], False), append_line event fs)) \<and>
    q_remote_failed (fst (writer_turn from_str
      (\<lambda>url hs body. is_ok (post valid_name (\<lambda>_ _ bytes. fst (ingest_service from_slice key fs bytes)) url hs body))
      signing (Some (ingest_url authority, key)) io q log)) = q_remote_failed q + 1 \<and>
    q_remote_failed (fst (writer_turn from_str
      (\<lambda>url hs body. is_ok (post valid_name
        (\<lambda>_ _ bytes. map_option (\<lambda>(reply, _). (reply, True)) (fst (ingest_service from_slice key fs bytes))) url hs body))
      signing (Some (ingest_url authority, key)) io q log)) = q_remote_failed q"
proof -
  have "authority \<noteq> []" using assms(1) by (simp add: visible_def)
  from export_request [OF this assms(2,3), of "''v1/events''" key event] service_accepts [where from_slice = from_slice and key = key and fs = fs, OF assms(1,7-9)]
  obtain bytes where b: "post_request (ingest_url authority) (remote_headers key event) event = Inr (addr, bytes)"
      "ingest_service from_slice key fs bytes = (Some (respond_audit ''204 No Content'' [], False), append_line event fs)"
    by blast
  have turn: "q_remote_failed (fst (writer_turn from_str (\<lambda>url hs body. is_ok (post valid_name exchange url hs body))
      signing (Some (ingest_url authority, key)) io q log)) = q_remote_failed q + (if notified then 0 else 1)"
    if "exchange addr (host_of addr) bytes = Some (respond_audit ''204 No Content'' [], notified)" for exchange notified
  proof -
    have "is_ok (post valid_name exchange (ingest_url authority) (remote_headers key event) event) = notified"
      by (rule export_posts [where valid_name = valid_name, OF assms(1-4)]) (use b that in simp)
    moreover obtain next' log' where "write_record from_str io signing r (q_missed q + q_dropped q) log = (Inr next', log')"
      using assms(10) by (cases "write_record from_str io signing r (q_missed q + q_dropped q) log") (auto simp: is_ok_def split: sum.splits)
    ultimately show ?thesis using assms(5,6) by (simp add: writer_turn_def Let_def)
  qed
  show ?thesis
    using b turn [of "\<lambda>_ _ bytes. fst (ingest_service from_slice key fs bytes)" False]
      turn [of "\<lambda>_ _ bytes. map_option (\<lambda>(reply, _). (reply, True)) (fst (ingest_service from_slice key fs bytes))" True]
    by simp
qed

theorem export_arrives_witness:
  "\<exists>bytes. post_request (ingest_url ''audit.example:8443'') (remote_headers ''0123456789abcdef0123456789abcdef'' (format_jsonl sample_record 3))
      (format_jsonl sample_record 3) = Inr (''audit.example:8443'', bytes) \<and>
    ingest_service (\<lambda>_. Some (JObj [])) ''0123456789abcdef0123456789abcdef'' empty_log bytes =
      (Some (respond_audit ''204 No Content'' [], False), append_line (format_jsonl sample_record 3) empty_log)"
proof -
  let ?q = "\<lparr>q_queue = [sample_record], q_dropped = 2, q_missed = 1, q_remote_failed = 0\<rparr>"
  have v: "visible ''audit.example:8443''" "address_of ''audit.example:8443'' = Inr ''audit.example:8443''"
    "length (format_jsonl sample_record 3) \<le> 1000" by code_simp+
  have d: "set ''audit.example:8443'' \<inter> {CHR ''/'', CHR ''@'', CHR ''?'', CHR ''#'', CHR '' ''} = {}" by simp
  have q: "q_queue ?q = sample_record # []" by simp
  have e: "format_jsonl sample_record 3 = format_jsonl sample_record (q_missed ?q + q_dropped ?q)" by (simp add: eval_nat_numeral)
  have l: "length (format_jsonl sample_record 3) \<le> max_body" using v(3) by (simp add: max_body_def)
  have w: "is_ok (fst (write_record (\<lambda>_. None) (True, (True, True), True) None sample_record (q_missed ?q + q_dropped ?q) empty_log))"
    by code_simp
  show ?thesis
    using export_arrives [where valid_name = "\<lambda>_. True" and from_slice = "\<lambda>_. Some (JObj [])" and v = "JObj []" and
      key = "''0123456789abcdef0123456789abcdef''" and fs = empty_log, OF v(1) d v(2) _ q e l _ _ w] by simp
qed

end
