(* ===== verification/Startup.thy ===== *)
theory Startup
  imports Server Backend_Tls Admission
begin

text \<open>
  \<^verbatim>\<open>main\<close> of \<^verbatim>\<open>src/main.rs\<close> up to the first connection: the options, the commands that
  end at once, the configuration and the refusals to start. \<open>machine\<close> is what the program
  finds: its arguments, the files, the environment, the clock, the libraries, the
  code hosts, and whether an address can be bound and the rights file written. A rate that is no
  number of the reals (\<^verbatim>\<open>NaN\<close>, infinities) is outside \<open>mc_parse_f64\<close>.
\<close>

subsection \<open>What the program finds, and how it can end\<close>

record ('roots, 'verifier, 'client, 'server) machine =
  mc_argv :: "string list"
  mc_files :: "string \<Rightarrow> fs_file"
  mc_env :: "string \<Rightarrow> string option"
  mc_now :: nat
  mc_from_str :: "string \<Rightarrow> json option"
  mc_parse_f64 :: "string \<Rightarrow> real option"
  mc_tls :: "('roots, 'verifier, 'client, 'server) tls_lib"
  mc_segments :: "string \<Rightarrow> audit_log"
  mc_http :: "http_request \<Rightarrow> (remote_error, json list) result"
  mc_write :: bool
  mc_bind :: "string \<Rightarrow> bool"
  mc_static :: config

datatype boot_error =
  NotGiven string | NotTogether string | FileUnreadable string | InvalidEvidence | ShortAuditKey | TlsUnusable tls_error
| LogInvalid audit_error | RightsInvalid "issue list" | ActionFailed sync_error | MappingInvalid mapping_error
| IngestRefused | BindFailed

text \<open>\<^verbatim>\<open>main\<close> returns an error, or the process exits with a status.\<close>

datatype ending = ReturnErr boot_error | ExitWith nat

datatype printed =
  Help | Version string | AuditVerified nat | AccessReview json | Granted string string | Revoked string string
| Valid rights_report tokens_report

record 'client audit_setup =
  au_path :: string
  au_key :: "string option"
  au_remote_url :: "string option"
  au_remote_key :: "string option"
  au_remote_tls :: "'client option"

record 'client service_setup =
  so_rate_limit :: real
  so_backend_tls :: "'client option"
  so_oidc :: "(oidc \<times> string) option"
  so_sso :: "sso option"
  so_max_age :: "nat option"
  so_interval :: "nat option"

record 'client service =
  se_listen :: string
  se_config :: config
  se_limiter :: limiter
  se_audit :: "'client audit_setup option"
  se_backend_tls :: "'client option"
  se_interval :: "nat option"
  se_jwks :: "string option"
  se_rights :: string
  se_tokens :: string
  se_proposals :: string

datatype ('client, 'server) started = Ingesting string string string 'server | Printed printed | Serving "'client service"

subsection \<open>Options\<close>

definition position :: "string \<Rightarrow> string list \<Rightarrow> nat option" where
  "position k argv = (if k \<in> set argv then Some (length (takeWhile (\<lambda>a. a \<noteq> k) argv)) else None)"

definition opt_val :: "('r, 'v, 'c, 's) machine \<Rightarrow> string \<Rightarrow> string option" where
  "opt_val m k = (case position k (mc_argv m) of None \<Rightarrow> None
     | Some i \<Rightarrow> if i + 1 < length (mc_argv m) then Some (mc_argv m ! (i + 1)) else None)"

definition val :: "('r, 'v, 'c, 's) machine \<Rightarrow> string \<Rightarrow> string \<Rightarrow> string" where
  "val m k d = (case opt_val m k of None \<Rightarrow> d | Some v \<Rightarrow> v)"

definition given :: "('r, 'v, 'c, 's) machine \<Rightarrow> string \<Rightarrow> bool" where
  "given m k \<longleftrightarrow> k \<in> set (mc_argv m)"

datatype triple = Absent | Whole string string string | Partial

definition triple_of :: "('r, 'v, 'c, 's) machine \<Rightarrow> string \<Rightarrow> string \<Rightarrow> string \<Rightarrow> triple" where
  "triple_of m a b c = (case (opt_val m a, opt_val m b, opt_val m c) of
       (None, None, None) \<Rightarrow> Absent
     | (Some x, Some y, Some z) \<Rightarrow> Whole x y z
     | _ \<Rightarrow> Partial)"

definition read_bytes :: "('r, 'v, 'c, 's) machine \<Rightarrow> string \<Rightarrow> (ending, string) result" where
  "read_bytes m path = (case mc_files m path of None \<Rightarrow> Inl (ReturnErr (FileUnreadable path)) | Some (_, bytes) \<Rightarrow> Inr bytes)"

definition read_text_file :: "('r, 'v, 'c, 's) machine \<Rightarrow> string \<Rightarrow> (ending, string) result" where
  "read_text_file m path = ok_or (ReturnErr (FileUnreadable path)) (read_to_string (mc_files m path))"

definition tls_files :: "('r, 'v, 'c, 's) machine \<Rightarrow> string \<Rightarrow> string option" where
  "tls_files m path = read_to_string (mc_files m path)"

definition tls_result :: "(tls_error, 'a) result \<Rightarrow> (ending, 'a) result" where
  "tls_result r = (case r of Inl e \<Rightarrow> Inl (ReturnErr (TlsUnusable e)) | Inr a \<Rightarrow> Inr a)"

definition rights_path :: "('r, 'v, 'c, 's) machine \<Rightarrow> string" where
  "rights_path m = val m ''--rights'' ''glasir-rights.tsv''"

definition tokens_path :: "('r, 'v, 'c, 's) machine \<Rightarrow> string" where
  "tokens_path m = val m ''--tokens'' ''glasir.tokens''"

subsection \<open>The audit ingest\<close>

definition ingest_mode :: "('r, 'v, 'c, 's) machine \<Rightarrow> string \<Rightarrow> (ending, ('c, 's) started) result" where
  "ingest_mode m addr =
     and_then (ok_or (ReturnErr (NotGiven ''--audit-ingest-store'')) (opt_val m ''--audit-ingest-store'')) (\<lambda>store.
     and_then (ok_or (ReturnErr (NotGiven ''--audit-ingest-key-file'')) (opt_val m ''--audit-ingest-key-file'')) (\<lambda>key_file.
     and_then (case triple_of m ''--audit-ingest-tls-ca'' ''--audit-ingest-tls-cert'' ''--audit-ingest-tls-key'' of
         Absent \<Rightarrow> Inl (ReturnErr (NotGiven ''--audit-ingest-tls-ca''))
       | Whole ca cert key \<Rightarrow> tls_result (load_server (mc_tls m) (tls_files m) ca cert key)
       | Partial \<Rightarrow> Inl (ReturnErr (NotTogether ''--audit-ingest-tls-ca''))) (\<lambda>tls.
     and_then (read_bytes m key_file) (\<lambda>key.
       if run_audit_ingest (mc_bind m addr) key then Inr (Ingesting addr store key tls) else Inl (ReturnErr IngestRefused)))))"

subsection \<open>Evidence and audit\<close>

definition evidence_option :: "('r, 'v, 'c, 's) machine \<Rightarrow> (ending, json option) result" where
  "evidence_option m = (case opt_val m ''--cross-repo-evidence'' of None \<Rightarrow> Inr None
     | Some path \<Rightarrow> and_then (read_text_file m path) (\<lambda>text.
         and_then (ok_or (ReturnErr InvalidEvidence) (mc_from_str m text)) (\<lambda>v. Inr (Some v))))"

definition audit_key_option :: "('r, 'v, 'c, 's) machine \<Rightarrow> (ending, string option) result" where
  "audit_key_option m = (case opt_val m ''--audit-key-file'' of None \<Rightarrow> Inr None
     | Some path \<Rightarrow> and_then (read_bytes m path) (\<lambda>key.
         if length key < 32 then Inl (ReturnErr ShortAuditKey) else Inr (Some key)))"

definition remote_tls_option :: "('r, 'v, 'c, 's) machine \<Rightarrow> string option \<Rightarrow> (ending, 'c option) result" where
  "remote_tls_option m url =
     (case triple_of m ''--audit-remote-tls-ca'' ''--audit-remote-tls-cert'' ''--audit-remote-tls-key'' of
        Absent \<Rightarrow> if url = None then Inr None else Inl (ReturnErr (NotGiven ''--audit-remote-tls-ca''))
      | Whole ca cert key \<Rightarrow>
          if url \<noteq> None then and_then (tls_result (load (mc_tls m) (tls_files m) ca cert key)) (\<lambda>c. Inr (Some c))
          else Inl (ReturnErr (NotGiven ''--audit-remote-url''))
      | Partial \<Rightarrow> Inl (ReturnErr (NotTogether ''--audit-remote-tls-ca'')))"

definition audit_options :: "('r, 'v, 'c, 's) machine \<Rightarrow> (ending, 'c audit_setup) result" where
  "audit_options m =
     and_then (audit_key_option m) (\<lambda>key.
     let url = opt_val m ''--audit-remote-url'' in
     and_then (case opt_val m ''--audit-remote-key-file'' of None \<Rightarrow> Inr None
       | Some path \<Rightarrow> and_then (read_bytes m path) (\<lambda>k. Inr (Some k))) (\<lambda>remote_key.
     if (url \<noteq> None) \<noteq> (remote_key \<noteq> None) then Inl (ReturnErr (NotTogether ''--audit-remote-url''))
     else and_then (remote_tls_option m url) (\<lambda>tls.
       Inr \<lparr>au_path = val m ''--audit'' ''glasir-control-audit.jsonl'', au_key = key, au_remote_url = url, au_remote_key = remote_key,
            au_remote_tls = tls\<rparr>)))"

subsection \<open>Commands that end at once\<close>

definition verify_audit :: "('r, 'v, 'c, 's) machine \<Rightarrow> string option \<Rightarrow> string \<Rightarrow> (ending, ('c, 's) started) result" where
  "verify_audit m key path =
     and_then (ok_or (ReturnErr (NotGiven ''--audit-key-file'')) key) (\<lambda>k.
     (case verify (mc_from_str m) k (mc_segments m path) of
        Inl e \<Rightarrow> Inl (ReturnErr (LogInvalid e))
      | Inr n \<Rightarrow> Inr (Printed (AuditVerified n))))"

definition access_review_mode :: "('r, 'v, 'c, 's) machine \<Rightarrow> (ending, ('c, 's) started) result" where
  "access_review_mode m = and_then (read_text_file m (rights_path m)) (\<lambda>text.
     let validation = validate_text text in
     if \<not> report_is_valid validation then Inl (ReturnErr (RightsInvalid (rep_errors validation)))
     else Inr (Printed (AccessReview (access_review (parse text)))))"

text \<open>The second component is what was written to the rights file, if anything was.\<close>

definition sync_command :: "('r, 'v, 'c, 's) machine \<Rightarrow> (string \<Rightarrow> string \<Rightarrow> sync_action) \<Rightarrow> (string \<Rightarrow> string \<Rightarrow> printed) \<Rightarrow> string \<Rightarrow>
    (ending, ('c, 's) started) result \<times> string option" where
  "sync_command m action message spec = (case split_once (CHR '':'') spec of
       None \<Rightarrow> (Inl (ExitWith 1), None)
     | Some (user, t) \<Rightarrow>
         (case apply_sync_action (mc_write m) (action user t) (read_to_string (mc_files m (rights_path m))) of
            (Inl e, _) \<Rightarrow> (Inl (ReturnErr (ActionFailed e)), None)
          | (Inr _, file) \<Rightarrow> (Inr (Printed (message user t)), file)))"

definition run_validation :: "('r, 'v, 'c, 's) machine \<Rightarrow> (ending, ('c, 's) started) result" where
  "run_validation m =
     (case (read_to_string (mc_files m (rights_path m)), read_to_string (mc_files m (tokens_path m))) of
        (Some rights_text, Some tokens_text) \<Rightarrow>
          let rights = validate_text rights_text; tokens = validate_tokens tokens_text (mc_now m) in
          if \<not> report_is_valid rights \<or> tr_errors tokens \<noteq> [] then Inl (ExitWith 1)
          else Inr (Printed (Valid rights tokens))
      | _ \<Rightarrow> Inl (ExitWith 1))"

subsection \<open>Service options\<close>

definition or_default :: "'a option \<Rightarrow> 'a \<Rightarrow> 'a" where
  "or_default x d = (case x of None \<Rightarrow> d | Some a \<Rightarrow> a)"

definition rate_limit_option :: "('r, 'v, 'c, 's) machine \<Rightarrow> real" where
  "rate_limit_option m = or_default (mc_parse_f64 m (val m ''--rate-limit'' ''200.0'')) 200"

definition backend_tls_option :: "('r, 'v, 'c, 's) machine \<Rightarrow> (ending, 'c option) result" where
  "backend_tls_option m =
     (case triple_of m ''--backend-tls-ca'' ''--backend-tls-cert'' ''--backend-tls-key'' of
        Absent \<Rightarrow> Inr None
      | Whole ca cert key \<Rightarrow> and_then (tls_result (load (mc_tls m) (tls_files m) ca cert key)) (\<lambda>c. Inr (Some c))
      | Partial \<Rightarrow> Inl (ReturnErr (NotTogether ''--backend-tls-ca'')))"

definition oidc_option :: "('r, 'v, 'c, 's) machine \<Rightarrow> (ending, (oidc \<times> string) option) result" where
  "oidc_option m =
     (case triple_of m ''--oidc-issuer'' ''--oidc-audience'' ''--oidc-jwks'' of
        Absent \<Rightarrow> Inr None
      | Whole issuer audience jwks \<Rightarrow> Inr (Some (\<lparr>o_issuer = issuer, o_audience = audience,
          o_subject_claim = val m ''--oidc-subject-claim'' ''sub'',
          o_groups_claim = val m ''--oidc-groups-claim'' ''groups''\<rparr>, jwks))
      | Partial \<Rightarrow> Inl (ExitWith 2))"

definition sso_option :: "('r, 'v, 'c, 's) machine \<Rightarrow> bool \<Rightarrow> (ending, sso option) result" where
  "sso_option m oidc =
     (case triple_of m ''--oidc-client-id'' ''--oidc-authorization-endpoint'' ''--oidc-token-endpoint'' of
        Absent \<Rightarrow> Inr None
      | Whole client_id authorization token \<Rightarrow>
          if oidc then (case sso_new client_id authorization token (val m ''--oidc-scope'' ''openid'') of
              Inr sso \<Rightarrow> Inr (Some sso)
            | Inl _ \<Rightarrow> Inl (ExitWith 2))
          else Inl (ExitWith 2)
      | Partial \<Rightarrow> Inl (ExitWith 2))"

definition seconds_option :: "('r, 'v, 'c, 's) machine \<Rightarrow> string \<Rightarrow> (ending, nat option) result" where
  "seconds_option m k = (case opt_val m k of None \<Rightarrow> Inr None
     | Some s \<Rightarrow> (case parse_u64 s of
         None \<Rightarrow> Inl (ExitWith 2)
       | Some n \<Rightarrow> if n = 0 then Inl (ExitWith 2) else Inr (Some n)))"

definition service_options :: "('r, 'v, 'c, 's) machine \<Rightarrow> (ending, 'c service_setup) result" where
  "service_options m =
     and_then (backend_tls_option m) (\<lambda>tls.
     and_then (oidc_option m) (\<lambda>oidc.
     and_then (sso_option m (oidc \<noteq> None)) (\<lambda>sso.
     and_then (seconds_option m ''--sync-max-age'') (\<lambda>age.
     and_then (seconds_option m ''--sync-interval'') (\<lambda>interval.
       Inr \<lparr>so_rate_limit = rate_limit_option m, so_backend_tls = tls, so_oidc = oidc, so_sso = sso, so_max_age = age,
            so_interval = interval\<rparr>)))))"

definition sync_settings :: "('r, 'v, 'c, 's) machine \<Rightarrow> (ending, sync_config) result" where
  "sync_settings m =
     and_then (case opt_val m ''--repo-map'' of None \<Rightarrow> Inr []
       | Some path \<Rightarrow> (case load_repo_mapping (read_to_string (mc_files m path)) of
           Inl e \<Rightarrow> Inl (ReturnErr (MappingInvalid e))
         | Inr mapping \<Rightarrow> Inr mapping)) (\<lambda>mapping.
     Inr \<lparr>c_mapping = mapping, c_github_secret = opt_val m ''--github-secret'', c_gitlab_secret = opt_val m ''--gitlab-secret'',
          c_github_token = Option.bind (opt_val m ''--github-token-env'') (mc_env m),
          c_gitlab_token = Option.bind (opt_val m ''--gitlab-token-env'') (mc_env m)\<rparr>)"

subsection \<open>The service\<close>

definition configure :: "('r, 'v, 'c, 's) machine \<Rightarrow> json option \<Rightarrow> 'c audit_setup \<Rightarrow> 'c service_setup \<Rightarrow> sync_config \<Rightarrow> 'c service" where
  "configure m evidence audit so sync =
     \<lparr>se_listen = val m ''--listen'' ''127.0.0.1:8800'',
      se_config = (mc_static m)\<lparr>cf_sync := sync, cf_allowed_origin := opt_val m ''--allowed-origin'',
        cf_oidc := map_option fst (so_oidc so), cf_sso := so_sso so, cf_sync_max_age := so_max_age so, cf_evidence := evidence\<rparr>,
      se_limiter = new_limiter (so_rate_limit so) (so_rate_limit so * 2),
      se_audit = (if given m ''--no-audit'' then None else Some audit),
      se_backend_tls = so_backend_tls so, se_interval = so_interval so, se_jwks = map_option snd (so_oidc so),
      se_rights = rights_path m, se_tokens = tokens_path m,
      se_proposals = val m ''--policy-proposals'' ''glasir-policy-proposals''\<rparr>"

definition first_reconciliation :: "('r, 'v, 'c, 's) machine \<Rightarrow> 'c service \<Rightarrow> (ending, string option) result" where
  "first_reconciliation m se = (case se_interval se of None \<Rightarrow> Inr None
     | Some _ \<Rightarrow>
         let sync = cf_sync (se_config se) in
         if c_mapping sync = [] then Inl (ExitWith 2)
         else (case reconcile_remote (mc_http m) (mc_write m) (c_mapping sync) (c_github_token sync) (c_gitlab_token sync)
                 (read_to_string (mc_files m (se_rights se))) of
             (Inl _, _) \<Rightarrow> Inl (ExitWith 2)
           | (Inr _, file) \<Rightarrow> Inr file))"

definition serve_mode :: "('r, 'v, 'c, 's) machine \<Rightarrow> json option \<Rightarrow> 'c audit_setup \<Rightarrow> 'c service_setup \<Rightarrow>
    (ending, ('c, 's) started) result \<times> string option" where
  "serve_mode m evidence audit so = (case sync_settings m of Inl e \<Rightarrow> (Inl e, None)
     | Inr sync \<Rightarrow>
         let se = configure m evidence audit so sync in
         if so_oidc so = None \<and> read_entries (mc_files m (tokens_path m)) = [] then (Inl (ExitWith 2), None)
         else (case first_reconciliation m se of Inl e \<Rightarrow> (Inl e, None)
           | Inr file \<Rightarrow>
               if \<not> is_loopback (se_listen se) then (Inl (ExitWith 2), file)
               else if \<not> mc_bind m (se_listen se) then (Inl (ReturnErr BindFailed), file)
               else (Inr (Serving se), file)))"

definition startup :: "('r, 'v, 'c, 's) machine \<Rightarrow> (ending, ('c, 's) started) result \<times> string option" where
  "startup m = (case opt_val m ''--audit-ingest'' of Some addr \<Rightarrow> (ingest_mode m addr, None)
     | None \<Rightarrow>
     if given m ''--help'' \<or> given m ''-h'' then (Inr (Printed Help), None)
     else if given m ''--version'' \<or> given m ''-v'' then (Inr (Printed (Version (cf_version (mc_static m)))), None)
     else case evidence_option m of Inl e \<Rightarrow> (Inl e, None) | Inr evidence \<Rightarrow>
     case audit_options m of Inl e \<Rightarrow> (Inl e, None) | Inr audit \<Rightarrow>
     case opt_val m ''--verify-audit'' of Some path \<Rightarrow> (verify_audit m (au_key audit) path, None) | None \<Rightarrow>
     if given m ''--access-review'' then (access_review_mode m, None)
     else case service_options m of Inl e \<Rightarrow> (Inl e, None) | Inr so \<Rightarrow>
     case opt_val m ''--sync-grant'' of Some spec \<Rightarrow> sync_command m Grant Granted spec | None \<Rightarrow>
     case opt_val m ''--sync-revoke'' of Some spec \<Rightarrow> sync_command m Revoke Revoked spec | None \<Rightarrow>
     if given m ''--validate'' then (run_validation m, None)
     else serve_mode m evidence audit so)"

subsection \<open>How a service comes about\<close>

lemma result_case: "(case r of Inl e \<Rightarrow> (Inl e, None) | Inr a \<Rightarrow> h a) = (x, y) \<longleftrightarrow>
    (\<exists>e. r = Inl e \<and> x = Inl e \<and> y = None) \<or> (\<exists>a. r = Inr a \<and> h a = (x, y))"
  by (cases r) auto

lemma no_service [simp]:
  "ingest_mode m addr \<noteq> Inr (Serving se)" "verify_audit m k p \<noteq> Inr (Serving se)" "access_review_mode m \<noteq> Inr (Serving se)"
  "run_validation m \<noteq> Inr (Serving se)"
  by (auto simp: ingest_mode_def verify_audit_def access_review_mode_def run_validation_def tls_results Let_def
      split: option.splits sum.splits if_splits)

lemma no_service_sync [simp]: "sync_command m a msg spec \<noteq> (Inr (Serving se), f)"
  by (auto simp: sync_command_def split: option.splits sum.splits prod.splits)

lemma startup_serves:
  assumes "startup m = (Inr (Serving se), f)"
  shows "\<exists>evidence audit so. audit_options m = Inr audit \<and> service_options m = Inr so \<and> serve_mode m evidence audit so = (Inr (Serving se), f)"
proof -
  have "opt_val m ''--audit-ingest'' = None" "\<not> (given m ''--help'' \<or> given m ''-h'')" "\<not> (given m ''--version'' \<or> given m ''-v'')"
    using assms by (auto simp: startup_def split: option.splits if_splits)
  then show ?thesis using assms unfolding startup_def
    by (simp only: option.case if_False result_case) (auto simp: result_case split: option.splits if_splits)
qed

lemma serve_mode_serves:
  assumes "serve_mode m evidence audit so = (Inr (Serving se), f)"
  shows "\<exists>sync. sync_settings m = Inr sync \<and> se = configure m evidence audit so sync \<and>
    (so_oidc so \<noteq> None \<or> read_entries (mc_files m (tokens_path m)) \<noteq> []) \<and>
    first_reconciliation m se = Inr f \<and> is_loopback (se_listen se) \<and> mc_bind m (se_listen se)"
proof -
  obtain sync where y: "sync_settings m = Inr sync" using assms by (auto simp: serve_mode_def result_case)
  define c where "c = configure m evidence audit so sync"
  from assms have "c = se \<and> (so_oidc so \<noteq> None \<or> read_entries (mc_files m (tokens_path m)) \<noteq> []) \<and>
    first_reconciliation m c = Inr f \<and> is_loopback (se_listen c) \<and> mc_bind m (se_listen c)"
    unfolding serve_mode_def y sum.case Let_def c_def [symmetric] by (auto simp: result_case split: if_splits)
  then show ?thesis using y c_def by blast
qed

lemma seconds_ok: "seconds_option m k = Inr (Some n) \<Longrightarrow> 0 < n \<and> n < 2 ^ 64"
  by (auto simp: seconds_option_def split: option.splits if_splits dest: parse_uint_bound)

lemma sso_option_ok:
  "sso_option m oidc = Inr (Some x) \<Longrightarrow>
     oidc \<and> sso_new (s_client_id x) (s_authorization_endpoint x) (s_token_endpoint x) (s_scope x) = Inr x"
  by (auto simp: sso_option_def sso_new_def split: triple.splits if_splits sum.splits option.splits)

lemma service_options_ok:
  assumes "service_options m = Inr so"
  shows "oidc_option m = Inr (so_oidc so) \<and> sso_option m (so_oidc so \<noteq> None) = Inr (so_sso so) \<and>
    seconds_option m ''--sync-max-age'' = Inr (so_max_age so) \<and> seconds_option m ''--sync-interval'' = Inr (so_interval so) \<and>
    backend_tls_option m = Inr (so_backend_tls so) \<and> so_rate_limit so = rate_limit_option m"
  using assms unfolding service_options_def tls_results by (elim exE conjE) (drule sym, simp)

lemma mapping_ok_tree: "load_repo_mapping f = Inr mp \<Longrightarrow> hm_ok mp \<and> (\<forall>t\<in>snd ` set mp. is_valid_identifier t)"
proof -
  assume l: "load_repo_mapping f = Inr mp"
  then obtain s where "f = Some s" by (cases f) (simp_all add: load_repo_mapping_def)
  then show ?thesis using l mapping_exact [of s mp] by (auto simp: Let_def mapping_ok_def)
qed

lemma sync_settings_ok:
  "sync_settings m = Inr sync \<Longrightarrow> hm_ok (c_mapping sync) \<and> (\<forall>t\<in>snd ` set (c_mapping sync). is_valid_identifier t)"
proof -
  assume s: "sync_settings m = Inr sync"
  show ?thesis
  proof (cases "opt_val m ''--repo-map''")
    case None
    then show ?thesis using s by (auto simp: sync_settings_def tls_results hm_ok_def)
  next
    case (Some path)
    then obtain mp where "load_repo_mapping (read_to_string (mc_files m path)) = Inr mp" "c_mapping sync = mp"
      using s by (auto simp: sync_settings_def tls_results split: sum.splits)
    then show ?thesis using mapping_ok_tree by simp
  qed
qed

lemma remote_tls_ok: "remote_tls_option m url = Inr c \<Longrightarrow> c = None \<longleftrightarrow> url = None"
  by (auto simp: remote_tls_option_def tls_results split: triple.splits if_splits)

lemma audit_options_ok:
  assumes "audit_options m = Inr au"
  shows "(\<forall>k. au_key au = Some k \<longrightarrow> 32 \<le> length k) \<and>
    (au_remote_url au = None \<longleftrightarrow> au_remote_key au = None) \<and> (au_remote_url au = None \<longleftrightarrow> au_remote_tls au = None)"
proof -
  have k: "audit_key_option m = Inr (Some k) \<Longrightarrow> 32 \<le> length k" for k
    by (auto simp: audit_key_option_def tls_results split: option.splits if_splits)
  obtain key remote_key c where a: "audit_key_option m = Inr key"
    "(opt_val m ''--audit-remote-url'' \<noteq> None) = (remote_key \<noteq> None)" "remote_tls_option m (opt_val m ''--audit-remote-url'') = Inr c"
    "\<lparr>au_path = val m ''--audit'' ''glasir-control-audit.jsonl'', au_key = key, au_remote_url = opt_val m ''--audit-remote-url'',
       au_remote_key = remote_key, au_remote_tls = c\<rparr> = au"
    using assms unfolding audit_options_def tls_results Let_def by (fastforce split: if_split_asm simp: tls_results)
  from a(4) have "au_key au = key" "au_remote_url au = opt_val m ''--audit-remote-url''" "au_remote_key au = remote_key" "au_remote_tls au = c"
    by auto
  then show ?thesis using a(1,2) k remote_tls_ok [OF a(3)] by auto
qed

subsection \<open>What a service guarantees\<close>

definition config_ok :: "config \<Rightarrow> bool" where
  "config_ok cf \<longleftrightarrow> hm_ok (c_mapping (cf_sync cf)) \<and> (\<forall>t\<in>snd ` set (c_mapping (cf_sync cf)). is_valid_identifier t) \<and>
     (\<forall>x. cf_sso cf = Some x \<longrightarrow> cf_oidc cf \<noteq> None \<and>
        sso_new (s_client_id x) (s_authorization_endpoint x) (s_token_endpoint x) (s_scope x) = Inr x) \<and>
     (\<forall>n. cf_sync_max_age cf = Some n \<longrightarrow> 0 < n \<and> n < 2 ^ 64)"

definition fresh_limiter :: "limiter \<Rightarrow> bool" where
  "fresh_limiter l \<longleftrightarrow> l_buckets l = [] \<and> l_capacity l = 2 * l_rate l"

lemma serving_ok:
  assumes "startup m = (Inr (Serving se), f)"
  shows "config_ok (se_config se) \<and> fresh_limiter (se_limiter se) \<and> (cf_oidc (se_config se) = None \<longleftrightarrow> se_jwks se = None)"
proof -
  obtain evidence audit so where so: "service_options m = Inr so" and "serve_mode m evidence audit so = (Inr (Serving se), f)"
    using startup_serves [OF assms] by blast
  then obtain sync where y: "sync_settings m = Inr sync" and se: "se = configure m evidence audit so sync"
    using serve_mode_serves by blast
  note o = service_options_ok [OF so]
  have "\<forall>x. so_sso so = Some x \<longrightarrow> so_oidc so \<noteq> None \<and>
      sso_new (s_client_id x) (s_authorization_endpoint x) (s_token_endpoint x) (s_scope x) = Inr x"
    using o sso_option_ok by metis
  moreover have "\<forall>n. so_max_age so = Some n \<longrightarrow> 0 < n \<and> n < 2 ^ 64" using o seconds_ok by metis
  ultimately show ?thesis using sync_settings_ok [OF y]
    by (simp add: se configure_def config_ok_def fresh_limiter_def new_limiter_def)
qed

text \<open>
  C39. A server that listens has a well-formed configuration. Whatever the options, the repository mapping
  is a map into valid tree names, console sign-on comes with an identity provider and is what
  the constructor accepts, so that its origins are fit for the security policy header, the age
  limit of the mirror is a positive number of seconds that fits its type, the rate limiter starts empty with a burst
  of two seconds, and a key set is there exactly when an identity provider is.
\<close>

theorem started_well_formed:
  assumes "startup m = (Inr (Serving se), f)"
  shows "config_ok (se_config se) \<and> fresh_limiter (se_limiter se) \<and> (cf_oidc (se_config se) = None \<longleftrightarrow> se_jwks se = None)"
  using assms by (rule serving_ok)

definition sample_static :: config where
  "sample_static = \<lparr>cf_sync = \<lparr>c_mapping = [], c_github_secret = None, c_gitlab_secret = None, c_github_token = None, c_gitlab_token = None\<rparr>,
     cf_allowed_origin = None, cf_oidc = None, cf_sso = None, cf_sync_max_age = None, cf_evidence = None, cf_version = ''0.5.2'',
     cf_console_html = [], cf_console_css = [], cf_console_js = []\<rparr>"

definition sample_tls :: "(unit, unit, unit, unit) tls_lib" where
  "sample_tls = \<lparr>parse_many = (\<lambda>_. None), no_roots = (), add_root = (\<lambda>_ _. None), client_verifier = (\<lambda>_. None),
     client_config = (\<lambda>_ _ _. None), server_config = (\<lambda>_ _ _. None)\<rparr>"

definition sample_machine :: "string list \<Rightarrow> (unit, unit, unit, unit) machine" where
  "sample_machine argv = \<lparr>mc_argv = ''glasir-control'' # argv,
     mc_files = (\<lambda>p. if p = ''repos'' then Some (0, ''github:org/alpha'' @ tab # ''alpha'')
       else if p = ''key'' then Some (0, ''0123456789abcdef0123456789abcdef'')
       else if p = ''glasir-rights.tsv'' then Some (0, join [tab] [''tree'', ''alpha'', ''h:1'', ''ours'']) else None),
     mc_env = (\<lambda>_. None), mc_now = 1000, mc_from_str = (\<lambda>_. None), mc_parse_f64 = (\<lambda>_. None), mc_tls = sample_tls,
     mc_segments = (\<lambda>_. empty_log), mc_http = (\<lambda>_. Inr []), mc_write = True, mc_bind = (\<lambda>_. True), mc_static = sample_static\<rparr>"

definition serving_argv :: "string list" where
  "serving_argv = [''--repo-map'', ''repos'', ''--sync-max-age'', ''60'', ''--audit-key-file'', ''key'', ''--oidc-issuer'', ''https://idp.example'',
     ''--oidc-audience'', ''glasir'', ''--oidc-jwks'', ''jwks.json'', ''--oidc-client-id'', ''console'',
     ''--oidc-authorization-endpoint'', ''https://idp.example/auth'', ''--oidc-token-endpoint'', ''https://idp.example/token'']"

abbreviation serving_machine :: "(unit, unit, unit, unit) machine" where
  "serving_machine \<equiv> sample_machine serving_argv"

lemma serving_machine_options:
  "opt_val serving_machine ''--audit-ingest'' = None" "\<not> given serving_machine ''--help''" "\<not> given serving_machine ''-h''"
  "\<not> given serving_machine ''--version''" "\<not> given serving_machine ''-v''" "evidence_option serving_machine = Inr None"
  "opt_val serving_machine ''--verify-audit'' = None" "\<not> given serving_machine ''--access-review''"
  "opt_val serving_machine ''--sync-grant'' = None" "opt_val serving_machine ''--sync-revoke'' = None" "\<not> given serving_machine ''--validate''"
  by code_simp+

definition serving_audit :: "unit audit_setup" where
  "serving_audit = \<lparr>au_path = ''glasir-control-audit.jsonl'', au_key = Some ''0123456789abcdef0123456789abcdef'', au_remote_url = None,
     au_remote_key = None, au_remote_tls = None\<rparr>"

definition serving_oidc :: oidc where
  "serving_oidc = \<lparr>o_issuer = ''https://idp.example'', o_audience = ''glasir'', o_subject_claim = ''sub'', o_groups_claim = ''groups''\<rparr>"

definition serving_sso :: sso where
  "serving_sso = \<lparr>s_client_id = ''console'', s_authorization_endpoint = ''https://idp.example/auth'',
     s_token_endpoint = ''https://idp.example/token'', s_scope = ''openid'', s_token_origin = ''https://idp.example''\<rparr>"

definition serving_sync :: sync_config where
  "serving_sync = \<lparr>c_mapping = [(''github:org/alpha'', ''alpha'')], c_github_secret = None, c_gitlab_secret = None,
     c_github_token = None, c_gitlab_token = None\<rparr>"

lemma serving_machine_settings:
  "audit_options serving_machine = Inr serving_audit" "backend_tls_option serving_machine = Inr None"
  "oidc_option serving_machine = Inr (Some (serving_oidc, ''jwks.json''))" "sso_option serving_machine True = Inr (Some serving_sso)"
  "seconds_option serving_machine ''--sync-max-age'' = Inr (Some 60)" "seconds_option serving_machine ''--sync-interval'' = Inr None"
  "sync_settings serving_machine = Inr serving_sync" "val serving_machine ''--listen'' ''127.0.0.1:8800'' = ''127.0.0.1:8800''"
  "is_loopback ''127.0.0.1:8800''"
  by code_simp+

definition serving_setup :: "unit service_setup" where
  "serving_setup = \<lparr>so_rate_limit = rate_limit_option serving_machine, so_backend_tls = None,
     so_oidc = Some (serving_oidc, ''jwks.json''), so_sso = Some serving_sso, so_max_age = Some 60, so_interval = None\<rparr>"

lemma serving_machine_serves:
  "startup serving_machine = (Inr (Serving (configure serving_machine None serving_audit serving_setup serving_sync)), None)"
proof -
  let ?se = "configure serving_machine None serving_audit serving_setup serving_sync"
  have so: "service_options serving_machine = Inr serving_setup"
    by (simp add: service_options_def serving_machine_settings and_then_def serving_setup_def)
  have l: "se_listen ?se = ''127.0.0.1:8800''" "se_interval ?se = None"
    by (simp_all add: configure_def serving_machine_settings serving_setup_def)
  have "mc_bind serving_machine a" for a by (simp add: sample_machine_def)
  moreover have "so_oidc serving_setup \<noteq> None" by (simp add: serving_setup_def)
  ultimately have "serve_mode serving_machine None serving_audit serving_setup = (Inr (Serving ?se), None)"
    unfolding serve_mode_def serving_machine_settings sum.case Let_def
    by (simp add: first_reconciliation_def l serving_machine_settings)
  then show ?thesis unfolding startup_def
    by (simp only: serving_machine_options serving_machine_settings so option.case sum.case if_False simp_thms)
qed

theorem started_well_formed_witness:
  "config_ok (se_config (configure serving_machine None serving_audit serving_setup serving_sync)) \<and>
   cf_sso (se_config (configure serving_machine None serving_audit serving_setup serving_sync)) = Some serving_sso"
  using started_well_formed [OF serving_machine_serves] by (simp add: configure_def serving_setup_def)

lemma reconciled:
  assumes "first_reconciliation m se = Inr f"
  shows "if se_interval se = None then f = None
    else c_mapping (cf_sync (se_config se)) \<noteq> [] \<and> (\<exists>n out. f = Some out \<and>
      reconcile_remote (mc_http m) (mc_write m) (c_mapping (cf_sync (se_config se))) (c_github_token (cf_sync (se_config se)))
        (c_gitlab_token (cf_sync (se_config se))) (read_to_string (mc_files m (se_rights se))) = (Inr n, Some out))"
proof (cases "se_interval se")
  case None
  then show ?thesis using assms by (simp add: first_reconciliation_def)
next
  case (Some i)
  let ?r = "reconcile_remote (mc_http m) (mc_write m) (c_mapping (cf_sync (se_config se))) (c_github_token (cf_sync (se_config se)))
        (c_gitlab_token (cf_sync (se_config se))) (read_to_string (mc_files m (se_rights se)))"
  obtain res out where r: "?r = (res, out)" by (cases ?r)
  with assms Some obtain n where n: "res = Inr n" "out = f" "c_mapping (cf_sync (se_config se)) \<noteq> []"
    by (cases res) (auto simp: first_reconciliation_def Let_def split: if_splits)
  then obtain x where "f = Some x" using reconcile_written [of "mc_http m" "mc_write m"] r by blast
  then show ?thesis using Some r n by simp
qed

lemma backend_tls_exact:
  "backend_tls_option m = Inr c \<Longrightarrow> c = None \<longleftrightarrow>
     (\<forall>k\<in>{''--backend-tls-ca'', ''--backend-tls-cert'', ''--backend-tls-key''}. opt_val m k = None)"
  by (auto simp: backend_tls_option_def triple_of_def tls_results split: option.splits triple.splits)

lemma audit_options_given:
  assumes "audit_options m = Inr au"
  shows "au_key au = None \<longleftrightarrow> opt_val m ''--audit-key-file'' = None" and "au_remote_url au = opt_val m ''--audit-remote-url''"
proof -
  have k: "key = None \<longleftrightarrow> opt_val m ''--audit-key-file'' = None" if "audit_key_option m = Inr key" for key
    using that by (auto simp: audit_key_option_def tls_results split: option.splits if_splits)
  obtain key remote_key c where a: "audit_key_option m = Inr key"
    "\<lparr>au_path = val m ''--audit'' ''glasir-control-audit.jsonl'', au_key = key, au_remote_url = opt_val m ''--audit-remote-url'',
       au_remote_key = remote_key, au_remote_tls = c\<rparr> = au"
    using assms unfolding audit_options_def tls_results Let_def by (fastforce split: if_split_asm simp: tls_results)
  from a(2) have "au_key au = key" "au_remote_url au = opt_val m ''--audit-remote-url''" by auto
  then show "au_key au = None \<longleftrightarrow> opt_val m ''--audit-key-file'' = None" "au_remote_url au = opt_val m ''--audit-remote-url''"
    using k [OF a(1)] by simp_all
qed

text \<open>What the address test says: of numbers, that they are loopback addresses; of names, nothing.\<close>

lemma loopback_v4:
  assumes "is_loopback (dec_str a @ CHR ''.'' # rest)"
  shows "a = 127"
proof -
  obtain c s where d: "dec_str a = c # s" by (cases "dec_str a") (use dec_str_nonempty [of a] in auto)
  have g: "\<forall>x\<in>set (dec_str a). is_ascii_digit x" using dec_str_digits [of a] by (simp add: list_all_iff)
  have n: "\<not> is_ascii_digit (CHR ''l'')" "\<not> is_ascii_digit (CHR ''['')" "\<not> is_ascii_digit (CHR ''.'')" by code_simp+
  have "c \<noteq> CHR ''l''" "c \<noteq> CHR ''[''" using g n unfolding d by auto
  then have "starts_with ''127.'' (dec_str a @ CHR ''.'' # rest)" using assms by (simp add: is_loopback_def d starts_with_iff)
  then obtain r where "dec_str a @ CHR ''.'' # rest = ''127'' @ CHR ''.'' # r" by (auto simp: starts_with_iff)
  moreover have "CHR ''.'' \<notin> set (dec_str a)" using g n(3) by blast
  ultimately have "dec_str a = ''127''"
    using split_once_append [of "CHR ''.''" "dec_str a" rest] split_once_append [of "CHR ''.''" "''127''" r] by simp
  moreover have "dec_str 127 = ''127''" by code_simp
  ultimately show ?thesis using dec_str_inject by metis
qed

lemma loopback_v6:
  assumes "is_loopback (CHR ''['' # host @ CHR '']'' # rest)" and "CHR '']'' \<notin> set host"
  shows "host = ''::1''"
proof -
  obtain r where "host @ CHR '']'' # rest = ''::1'' @ CHR '']'' # r" using assms(1) by (auto simp: is_loopback_def starts_with_iff)
  then show ?thesis
    using assms(2) split_once_append [of "CHR '']''" host rest] split_once_append [of "CHR '']''" "''::1''" r] by simp
qed

lemma loopback_names: "is_loopback ''127.example.com:80''"
  by code_simp

text \<open>
  C40. A server that accepts connections keeps to what its options ask for. It is bound to an address whose text begins with
  \<open>127.\<close>, \<open>localhost:\<close> or \<open>[::1]\<close>; an IPv4 or IPv6 address in numbers is then a loopback address, while a name that
  begins so, such as \<open>127.example.com\<close>, is taken too. It knows at least one credential or an identity provider. Without
  \<^verbatim>\<open>--no-audit\<close> it keeps a log, signed if and only if a key file is given, and then with a key of at
  least 32 bytes, and exported if and only if an address is given, and then only with a key and over a mutually authenticated channel.
  It talks to the trees over a mutually authenticated channel when any part of one is given, and else in the clear. And when it is to mirror
  the code hosts, it maps at least one repository and has already written a complete reconciliation.
\<close>

theorem service_is_guarded:
  assumes "startup m = (Inr (Serving se), f)"
  shows "(\<exists>rest. se_listen se \<in> {''127.'' @ rest, ''localhost:'' @ rest, ''[::1]'' @ rest}) \<and>
    (\<forall>a rest. se_listen se = dec_str a @ ''.'' @ rest \<longrightarrow> a = 127) \<and>
    (\<forall>host rest. se_listen se = ''['' @ host @ '']'' @ rest \<and> CHR '']'' \<notin> set host \<longrightarrow> host = ''::1'') \<and>
    mc_bind m (se_listen se) \<and>
    (cf_oidc (se_config se) \<noteq> None \<or> read_entries (mc_files m (se_tokens se)) \<noteq> []) \<and>
    (if given m ''--no-audit'' then se_audit se = None
     else \<exists>au. se_audit se = Some au \<and>
       (case opt_val m ''--audit-key-file'' of None \<Rightarrow> au_key au = None | Some _ \<Rightarrow> \<exists>k. au_key au = Some k \<and> 32 \<le> length k) \<and>
       au_remote_url au = opt_val m ''--audit-remote-url'' \<and>
       (au_remote_url au \<noteq> None \<longrightarrow> au_remote_key au \<noteq> None \<and> au_remote_tls au \<noteq> None)) \<and>
    (se_backend_tls se = None \<longleftrightarrow> (\<forall>k\<in>{''--backend-tls-ca'', ''--backend-tls-cert'', ''--backend-tls-key''}. opt_val m k = None)) \<and>
    (if se_interval se = None then f = None
     else c_mapping (cf_sync (se_config se)) \<noteq> [] \<and> (\<exists>n out. f = Some out \<and>
      reconcile_remote (mc_http m) (mc_write m) (c_mapping (cf_sync (se_config se))) (c_github_token (cf_sync (se_config se)))
        (c_gitlab_token (cf_sync (se_config se))) (read_to_string (mc_files m (se_rights se))) = (Inr n, Some out)))"
proof -
  obtain evidence audit so where a: "audit_options m = Inr audit" and so: "service_options m = Inr so"
    and s: "serve_mode m evidence audit so = (Inr (Serving se), f)"
    using startup_serves [OF assms] by blast
  obtain sync where se: "se = configure m evidence audit so sync"
    and g: "so_oidc so \<noteq> None \<or> read_entries (mc_files m (tokens_path m)) \<noteq> []" "first_reconciliation m se = Inr f"
      "is_loopback (se_listen se)" "mc_bind m (se_listen se)"
    using serve_mode_serves [OF s] by blast
  have e: "cf_oidc (se_config se) = map_option fst (so_oidc so)" "se_tokens se = tokens_path m" "se_backend_tls se = so_backend_tls so"
    "se_audit se = (if given m ''--no-audit'' then None else Some audit)"
    by (simp_all add: se configure_def)
  have b: "se_backend_tls se = None \<longleftrightarrow> (\<forall>k\<in>{''--backend-tls-ca'', ''--backend-tls-cert'', ''--backend-tls-key''}. opt_val m k = None)"
    unfolding e(3) by (rule backend_tls_exact) (use service_options_ok [OF so] in blast)
  have l: "\<exists>rest. se_listen se \<in> {''127.'' @ rest, ''localhost:'' @ rest, ''[::1]'' @ rest}"
    using g(3) by (auto simp: is_loopback_def starts_with_iff)
  have n: "\<forall>a rest. se_listen se = dec_str a @ ''.'' @ rest \<longrightarrow> a = 127"
    "\<forall>host rest. se_listen se = ''['' @ host @ '']'' @ rest \<and> CHR '']'' \<notin> set host \<longrightarrow> host = ''::1''"
    using g(3) loopback_v4 loopback_v6 by auto
  have au: "if given m ''--no-audit'' then se_audit se = None
     else \<exists>au. se_audit se = Some au \<and>
       (case opt_val m ''--audit-key-file'' of None \<Rightarrow> au_key au = None | Some _ \<Rightarrow> \<exists>k. au_key au = Some k \<and> 32 \<le> length k) \<and>
       au_remote_url au = opt_val m ''--audit-remote-url'' \<and>
       (au_remote_url au \<noteq> None \<longrightarrow> au_remote_key au \<noteq> None \<and> au_remote_tls au \<noteq> None)"
    using e(4) audit_options_ok [OF a] audit_options_given [OF a] by (auto split: option.split)
  show ?thesis using l n g(1,4) e(1,2) b au reconciled [OF g(2)] by (simp only: option.map_disc_iff)
qed

theorem service_is_guarded_witness:
  "(\<exists>rest. se_listen (configure serving_machine None serving_audit serving_setup serving_sync) \<in> {''127.'' @ rest, ''localhost:'' @ rest, ''[::1]'' @ rest}) \<and>
   se_audit (configure serving_machine None serving_audit serving_setup serving_sync) \<noteq> None"
proof -
  have "\<not> given serving_machine ''--no-audit''" by code_simp
  then show ?thesis using service_is_guarded [OF serving_machine_serves] by auto
qed

subsection \<open>What start-up writes\<close>

lemma startup_writes:
  assumes "startup m = (r, Some out)"
  shows "(\<exists>spec. opt_val m ''--sync-grant'' = Some spec \<and> sync_command m Grant Granted spec = (r, Some out)) \<or>
    (\<exists>spec. opt_val m ''--sync-revoke'' = Some spec \<and> sync_command m Revoke Revoked spec = (r, Some out)) \<or>
    (\<exists>evidence audit so. service_options m = Inr so \<and> serve_mode m evidence audit so = (r, Some out))"
proof -
  have "opt_val m ''--audit-ingest'' = None" "\<not> (given m ''--help'' \<or> given m ''-h'')" "\<not> (given m ''--version'' \<or> given m ''-v'')"
    using assms by (auto simp: startup_def split: option.splits if_splits)
  then show ?thesis using assms unfolding startup_def
    by (simp only: option.case if_False result_case) (auto simp: result_case split: option.splits if_splits)
qed

definition rights_text :: "('r, 'v, 'c, 's) machine \<Rightarrow> string" where
  "rights_text m = (case read_to_string (mc_files m (rights_path m)) of None \<Rightarrow> [] | Some c \<Rightarrow> c)"

definition does :: "('r, 'v, 'c, 's) machine \<Rightarrow> sync_action \<Rightarrow> string \<Rightarrow> bool" where
  "does m a out \<longleftrightarrow> action_valid a \<and> same_roles (parse out) (parse (rights_text m)) \<and>
     (\<forall>u x. hm_has (r_grants (parse out)) u x \<longleftrightarrow> granted_after a (hm_has (r_grants (parse (rights_text m)))) u x)"

lemma sync_command_writes:
  assumes "sync_command m action message spec = (r, Some out)"
  shows "\<exists>user t. spec = user @ CHR '':'' # t \<and> CHR '':'' \<notin> set user \<and> r = Inr (Printed (message user t)) \<and> does m (action user t) out"
proof -
  obtain user t where s: "split_once (CHR '':'') spec = Some (user, t)"
    using assms by (cases "split_once (CHR '':'') spec") (auto simp: sync_command_def)
  let ?file = "read_to_string (mc_files m (rights_path m))"
  obtain res f where f: "apply_sync_actions (mc_write m) [action user t] ?file = (res, f)" by (metis surj_pair)
  have c: "sync_command m action message spec = (case (res, f) of
            (Inl e, _) \<Rightarrow> (Inl (ReturnErr (ActionFailed e)), None) | (Inr _, file) \<Rightarrow> (Inr (Printed (message user t)), file))"
    unfolding sync_command_def s option.case prod.case apply_sync_action_def f ..
  with assms have r: "res = Inr ()" "f = Some out" "r = Inr (Printed (message user t))"
    by (cases res; simp)+
  then have v: "action_valid (action user t)" "out = mutate_rights_content (rights_text m) (action user t)"
    using f unfolding apply_sync_cases rights_text_def by (simp_all split: if_splits)
  then have "does m (action user t) out"
    unfolding does_def using mutate_grants [OF v(1)] mutate_same_roles [OF v(1)] by blast
  then show ?thesis using split_once_Some [OF s] r(3) by blast
qed

lemma serve_mode_writes:
  assumes "serve_mode m evidence audit so = (r, Some out)"
  shows "\<exists>sync n. sync_settings m = Inr sync \<and> so_interval so \<noteq> None \<and> c_mapping sync \<noteq> [] \<and>
    reconcile_remote (mc_http m) (mc_write m) (c_mapping sync) (c_github_token sync) (c_gitlab_token sync)
      (read_to_string (mc_files m (rights_path m))) = (Inr n, Some out)"
proof -
  obtain sync where y: "sync_settings m = Inr sync" using assms by (auto simp: serve_mode_def result_case)
  define c where "c = configure m evidence audit so sync"
  have c: "se_interval c = so_interval so" "cf_sync (se_config c) = sync" "se_rights c = rights_path m"
    by (simp_all add: c_def configure_def)
  from assms have "first_reconciliation m c = Inr (Some out)"
    unfolding serve_mode_def y sum.case Let_def c_def [symmetric] by (auto simp: result_case split: if_splits)
  from reconciled [OF this] y c show ?thesis by (simp split: if_splits)
qed

text \<open>
  Start-up changes the policy in three ways and no other. If anything was written to the rights
  file, then either the grant command was given a user and a tree with valid names, the direct grants are those from before
  and this one, and the program ends; or the revoke command, and they are those from before without this
  one; or periodic mirroring is on and the file is a complete reconciliation with the code hosts.
  Roles, groups and tenants stay as they were under both commands. Validation, reviews, verification, failed starts with bad options and the ingest
  write nothing.
\<close>

theorem start_up_writes:
  assumes "startup m = (r, Some out)"
  shows "(\<exists>user t. opt_val m ''--sync-grant'' = Some (user @ CHR '':'' # t) \<and> CHR '':'' \<notin> set user \<and>
      r = Inr (Printed (Granted user t)) \<and> does m (Grant user t) out) \<or>
    (\<exists>user t. opt_val m ''--sync-revoke'' = Some (user @ CHR '':'' # t) \<and> CHR '':'' \<notin> set user \<and>
      r = Inr (Printed (Revoked user t)) \<and> does m (Revoke user t) out) \<or>
    (\<exists>i sync n. seconds_option m ''--sync-interval'' = Inr (Some i) \<and> sync_settings m = Inr sync \<and> c_mapping sync \<noteq> [] \<and>
      reconcile_remote (mc_http m) (mc_write m) (c_mapping sync) (c_github_token sync) (c_gitlab_token sync)
        (read_to_string (mc_files m (rights_path m))) = (Inr n, Some out))"
proof -
  consider (grant) spec where "opt_val m ''--sync-grant'' = Some spec" "sync_command m Grant Granted spec = (r, Some out)"
    | (revoke) spec where "opt_val m ''--sync-revoke'' = Some spec" "sync_command m Revoke Revoked spec = (r, Some out)"
    | (serve) evidence audit so where "service_options m = Inr so" "serve_mode m evidence audit so = (r, Some out)"
    using startup_writes [OF assms] by blast
  then show ?thesis
  proof cases
    case grant
    from sync_command_writes [OF grant(2)] grant(1) show ?thesis by blast
  next
    case revoke
    from sync_command_writes [OF revoke(2)] revoke(1) show ?thesis by blast
  next
    case serve
    have "seconds_option m ''--sync-interval'' = Inr (so_interval so)" using service_options_ok [OF serve(1)] by blast
    with serve_mode_writes [OF serve(2)] show ?thesis by (metis option.exhaust)
  qed
qed

lemma granting_machine:
  "startup (sample_machine [''--sync-grant'', ''anna:alpha'']) =
     (Inr (Printed (Granted ''anna'' ''alpha'')), Some (mutate_rights_content (join [tab] [''tree'', ''alpha'', ''h:1'', ''ours'']) (Grant ''anna'' ''alpha'')))"
proof -
  let ?m = "sample_machine [''--sync-grant'', ''anna:alpha'']"
  have o: "opt_val ?m ''--audit-ingest'' = None" "\<not> given ?m ''--help''" "\<not> given ?m ''-h''" "\<not> given ?m ''--version''" "\<not> given ?m ''-v''"
    "evidence_option ?m = Inr None" "opt_val ?m ''--verify-audit'' = None" "\<not> given ?m ''--access-review''"
    "opt_val ?m ''--sync-grant'' = Some ''anna:alpha''" "is_ok (audit_options ?m)" "backend_tls_option ?m = Inr None"
    "oidc_option ?m = Inr None" "sso_option ?m False = Inr None" "seconds_option ?m ''--sync-max-age'' = Inr None"
    "seconds_option ?m ''--sync-interval'' = Inr None" "split_once (CHR '':'') ''anna:alpha'' = Some (''anna'', ''alpha'')"
    "read_to_string (mc_files ?m (rights_path ?m)) = Some (join [tab] [''tree'', ''alpha'', ''h:1'', ''ours''])"
    "action_valid (Grant ''anna'' ''alpha'')" by code_simp+
  obtain au where au: "audit_options ?m = Inr au" using o(10) by (auto simp: is_ok_ex)
  obtain so where so: "service_options ?m = Inr so"
    by (simp add: service_options_def o and_then_def)
  have "mc_write ?m" by (simp add: sample_machine_def)
  then have "apply_sync_actions (mc_write ?m) [Grant ''anna'' ''alpha''] (Some (join [tab] [''tree'', ''alpha'', ''h:1'', ''ours''])) =
      (Inr (), Some (mutate_rights_content (join [tab] [''tree'', ''alpha'', ''h:1'', ''ours'']) (Grant ''anna'' ''alpha'')))"
    unfolding apply_sync_cases using o(18) by simp
  then have "sync_command ?m Grant Granted ''anna:alpha'' = (Inr (Printed (Granted ''anna'' ''alpha'')),
      Some (mutate_rights_content (join [tab] [''tree'', ''alpha'', ''h:1'', ''ours'']) (Grant ''anna'' ''alpha'')))"
    unfolding sync_command_def o(16,17) option.case prod.case apply_sync_action_def by simp
  then show ?thesis unfolding startup_def
    by (simp only: o au so option.case sum.case if_False simp_thms)
qed

theorem start_up_writes_witness:
  "does (sample_machine [''--sync-grant'', ''anna:alpha'']) (Grant ''anna'' ''alpha'')
     (mutate_rights_content (join [tab] [''tree'', ''alpha'', ''h:1'', ''ours'']) (Grant ''anna'' ''alpha''))"
proof -
  let ?m = "sample_machine [''--sync-grant'', ''anna:alpha'']"
  have o: "opt_val ?m ''--sync-revoke'' = None" "seconds_option ?m ''--sync-interval'' = Inr None"
    by code_simp+
  show ?thesis using start_up_writes [OF granting_machine] by (simp add: o)
qed

text \<open>An option that comes last, without its value, counts as not given.\<close>

lemma option_without_value:
  assumes "mc_argv m = argv @ [k]"
  shows "opt_val m k = None \<or> k \<in> set argv"
proof (cases "k \<in> set argv")
  case False
  then have "takeWhile (\<lambda>a. a \<noteq> k) (argv @ [k]) = argv" by (induction argv) auto
  then show ?thesis by (simp add: opt_val_def position_def assms)
qed simp

end
