(* ===== verification/Rights_Update.thy ===== *)
theory Rights_Update
  imports Rights_Sync Policy
begin

text \<open>
  Updates of the rights file as the sequences of system calls they are:
  \<^verbatim>\<open>apply_sync_actions\<close> of \<^verbatim>\<open>src/sync.rs\<close> (webhooks, the periodic
  reconciliation, the \<^verbatim>\<open>grant\<close> and \<^verbatim>\<open>revoke\<close> commands) and the write of
  \<^verbatim>\<open>policy::approve\<close>. Each reads the file, writes the new text to a temporary file
  and renames it over the rights file. No lock is held, and every thread of a process uses the
  same temporary name; so the steps of several updates interleave. The theory says what that
  scheme gives: whole texts when no two updates share a temporary file at a time, the atomic
  operation of \<open>Rights_Sync\<close> when none overlap, and what is lost otherwise.
\<close>

subsection \<open>The calls\<close>

text \<open>
  A call knows its actions, or the proposal's base hash and text once author, state and scope
  have been checked. The number is the process it runs in.
\<close>

datatype call = SyncCall "sync_action list" | ApproveCall string string

type_synonym job = "nat \<times> call"

datatype tmp_name = SyncTmp nat | Pending

fun tmp_path :: "job \<Rightarrow> tmp_name" where
  "tmp_path (pid, SyncCall actions) = SyncTmp pid"
| "tmp_path (pid, ApproveCall base rights) = Pending"

definition readable :: "string option \<Rightarrow> string option" where
  "readable file = (case file of None \<Rightarrow> None | Some bytes \<Rightarrow> if utf8_valid bytes then Some bytes else None)"

text \<open>What a call makes of the file it has read, \<open>None\<close> when it refuses.\<close>

fun new_text :: "call \<Rightarrow> string option \<Rightarrow> string option" where
  "new_text (SyncCall actions) file =
     (if list_ex (\<lambda>a. \<not> action_valid a) actions then None
      else Some (fold (\<lambda>a current. mutate_rights_content current a) actions
        (case readable file of None \<Rightarrow> [] | Some c \<Rightarrow> c)))"
| "new_text (ApproveCall base rights) file =
     (case readable file of None \<Rightarrow> None | Some current \<Rightarrow>
        if base \<noteq> sha256_hex current then None
        else if \<not> report_is_valid (validate_text rights) then None else Some rights)"

subsection \<open>The file system\<close>

text \<open>
  Names point to inodes, and a handle keeps its inode when the name moves. Opening with
  \<^verbatim>\<open>create\<close> and \<^verbatim>\<open>truncate\<close> empties the file that has the name, if one does.
\<close>

record disk =
  k_rights :: "nat option"
  k_tmp :: "tmp_name \<Rightarrow> nat option"
  k_data :: "nat \<Rightarrow> string"
  k_next :: nat

definition live_text :: "disk \<Rightarrow> string option" where
  "live_text k = map_option (k_data k) (k_rights k)"

definition open_truncate :: "tmp_name \<Rightarrow> disk \<Rightarrow> nat \<times> disk" where
  "open_truncate p k =
     (case k_tmp k p of
        Some n \<Rightarrow> (n, k\<lparr>k_data := (k_data k)(n := [])\<rparr>)
      | None \<Rightarrow> (k_next k, k\<lparr>k_tmp := (k_tmp k)(p := Some (k_next k)), k_data := (k_data k)(k_next k := []),
                           k_next := Suc (k_next k)\<rparr>))"

text \<open>A write at an offset; a gap left by a truncation is read as zero bytes.\<close>

definition write_at :: "nat \<Rightarrow> string \<Rightarrow> string \<Rightarrow> string" where
  "write_at off chunk s = take off s @ replicate (off - length s) (CHR 0x00) @ chunk @ drop (off + length chunk) s"

definition write_inode :: "nat \<Rightarrow> nat \<Rightarrow> string \<Rightarrow> disk \<Rightarrow> disk" where
  "write_inode n off chunk k = k\<lparr>k_data := (k_data k)(n := write_at off chunk (k_data k n))\<rparr>"

definition rename_tmp :: "tmp_name \<Rightarrow> disk \<Rightarrow> disk option" where
  "rename_tmp p k =
     (case k_tmp k p of None \<Rightarrow> None
      | Some n \<Rightarrow> Some (k\<lparr>k_rights := Some n, k_tmp := (k_tmp k)(p := None)\<rparr>))"

subsection \<open>The steps\<close>

datatype call_result = Refused | Failed | Done

datatype progress =
    Idle
  | Computed string
  | Writing nat nat string
  | Closed string
  | Finished call_result

fun busy :: "progress \<Rightarrow> bool" where
  "busy (Computed text) \<longleftrightarrow> True"
| "busy (Writing n off text) \<longleftrightarrow> True"
| "busy (Closed text) \<longleftrightarrow> True"
| "busy _ \<longleftrightarrow> False"

record sys =
  s_disk :: disk
  s_prog :: "nat \<Rightarrow> progress"

datatype event = Begin nat | Open nat | Write nat nat | Close nat | Rename nat | Fail nat

fun event_thread :: "event \<Rightarrow> nat" where
  "event_thread (Begin i) = i"
| "event_thread (Open i) = i"
| "event_thread (Write i n) = i"
| "event_thread (Close i) = i"
| "event_thread (Rename i) = i"
| "event_thread (Fail i) = i"

definition set_prog :: "nat \<Rightarrow> progress \<Rightarrow> sys \<Rightarrow> sys" where
  "set_prog i p s = s\<lparr>s_prog := (s_prog s)(i := p)\<rparr>"

text \<open>
  One step of a thread, \<open>None\<close> where the thread is not at that point. \<open>Write i n\<close> is one
  of the writes of \<^verbatim>\<open>write_all\<close>, of \<open>n\<close> bytes at the handle's offset; the rename
  fails when the temporary name is gone; \<open>Fail\<close> is any other input or output error.
\<close>

fun step_thread :: "job \<Rightarrow> nat \<Rightarrow> event \<Rightarrow> progress \<Rightarrow> sys \<Rightarrow> sys option" where
  "step_thread j i (Begin _) Idle s =
     (case new_text (snd j) (live_text (s_disk s)) of
        None \<Rightarrow> Some (set_prog i (Finished Refused) s)
      | Some text \<Rightarrow> Some (set_prog i (Computed text) s))"
| "step_thread j i (Open _) (Computed text) s =
     (case open_truncate (tmp_path j) (s_disk s) of (n, k) \<Rightarrow> Some (set_prog i (Writing n 0 text) (s\<lparr>s_disk := k\<rparr>)))"
| "step_thread j i (Write _ m) (Writing n off text) s =
     (if off + m \<le> length text
      then Some (set_prog i (Writing n (off + m) text)
             (s\<lparr>s_disk := write_inode n off (take m (drop off text)) (s_disk s)\<rparr>))
      else None)"
| "step_thread j i (Close _) (Writing n off text) s =
     (if off = length text then Some (set_prog i (Closed text) s) else None)"
| "step_thread j i (Rename _) (Closed text) s =
     (case rename_tmp (tmp_path j) (s_disk s) of
        None \<Rightarrow> Some (set_prog i (Finished Failed) s)
      | Some k \<Rightarrow> Some (set_prog i (Finished Done) (s\<lparr>s_disk := k\<rparr>)))"
| "step_thread j i (Fail _) p s = (if busy p then Some (set_prog i (Finished Failed) s) else None)"
| "step_thread j i _ _ s = None"

definition perform :: "job list \<Rightarrow> event \<Rightarrow> sys \<Rightarrow> sys option" where
  "perform jobs e s =
     (let i = event_thread e in
      if i < length jobs then step_thread (jobs ! i) i e (s_prog s i) s else None)"

text \<open>
  Runs: any interleaving, or only those in which a call begins while the rule \<open>may_begin\<close>
  allows it, which is what a lock taken at the beginning and given back at the end enforces.
\<close>

fun run_when :: "(job list \<Rightarrow> nat \<Rightarrow> sys \<Rightarrow> bool) \<Rightarrow> job list \<Rightarrow> event list \<Rightarrow> sys \<Rightarrow> sys option" where
  "run_when may_begin jobs [] s = Some s"
| "run_when may_begin jobs (e # es) s =
     (if (case e of Begin i \<Rightarrow> may_begin jobs i s | _ \<Rightarrow> True)
      then (case perform jobs e s of None \<Rightarrow> None | Some s' \<Rightarrow> run_when may_begin jobs es s')
      else None)"

definition any_time :: "job list \<Rightarrow> nat \<Rightarrow> sys \<Rightarrow> bool" where
  "any_time jobs i s = True"

definition file_is_free :: "job list \<Rightarrow> nat \<Rightarrow> sys \<Rightarrow> bool" where
  "file_is_free jobs i s =
     list_all (\<lambda>j. \<not> (busy (s_prog s j) \<and> tmp_path (jobs ! j) = tmp_path (jobs ! i))) [0..<length jobs]"

definition all_are_out :: "job list \<Rightarrow> nat \<Rightarrow> sys \<Rightarrow> bool" where
  "all_are_out jobs i s = list_all (\<lambda>j. \<not> busy (s_prog s j)) [0..<length jobs]"

text \<open>
  The start: nobody is under way; temporary files may have been left by a process that died,
  each name with an inode of its own.
\<close>

definition disk_ok :: "disk \<Rightarrow> bool" where
  "disk_ok k \<longleftrightarrow>
     (\<forall>n. k_rights k = Some n \<longrightarrow> n < k_next k) \<and>
     (\<forall>p n. k_tmp k p = Some n \<longrightarrow> n < k_next k \<and> k_rights k \<noteq> Some n \<and> (\<forall>q. k_tmp k q = Some n \<longrightarrow> q = p))"

definition idle_sys :: "disk \<Rightarrow> sys" where
  "idle_sys k = \<lparr>s_disk = k, s_prog = (\<lambda>_. Idle)\<rparr>"

subsection \<open>What a step does\<close>

lemma write_at_end: "write_at (length s) chunk s = s @ chunk"
  by (simp add: write_at_def)

lemma take_more: "off + m \<le> length text \<Longrightarrow> take off text @ take m (drop off text) = take (off + m) text"
  by (simp add: take_add)

lemma set_prog_simps [simp]:
  "s_disk (set_prog i p s) = s_disk s" "s_prog (set_prog i p s) j = (if j = i then p else s_prog s j)"
  by (simp_all add: set_prog_def)

text \<open>The effect of a step on the disk, by the points a thread may be at.\<close>

inductive step_effect :: "job \<Rightarrow> disk \<Rightarrow> progress \<Rightarrow> disk \<Rightarrow> progress \<Rightarrow> bool" where
  Refuse: "new_text (snd j) (live_text k) = None \<Longrightarrow> step_effect j k Idle k (Finished Refused)"
| Compute: "new_text (snd j) (live_text k) = Some text \<Longrightarrow> step_effect j k Idle k (Computed text)"
| Opened: "open_truncate (tmp_path j) k = (n, k') \<Longrightarrow> step_effect j k (Computed text) k' (Writing n 0 text)"
| Wrote: "off + m \<le> length text \<Longrightarrow>
    step_effect j k (Writing n off text) (write_inode n off (take m (drop off text)) k) (Writing n (off + m) text)"
| CloseFile: "step_effect j k (Writing n (length text) text) k (Closed text)"
| Swap: "rename_tmp (tmp_path j) k = Some k' \<Longrightarrow> step_effect j k (Closed text) k' (Finished Done)"
| NoTmp: "rename_tmp (tmp_path j) k = None \<Longrightarrow> step_effect j k (Closed text) k (Finished Failed)"
| IoFailure: "busy p \<Longrightarrow> step_effect j k p k (Finished Failed)"

lemma step_thread_effect:
  "step_thread j i e p s = Some s' \<Longrightarrow> \<exists>k q. step_effect j (s_disk s) p k q \<and> s' = set_prog i q (s\<lparr>s_disk := k\<rparr>)"
proof -
  have same: "step_effect j (s_disk s) p (s_disk s) q \<Longrightarrow>
      \<exists>k q'. step_effect j (s_disk s) p k q' \<and> set_prog i q s = set_prog i q' (s\<lparr>s_disk := k\<rparr>)" for p q
    by (intro exI [of _ "s_disk s"] exI [of _ q]) simp
  assume "step_thread j i e p s = Some s'"
  then show ?thesis
  proof (cases e)
    case (Fail x)
    then have "busy p" "s' = set_prog i (Finished Failed) s" using \<open>step_thread j i e p s = Some s'\<close> by (auto split: if_splits)
    then show ?thesis using same [OF IoFailure] by simp
  qed (cases p; auto split: option.splits prod.splits if_splits intro: same step_effect.intros)+
qed

lemma perform_effect:
  assumes "perform jobs e s = Some s'"
  obtains i k p where "i = event_thread e" "i < length jobs" "step_effect (jobs ! i) (s_disk s) (s_prog s i) k p"
    "s_disk s' = k" "\<And>j. s_prog s' j = (if j = i then p else s_prog s j)"
  using assms step_thread_effect [of "jobs ! event_thread e" "event_thread e" e "s_prog s (event_thread e)" s s']
  by (auto simp: perform_def Let_def split: if_splits)

inductive_cases step_effect_cases: "step_effect j k p k' q"

text \<open>The system calls of a call whose \<open>n\<close> bytes go out in one write.\<close>

definition finish_call :: "nat \<Rightarrow> nat \<Rightarrow> event list" where
  "finish_call i n = [Open i, Write i n, Close i, Rename i]"

text \<open>Two users with a tree each, and the webhooks that revoke them.\<close>

definition two_grants :: string where
  "two_grants = unlines [join [tab] [''grant'', ''anna'', ''alpha''], join [tab] [''grant'', ''carl'', ''beta'']]"

definition only_anna :: string where
  "only_anna = unlines [join [tab] [''grant'', ''anna'', ''alpha'']]"

definition only_carl :: string where
  "only_carl = unlines [join [tab] [''grant'', ''carl'', ''beta'']]"

definition two_grants_disk :: disk where
  "two_grants_disk = \<lparr>k_rights = Some 0, k_tmp = (\<lambda>_. None), k_data = (\<lambda>_. [])(0 := two_grants), k_next = 1\<rparr>"

definition revoke_anna :: call where
  "revoke_anna = SyncCall [Revoke ''anna'' ''alpha'']"

definition revoke_carl :: call where
  "revoke_carl = SyncCall [Revoke ''carl'' ''beta'']"

lemma two_grants_disk_ok: "disk_ok two_grants_disk"
  by (simp add: disk_ok_def two_grants_disk_def)

lemma two_grants_text: "live_text two_grants_disk = Some two_grants"
  by (simp add: live_text_def two_grants_disk_def)

lemma revoke_texts:
  "new_text revoke_anna (Some two_grants) = Some only_carl"
  "new_text revoke_carl (Some two_grants) = Some only_anna"
  "new_text revoke_carl (Some only_carl) = Some []"
  by code_simp+

lemma sample_lengths: "length only_carl = 16" "length only_anna = 17"
  by code_simp+

lemmas file_steps = perform_def Let_def file_is_free_def all_are_out_def any_time_def idle_sys_def set_prog_def
  open_truncate_def write_inode_def write_at_def rename_tmp_def live_text_def

subsection \<open>Threads that own their temporary file\<close>

text \<open>
  What a thread knows while no other uses its temporary name: the name and its handle are one
  inode, which holds what has been written so far. \<open>P\<close> is what is known of the new text.
\<close>

fun owns :: "(string \<Rightarrow> bool) \<Rightarrow> disk \<Rightarrow> job \<Rightarrow> progress \<Rightarrow> bool" where
  "owns P k j (Computed text) \<longleftrightarrow> P text"
| "owns P k j (Writing n off text) \<longleftrightarrow>
     P text \<and> off \<le> length text \<and> k_tmp k (tmp_path j) = Some n \<and> k_data k n = take off text"
| "owns P k j (Closed text) \<longleftrightarrow> P text \<and> (\<exists>n. k_tmp k (tmp_path j) = Some n \<and> k_data k n = text)"
| "owns P k j _ \<longleftrightarrow> True"

lemma owns_idle: "\<not> busy p \<Longrightarrow> owns P k j p"
  by (cases p) simp_all

lemma disk_ok_open:
  assumes "disk_ok k" and "open_truncate x k = (n, k')"
  shows "disk_ok k' \<and> k_tmp k' x = Some n \<and> k_data k' n = [] \<and> live_text k' = live_text k \<and>
    (\<forall>y. y \<noteq> x \<longrightarrow> k_tmp k' y = k_tmp k y \<and> (\<forall>m. k_tmp k y = Some m \<longrightarrow> k_data k' m = k_data k m))"
proof (cases "k_tmp k x")
  case None
  then have n: "n = k_next k" "k' = k\<lparr>k_tmp := (k_tmp k)(x := Some n), k_data := (k_data k)(n := []), k_next := Suc n\<rparr>"
    using assms(2) by (auto simp: open_truncate_def)
  have "k_tmp k y \<noteq> Some n" "k_rights k \<noteq> Some n" for y using assms(1) by (auto simp: disk_ok_def n(1))
  then show ?thesis using assms(1)
    by (cases "k_rights k") (auto simp: n disk_ok_def live_text_def less_Suc_eq)
next
  case (Some m)
  then have n: "n = m" "k' = k\<lparr>k_data := (k_data k)(n := [])\<rparr>" using assms(2) by (auto simp: open_truncate_def)
  then show ?thesis using assms(1) Some by (cases "k_rights k") (auto simp: disk_ok_def live_text_def)
qed

lemma disk_ok_write:
  assumes "disk_ok k" and "k_tmp k x = Some n"
  shows "disk_ok (write_inode n off chunk k) \<and> live_text (write_inode n off chunk k) = live_text k \<and>
    k_tmp (write_inode n off chunk k) = k_tmp k \<and>
    (\<forall>y m. y \<noteq> x \<longrightarrow> k_tmp k y = Some m \<longrightarrow> k_data (write_inode n off chunk k) m = k_data k m)"
  using assms by (cases "k_rights k") (auto simp: write_inode_def disk_ok_def live_text_def)

lemma disk_ok_rename:
  assumes "disk_ok k" and "k_tmp k x = Some n"
  shows "\<exists>k'. rename_tmp x k = Some k' \<and> disk_ok k' \<and> live_text k' = Some (k_data k n) \<and> k_data k' = k_data k \<and>
    (\<forall>y. y \<noteq> x \<longrightarrow> k_tmp k' y = k_tmp k y)"
  using assms by (auto simp: rename_tmp_def disk_ok_def live_text_def; metis option.inject)

text \<open>A step of an owner: the rights file changes at the rename only, to the whole new text.\<close>

lemma owner_step:
  assumes st: "step_effect j k p k' q" and ok: "disk_ok k" and own: "owns P k j p"
    and new: "\<And>text. new_text (snd j) (live_text k) = Some text \<Longrightarrow> P text"
  shows "disk_ok k' \<and> owns P k' j q \<and>
    (live_text k' = live_text k \<and> q \<noteq> Finished Done \<or>
       (\<exists>text. p = Closed text \<and> P text \<and> live_text k' = Some text \<and> q = Finished Done)) \<and>
    (\<forall>j' p'. tmp_path j' \<noteq> tmp_path j \<longrightarrow> owns Q k j' p' \<longrightarrow> owns Q k' j' p')"
proof -
  have frame: "owns Q k' j' p'" if "owns Q k j' p'"
    "k_tmp k' (tmp_path j') = k_tmp k (tmp_path j')" "\<And>n. k_tmp k (tmp_path j') = Some n \<Longrightarrow> k_data k' n = k_data k n" for k' j' p'
    using that by (cases p') auto
  from st show ?thesis
  proof cases
    case (Opened n body)
    then show ?thesis using disk_ok_open [OF ok Opened(3)] own by (auto intro: frame)
  next
    case (Wrote off m body n)
    then have tmp: "k_tmp k (tmp_path j) = Some n" and d: "k_data k n = take off body" "P body" using own by auto
    have "k_data k' n = take (off + m) body"
      using write_at_end [of "take off body" "take m (drop off body)"] Wrote(4)
      by (simp add: Wrote(2) write_inode_def d take_more min.absorb2)
    then show ?thesis using disk_ok_write [OF ok tmp, of off "take m (drop off body)"] Wrote d(2) tmp by (auto intro: frame)
  next
    case (Swap body)
    then obtain n where n: "k_tmp k (tmp_path j) = Some n" "k_data k n = body" "P body" using own by auto
    from disk_ok_rename [OF ok n(1)] Swap show ?thesis using n by (auto intro: frame)
  qed (use ok own new in \<open>auto intro: owns_idle\<close>)
qed

lemma owner_keeps:
  assumes "step_effect j k p k' q" and "disk_ok k" and "owns P k j p"
    and "\<And>text. new_text (snd j) (live_text k) = Some text \<Longrightarrow> P text"
  shows "disk_ok k' \<and> owns P k' j q"
    and "live_text k' = live_text k \<and> q \<noteq> Finished Done \<or>
       (\<exists>text. p = Closed text \<and> P text \<and> live_text k' = Some text \<and> q = Finished Done)"
  using owner_step [OF assms, where Q = P] by simp_all

lemma other_owner:
  assumes "step_effect j k p k' q" and "disk_ok k" and "owns P k j p"
    and "\<And>text. new_text (snd j) (live_text k) = Some text \<Longrightarrow> P text"
    and "tmp_path j' \<noteq> tmp_path j" and "owns Q k j' p'"
  shows "owns Q k' j' p'"
  using owner_step [OF assms(1-4), where Q = Q] assms(5,6) by blast

subsection \<open>Whole texts\<close>

text \<open>The texts a rights file may go through when every call writes what it computed from one of them.\<close>

inductive whole :: "job list \<Rightarrow> string option \<Rightarrow> string option \<Rightarrow> bool" for jobs and start where
  Start: "whole jobs start start"
| Next: "\<lbrakk>whole jobs start file; j \<in> set jobs; new_text (snd j) file = Some text\<rbrakk> \<Longrightarrow> whole jobs start (Some text)"

definition one_per_file :: "job list \<Rightarrow> string option \<Rightarrow> sys \<Rightarrow> bool" where
  "one_per_file jobs start s \<longleftrightarrow>
     disk_ok (s_disk s) \<and> whole jobs start (live_text (s_disk s)) \<and>
     (\<forall>i < length jobs. owns (\<lambda>text. whole jobs start (Some text)) (s_disk s) (jobs ! i) (s_prog s i)) \<and>
     (\<forall>i < length jobs. \<forall>j < length jobs. busy (s_prog s i) \<longrightarrow> busy (s_prog s j) \<longrightarrow>
        tmp_path (jobs ! j) = tmp_path (jobs ! i) \<longrightarrow> j = i)"

lemma begins_idle:
  assumes "step_effect j k p k' q" and "\<not> busy p"
  shows "p = Idle \<and> k' = k"
  using assms by (cases rule: step_effect.cases) auto

lemma perform_begin:
  "perform jobs e s = Some s' \<Longrightarrow> s_prog s (event_thread e) = Idle \<Longrightarrow> \<exists>i. e = Begin i"
  by (cases e) (auto simp: perform_def Let_def split: if_splits)

lemma one_per_file_step:
  assumes p: "perform jobs e s = Some s'" and inv: "one_per_file jobs start s"
    and free: "\<And>i. e = Begin i \<Longrightarrow> file_is_free jobs i s"
  shows "one_per_file jobs start s'"
proof -
  let ?P = "\<lambda>text. whole jobs start (Some text)"
  obtain i k q where i: "i = event_thread e" "i < length jobs" and st: "step_effect (jobs ! i) (s_disk s) (s_prog s i) k q"
    and s': "s_disk s' = k" "\<And>j. s_prog s' j = (if j = i then q else s_prog s j)" using p by (rule perform_effect) blast
  have ok: "disk_ok (s_disk s)" and wh: "whole jobs start (live_text (s_disk s))"
    and own: "\<And>j. j < length jobs \<Longrightarrow> owns ?P (s_disk s) (jobs ! j) (s_prog s j)"
    and one: "\<And>j l. \<lbrakk>j < length jobs; l < length jobs; busy (s_prog s j); busy (s_prog s l);
      tmp_path (jobs ! l) = tmp_path (jobs ! j)\<rbrakk> \<Longrightarrow> l = j"
    using inv by (auto simp: one_per_file_def)
  have new: "?P body" if "new_text (snd (jobs ! i)) (live_text (s_disk s)) = Some body" for body
    using whole.Next [OF wh _ that] i(2) by simp
  have keeps: "disk_ok k \<and> owns ?P k (jobs ! i) q"
    by (rule owner_keeps(1) [OF st ok own [OF i(2)]]) (rule new)
  have "live_text k = live_text (s_disk s) \<and> q \<noteq> Finished Done \<or>
      (\<exists>text. s_prog s i = Closed text \<and> ?P text \<and> live_text k = Some text \<and> q = Finished Done)"
    by (rule owner_keeps(2) [OF st ok own [OF i(2)]]) (rule new)
  then have wh': "whole jobs start (live_text k)" using wh by (elim disjE exE conjE) simp_all
  have frame: "owns ?P k (jobs ! j) p'" if "tmp_path (jobs ! j) \<noteq> tmp_path (jobs ! i)" "owns ?P (s_disk s) (jobs ! j) p'" for j p'
    by (rule other_owner [OF st ok own [OF i(2)] _ that]) (rule new)
  have alone: "l = i" if "l < length jobs" "busy (s_prog s l)" "tmp_path (jobs ! l) = tmp_path (jobs ! i)" for l
  proof (cases "busy (s_prog s i)")
    case True
    then show ?thesis using one [OF i(2) that(1)] that by simp
  next
    case False
    then have "s_prog s i = Idle" using begins_idle [OF st] by simp
    then obtain m where "e = Begin m" using perform_begin [OF p] i(1) by auto
    then have "file_is_free jobs i s" using free i(1) by simp
    then show ?thesis using that by (auto simp: file_is_free_def list_all_iff)
  qed
  have "owns ?P k (jobs ! j) (s_prog s' j)" if "j < length jobs" for j
  proof (cases "j = i \<or> tmp_path (jobs ! j) \<noteq> tmp_path (jobs ! i)")
    case True
    then show ?thesis using keeps frame [OF _ own [OF that]] by (cases "j = i") (simp_all add: s'(2))
  next
    case False
    then have "\<not> busy (s_prog s j)" using alone [OF that] by blast
    then show ?thesis using False by (simp add: s'(2) owns_idle)
  qed
  moreover have "l = j" if "j < length jobs" "l < length jobs" "busy (s_prog s' j)" "busy (s_prog s' l)"
    "tmp_path (jobs ! l) = tmp_path (jobs ! j)" for j l
  proof -
    consider "j = i" "l = i" | "j = i" "l \<noteq> i" | "j \<noteq> i" "l = i" | "j \<noteq> i" "l \<noteq> i" by blast
    then show ?thesis
    proof cases
      case 2
      then show ?thesis using alone [OF that(2)] that(4,5) by (simp add: s'(2))
    next
      case 3
      then show ?thesis using alone [OF that(1)] that(3,5) by (simp add: s'(2))
    next
      case 4
      then show ?thesis using one [OF that(1,2) _ _ that(5)] that(3,4) by (simp add: s'(2))
    qed simp
  qed
  ultimately show ?thesis using keeps wh' by (simp add: one_per_file_def s'(1))
qed

lemma one_per_file_run:
  "one_per_file jobs start s \<Longrightarrow> run_when file_is_free jobs es s = Some s' \<Longrightarrow> one_per_file jobs start s'"
proof (induction es arbitrary: s)
  case (Cons e es)
  then obtain s1 where s1: "perform jobs e s = Some s1" "run_when file_is_free jobs es s1 = Some s'"
    by (auto split: if_splits option.splits)
  have "one_per_file jobs start s1"
    by (rule one_per_file_step [OF s1(1) Cons.prems(1)]) (use Cons.prems(2) in \<open>auto split: if_splits\<close>)
  then show ?case using Cons.IH s1(2) by blast
qed simp

lemma one_per_file_idle: "disk_ok k \<Longrightarrow> one_per_file jobs (live_text k) (idle_sys k)"
  by (simp add: one_per_file_def idle_sys_def whole.Start)

text \<open>
  C18. If no two calls that share a temporary file are under way at the same time, then whatever the
  interleaving, whichever writes are cut short and wherever the process dies, the rights file is at
  every moment a whole text: the one it had at the start, or what some call computed from
  an earlier whole text. The half-written text is only ever behind the temporary name.
\<close>

theorem rights_file_is_whole:
  assumes "disk_ok k" and "run_when file_is_free jobs es (idle_sys k) = Some s"
  shows "whole jobs (live_text k) (live_text (s_disk s)) \<and>
    (\<forall>i < length jobs. case s_prog s i of
        Closed text \<Rightarrow> k_rights (s_disk s) \<noteq> k_tmp (s_disk s) (tmp_path (jobs ! i))
      | Writing n off text \<Rightarrow> k_rights (s_disk s) \<noteq> Some n | _ \<Rightarrow> True)"
proof -
  have inv: "one_per_file jobs (live_text k) s"
    by (rule one_per_file_run [OF one_per_file_idle assms(2)]) (rule assms(1))
  then show ?thesis by (fastforce simp: one_per_file_def disk_ok_def split: progress.split)
qed

theorem rights_file_is_whole_witness:
  "\<exists>s. run_when file_is_free [(1, revoke_anna), (2, revoke_carl)]
       ([Begin 0, Begin 1, Open 0, Write 0 5, Open 1, Write 1 7, Write 0 (length only_carl - 5), Close 0, Rename 0]) (idle_sys two_grants_disk) = Some s \<and>
     whole [(1, revoke_anna), (2, revoke_carl)] (Some two_grants) (live_text (s_disk s)) \<and> live_text (s_disk s) = Some only_carl"
proof -
  note l = sample_lengths
  let ?jobs = "[(1, revoke_anna), (2, revoke_carl)]"
  let ?es = "[Begin 0, Begin 1, Open 0, Write 0 5, Open 1, Write 1 7, Write 0 (length only_carl - 5), Close 0, Rename 0]"
  have "\<exists>s. run_when file_is_free ?jobs ?es (idle_sys two_grants_disk) = Some s \<and> live_text (s_disk s) = Some only_carl"
    using revoke_texts l two_grants_text
    by (simp add: file_steps revoke_anna_def revoke_carl_def two_grants_disk_def)
  then obtain s where s: "run_when file_is_free ?jobs ?es (idle_sys two_grants_disk) = Some s" "live_text (s_disk s) = Some only_carl" by blast
  then show ?thesis using rights_file_is_whole [OF two_grants_disk_ok s(1)] unfolding two_grants_text by blast
qed

subsection \<open>One call after another\<close>

text \<open>
  The operation a call stands for: read, compute, replace, in one step. On a readable file
  it is \<open>apply_sync_actions\<close> for the code host's calls.
\<close>

definition atomic_call :: "call \<Rightarrow> bool \<Rightarrow> string option \<Rightarrow> call_result \<times> string option" where
  "atomic_call c io file =
     (case new_text c file of None \<Rightarrow> (Refused, file)
      | Some text \<Rightarrow> if io then (Done, Some text) else (Failed, file))"

fun sync_outcome :: "(sync_error, unit) result \<Rightarrow> call_result" where
  "sync_outcome (Inl InvalidIdentifier) = Refused"
| "sync_outcome (Inl IoError) = Failed"
| "sync_outcome (Inr u) = Done"

lemma atomic_sync:
  "readable file = file \<Longrightarrow> atomic_call (SyncCall actions) io file = map_prod sync_outcome id (apply_sync_actions io actions file)"
  by (simp add: atomic_call_def apply_sync_actions_def Let_def)

text \<open>The calls in the order in which they end, with their outcomes, and what they make of a file one after another.\<close>

fun endings :: "job list \<Rightarrow> event list \<Rightarrow> sys \<Rightarrow> (nat \<times> call_result) list" where
  "endings jobs [] s = []"
| "endings jobs (e # es) s =
     (case perform jobs e s of None \<Rightarrow> []
      | Some s' \<Rightarrow> (case s_prog s' (event_thread e) of
            Finished out \<Rightarrow> (event_thread e, out) # endings jobs es s'
          | _ \<Rightarrow> endings jobs es s'))"

fun replay :: "job list \<Rightarrow> (nat \<times> call_result) list \<Rightarrow> string option \<Rightarrow> string option option" where
  "replay jobs [] file = Some file"
| "replay jobs ((i, out) # rest) file =
     (case atomic_call (snd (jobs ! i)) (out \<noteq> Failed) file of
        (out', file') \<Rightarrow> if out' = out then replay jobs rest file' else None)"

definition computed_now :: "job \<Rightarrow> disk \<Rightarrow> string \<Rightarrow> bool" where
  "computed_now j k text \<longleftrightarrow> new_text (snd j) (live_text k) = Some text"

definition in_turn :: "job list \<Rightarrow> sys \<Rightarrow> bool" where
  "in_turn jobs s \<longleftrightarrow>
     disk_ok (s_disk s) \<and>
     (\<forall>i < length jobs. owns (computed_now (jobs ! i) (s_disk s)) (s_disk s) (jobs ! i) (s_prog s i)) \<and>
     (\<forall>i < length jobs. \<forall>j < length jobs. busy (s_prog s i) \<longrightarrow> busy (s_prog s j) \<longrightarrow> j = i)"

lemma owns_computed: "busy p \<Longrightarrow> owns P k j p \<Longrightarrow> \<exists>text. P text"
  by (cases p) auto

lemma step_is_atomic:
  assumes st: "step_effect j k p k' q" and ok: "disk_ok k" and own: "owns (computed_now j k) k j p"
  shows "case q of
      Finished out \<Rightarrow> atomic_call (snd j) (out \<noteq> Failed) (live_text k) = (out, live_text k')
    | _ \<Rightarrow> live_text k' = live_text k"
proof -
  have same: "live_text k' = live_text k \<and> q \<noteq> Finished Done \<or>
      (\<exists>body. p = Closed body \<and> computed_now j k body \<and> live_text k' = Some body \<and> q = Finished Done)"
    by (rule owner_keeps(2) [OF st ok own]) (simp add: computed_now_def)
  from st show ?thesis
  proof cases
    case (NoTmp body)
    then show ?thesis using own by (simp add: atomic_call_def computed_now_def)
  next
    case IoFailure
    then show ?thesis using owns_computed [OF IoFailure(3) own] by (auto simp: atomic_call_def computed_now_def)
  qed (use same in \<open>auto simp: atomic_call_def computed_now_def\<close>)
qed

lemma in_turn_step:
  assumes p: "perform jobs e s = Some s'" and inv: "in_turn jobs s" and free: "\<And>i. e = Begin i \<Longrightarrow> all_are_out jobs i s"
  shows "in_turn jobs s' \<and>
    (case s_prog s' (event_thread e) of
       Finished out \<Rightarrow> atomic_call (snd (jobs ! event_thread e)) (out \<noteq> Failed) (live_text (s_disk s)) = (out, live_text (s_disk s'))
     | _ \<Rightarrow> live_text (s_disk s') = live_text (s_disk s))"
proof -
  obtain i k q where i: "i = event_thread e" "i < length jobs" and st: "step_effect (jobs ! i) (s_disk s) (s_prog s i) k q"
    and s': "s_disk s' = k" "\<And>j. s_prog s' j = (if j = i then q else s_prog s j)" using p by (rule perform_effect) blast
  have ok: "disk_ok (s_disk s)" and own: "owns (computed_now (jobs ! i) (s_disk s)) (s_disk s) (jobs ! i) (s_prog s i)"
    and one: "\<And>j l. \<lbrakk>j < length jobs; l < length jobs; busy (s_prog s j); busy (s_prog s l)\<rbrakk> \<Longrightarrow> l = j"
    using inv i(2) by (auto simp: in_turn_def)
  have keeps: "disk_ok k \<and> owns (computed_now (jobs ! i) (s_disk s)) k (jobs ! i) q"
    by (rule owner_keeps(1) [OF st ok own]) (simp add: computed_now_def)
  have atomic: "case q of
      Finished out \<Rightarrow> atomic_call (snd (jobs ! i)) (out \<noteq> Failed) (live_text (s_disk s)) = (out, live_text k)
    | _ \<Rightarrow> live_text k = live_text (s_disk s)" by (rule step_is_atomic [OF st ok own])
  have out: "\<not> busy (s_prog s l)" if "l < length jobs" "l \<noteq> i" for l
  proof (cases "busy (s_prog s i)")
    case True
    then show ?thesis using one [OF i(2) that(1)] that(2) by blast
  next
    case False
    then have "s_prog s i = Idle" using begins_idle [OF st] by simp
    then obtain m where "e = Begin m" using perform_begin [OF p] i(1) by auto
    then have "all_are_out jobs i s" using free i(1) by simp
    then show ?thesis using that by (simp add: all_are_out_def list_all_iff)
  qed
  have "owns (computed_now (jobs ! i) k) k (jobs ! i) q"
    using keeps atomic by (cases q) (auto simp: computed_now_def)
  then have "owns (computed_now (jobs ! j) k) k (jobs ! j) (s_prog s' j)" if "j < length jobs" for j
    using out [OF that] by (simp add: s'(2) owns_idle)
  moreover have "l = j" if "j < length jobs" "l < length jobs" "busy (s_prog s' j)" "busy (s_prog s' l)" for j l
    using that out [OF that(1)] out [OF that(2)] by (metis s'(2))
  ultimately show ?thesis using keeps atomic by (cases q) (simp_all add: in_turn_def s' i(1) [symmetric])
qed

lemma in_turn_run:
  "in_turn jobs s \<Longrightarrow> run_when all_are_out jobs es s = Some s' \<Longrightarrow>
     in_turn jobs s' \<and> replay jobs (endings jobs es s) (live_text (s_disk s)) = Some (live_text (s_disk s'))"
proof (induction es arbitrary: s)
  case (Cons e es)
  then obtain s1 where s1: "perform jobs e s = Some s1" "run_when all_are_out jobs es s1 = Some s'"
    by (auto split: if_splits option.splits)
  have st: "in_turn jobs s1 \<and>
    (case s_prog s1 (event_thread e) of
       Finished out \<Rightarrow> atomic_call (snd (jobs ! event_thread e)) (out \<noteq> Failed) (live_text (s_disk s)) = (out, live_text (s_disk s1))
     | _ \<Rightarrow> live_text (s_disk s1) = live_text (s_disk s))"
    by (rule in_turn_step [OF s1(1) Cons.prems(1)]) (use Cons.prems(2) in \<open>auto split: if_splits\<close>)
  then show ?case using Cons.IH [OF _ s1(2)] by (simp add: s1(1) split: progress.splits)
qed simp

lemma in_turn_idle: "disk_ok k \<Longrightarrow> in_turn jobs (idle_sys k)"
  by (simp add: in_turn_def idle_sys_def)

text \<open>
  C19. When no two calls overlap, as a lock around the whole call would have it, the system calls implement the
  atomic operation: the file is what the calls that have ended, in the order in which they
  ended, make of it one after another, each with the outcome it reported; a call under way, or one that
  failed or died on the way, has not changed it.
\<close>

theorem updates_in_turn_are_atomic:
  assumes "disk_ok k" and "run_when all_are_out jobs es (idle_sys k) = Some s"
  shows "replay jobs (endings jobs es (idle_sys k)) (live_text k) = Some (live_text (s_disk s))"
  using in_turn_run [OF in_turn_idle [OF assms(1)] assms(2)] by (simp add: idle_sys_def)

theorem updates_in_turn_are_atomic_witness:
  "\<exists>s. run_when all_are_out [(1, revoke_anna), (1, revoke_carl)]
       ([Begin 0] @ finish_call 0 16 @ [Begin 1, Open 1, Fail 1]) (idle_sys two_grants_disk) = Some s \<and>
     live_text (s_disk s) = Some only_carl \<and>
     replay [(1, revoke_anna), (1, revoke_carl)] [(0, Done), (1, Failed)] (Some two_grants) = Some (Some only_carl)"
proof -
  let ?jobs = "[(1, revoke_anna), (1, revoke_carl)]" and ?es = "[Begin 0] @ finish_call 0 16 @ [Begin 1, Open 1, Fail 1]"
  have "\<exists>s. run_when all_are_out ?jobs ?es (idle_sys two_grants_disk) = Some s \<and> live_text (s_disk s) = Some only_carl \<and>
      endings ?jobs ?es (idle_sys two_grants_disk) = [(0, Done), (1, Failed)]"
    using revoke_texts sample_lengths two_grants_text
    by (simp add: file_steps finish_call_def revoke_anna_def revoke_carl_def two_grants_disk_def)
  then obtain s where s: "run_when all_are_out ?jobs ?es (idle_sys two_grants_disk) = Some s" "live_text (s_disk s) = Some only_carl"
    "endings ?jobs ?es (idle_sys two_grants_disk) = [(0, Done), (1, Failed)]" by blast
  from updates_in_turn_are_atomic [OF two_grants_disk_ok s(1)] s show ?thesis by (simp add: two_grants_text)
qed

subsection \<open>Two calls at once\<close>

text \<open>
  Nothing in the code keeps two calls apart: each connection has its thread, and the periodic
  reconciliation one more. \<open>overlapped\<close> lets both read before either writes; in
  \<open>crossed\<close> both also have the temporary file open.
\<close>

definition overlapped :: "nat \<Rightarrow> nat \<Rightarrow> event list" where
  "overlapped n0 n1 = [Begin 0, Begin 1] @ finish_call 0 n0 @ finish_call 1 n1"

definition crossed :: "nat \<Rightarrow> nat \<Rightarrow> event list" where
  "crossed n1 m = [Begin 0, Begin 1, Open 0, Open 1, Write 1 n1, Close 1, Rename 1, Write 0 m]"

lemma run_append:
  "run_when b jobs (es1 @ es2) s = (case run_when b jobs es1 s of None \<Rightarrow> None | Some s' \<Rightarrow> run_when b jobs es2 s')"
  by (induction es1 arbitrary: s) (auto split: option.split)

lemma finish_run:
  assumes "i < length jobs" and "s_prog s i = Computed body" and "disk_ok (s_disk s)"
  shows "\<exists>s'. run_when b jobs (finish_call i (length body)) s = Some s' \<and> disk_ok (s_disk s') \<and>
    live_text (s_disk s') = Some body \<and> s_prog s' = (s_prog s)(i := Finished Done)"
proof -
  let ?x = "tmp_path (jobs ! i)"
  obtain n k1 where o: "open_truncate ?x (s_disk s) = (n, k1)" by (cases "open_truncate ?x (s_disk s)")
  note k1 = disk_ok_open [OF assms(3) o]
  let ?k2 = "write_inode n 0 body k1"
  have k2: "disk_ok ?k2" "k_tmp ?k2 ?x = Some n" "k_data ?k2 n = body"
    using disk_ok_write [of k1 ?x n 0 body] k1 by (simp_all add: write_inode_def write_at_def)
  obtain k3 where k3: "rename_tmp ?x ?k2 = Some k3" "disk_ok k3" "live_text k3 = Some body"
    using disk_ok_rename [OF k2(1,2)] k2(3) by auto
  show ?thesis
    using assms(1,2) o k2 k3 by (auto simp: finish_call_def perform_def Let_def set_prog_def)
qed

lemma both_computed:
  assumes "new_text c0 (live_text k) = Some t0" and "new_text c1 (live_text k) = Some t1"
  shows "run_when any_time [(p0, c0), (p1, c1)] ([Begin 0, Begin 1] @ es) (idle_sys k) =
    run_when any_time [(p0, c0), (p1, c1)] es \<lparr>s_disk = k, s_prog = (\<lambda>_. Idle)(0 := Computed t0, Suc 0 := Computed t1)\<rparr>"
  using assms by (simp add: perform_def Let_def idle_sys_def any_time_def set_prog_def)

text \<open>
  C20. Two updates at once can lose one without either noticing. Whatever the two calls are (two webhooks, a
  webhook and the reconciliation, an approval whose hash check has passed and a revocation)
  and whether or not they run in one process, there is an interleaving after which both report
  success and the file is what the second alone makes of the old one: the first, which may have revoked
  access, has left no trace.
\<close>

theorem overlapping_update_is_lost:
  assumes "disk_ok k" and "new_text c0 (live_text k) = Some t0" and "new_text c1 (live_text k) = Some t1"
  shows "\<exists>s. run_when any_time [(p0, c0), (p1, c1)] (overlapped (length t0) (length t1)) (idle_sys k) = Some s \<and>
    s_prog s 0 = Finished Done \<and> s_prog s 1 = Finished Done \<and>
    (Done, live_text (s_disk s)) = atomic_call c1 True (live_text k)"
proof -
  let ?jobs = "[(p0, c0), (p1, c1)]"
  let ?s = "\<lparr>s_disk = k, s_prog = (\<lambda>_. Idle)(0 := Computed t0, Suc 0 := Computed t1)\<rparr>"
  obtain s1 where s1: "run_when any_time ?jobs (finish_call 0 (length t0)) ?s = Some s1" "disk_ok (s_disk s1)"
    "s_prog s1 = (s_prog ?s)(0 := Finished Done)"
    using finish_run [of 0 ?jobs ?s t0 any_time] assms(1) by auto
  obtain s2 where s2: "run_when any_time ?jobs (finish_call (Suc 0) (length t1)) s1 = Some s2"
    "live_text (s_disk s2) = Some t1" "s_prog s2 = (s_prog s1)(Suc 0 := Finished Done)"
    using finish_run [of "Suc 0" ?jobs s1 t1 any_time] s1(2,3) by auto
  have "run_when any_time ?jobs (overlapped (length t0) (length t1)) (idle_sys k) = Some s2"
    unfolding overlapped_def by (subst both_computed [OF assms(2,3)]) (simp add: run_append s1(1) s2(1))
  then show ?thesis using s1(3) s2(2,3) assms(3) by (simp add: atomic_call_def)
qed

theorem overlapping_update_is_lost_witness:
  "\<exists>s out. run_when any_time [(1, revoke_carl), (1, revoke_anna)] (overlapped 17 16) (idle_sys two_grants_disk) = Some s \<and>
     s_prog s 0 = Finished Done \<and> s_prog s 1 = Finished Done \<and>
     live_text (s_disk s) = Some out \<and> hm_has (r_grants (parse out)) ''carl'' ''beta''"
proof -
  have "hm_has (r_grants (parse only_carl)) ''carl'' ''beta''" by code_simp
  then show ?thesis
    using overlapping_update_is_lost [OF two_grants_disk_ok, of revoke_carl only_anna revoke_anna only_carl 1 1]
    by (auto simp: two_grants_text revoke_texts sample_lengths atomic_call_def)
qed

text \<open>
  C21. Two updates that share a temporary file can put a text in force that nobody computed. The call that
  opened it first still holds the handle when the other one has renamed the file into place, so each of its writes
  goes into the live rights file: after \<open>m\<close> bytes the policy in force is the beginning of
  one text and the rest of the other, although the second call was told it succeeded;
  and the first, which wrote there, is told it failed.
\<close>

theorem crossed_updates_mix:
  assumes "disk_ok k" and "new_text c0 (live_text k) = Some t0" and "new_text c1 (live_text k) = Some t1"
    and "tmp_path (p0, c0) = tmp_path (p1, c1)" and "m \<le> length t0"
  shows "\<exists>s. run_when any_time [(p0, c0), (p1, c1)] (crossed (length t1) m) (idle_sys k) = Some s \<and>
    s_prog s 1 = Finished Done \<and> live_text (s_disk s) = Some (take m t0 @ drop m t1) \<and>
    (m = length t0 \<longrightarrow> (\<exists>s'. run_when any_time [(p0, c0), (p1, c1)] [Close 0, Rename 0] s = Some s' \<and>
       s_prog s' 0 = Finished Failed \<and> live_text (s_disk s') = Some (t0 @ drop (length t0) t1)))"
proof -
  let ?jobs = "[(p0, c0), (p1, c1)]" and ?x = "tmp_path (p1, c1)"
  let ?s = "\<lparr>s_disk = k, s_prog = (\<lambda>_. Idle)(0 := Computed t0, Suc 0 := Computed t1)\<rparr>"
  obtain n k1 where o: "open_truncate ?x k = (n, k1)" by (cases "open_truncate ?x k")
  have k1: "k_tmp k1 ?x = Some n" "k_data k1 n = []" using disk_ok_open [OF assms(1) o] by simp_all
  then have o2: "open_truncate ?x k1 = (n, k1\<lparr>k_data := (k_data k1)(n := [])\<rparr>)" by (simp add: open_truncate_def)
  let ?k = "\<lparr>k_rights = Some n, k_tmp = (k_tmp k1)(?x := None), k_data = (k_data k1)(n := t1), k_next = k_next k1\<rparr>"
  let ?p = "(\<lambda>_. Idle)(0 := Writing n 0 t0, Suc 0 := Finished Done)"
  have r: "run_when any_time ?jobs [Open 0, Open 1, Write 1 (length t1), Close 1, Rename 1] ?s = Some \<lparr>s_disk = ?k, s_prog = ?p\<rparr>"
    using o o2 k1 by (auto simp: perform_def Let_def any_time_def set_prog_def assms(4) write_inode_def write_at_def rename_tmp_def)
  have "run_when any_time ?jobs (crossed (length t1) m) (idle_sys k) =
      run_when any_time ?jobs ([Open 0, Open 1, Write 1 (length t1), Close 1, Rename 1] @ [Write 0 m]) ?s"
    using both_computed [OF assms(2,3), of p0 p1 "[Open 0, Open 1, Write 1 (length t1), Close 1, Rename 1, Write 0 m]"]
    by (simp add: crossed_def)
  then show ?thesis unfolding run_append r option.case using assms(5)
    by (auto simp: perform_def Let_def any_time_def set_prog_def write_inode_def write_at_def rename_tmp_def live_text_def assms(4))
qed

text \<open>
  In the example the mixture gives \<open>carl\<close> a tree that no policy ever gave \<open>carl\<close>.
\<close>

theorem crossed_updates_mix_witness:
  "\<exists>s out. run_when any_time [(1, revoke_anna), (1, revoke_carl)] (crossed 17 11) (idle_sys two_grants_disk) = Some s \<and>
     s_prog s 1 = Finished Done \<and> live_text (s_disk s) = Some out \<and>
     hm_has (r_grants (parse out)) ''carl'' ''alpha'' \<and> \<not> hm_has (r_grants (parse two_grants)) ''carl'' ''alpha''"
proof -
  have "hm_has (r_grants (parse (take 11 only_carl @ drop 11 only_anna))) ''carl'' ''alpha''"
    "\<not> hm_has (r_grants (parse two_grants)) ''carl'' ''alpha''" by code_simp+
  moreover have "tmp_path (1, revoke_anna) = tmp_path (1, revoke_carl)" by (simp add: revoke_anna_def revoke_carl_def)
  ultimately show ?thesis
    using crossed_updates_mix [OF two_grants_disk_ok, of revoke_anna only_carl revoke_carl only_anna 1 1 11]
    by (auto simp: two_grants_text revoke_texts sample_lengths)
qed

end
