(* ===== verification/Mirror_Lease.thy ===== *)
theory Mirror_Lease
  imports Sync Server_Safety
begin

text \<open>
  The freshness lease of a mirrored policy (\<^verbatim>\<open>--sync-max-age\<close>): requests are refused
  when the rights file is older than the lease (\<^verbatim>\<open>Watched::is_fresh\<close>), and the
  reconciliation thread of \<^verbatim>\<open>main\<close> rewrites it every \<^verbatim>\<open>--sync-interval\<close>
  seconds. What is modelled is the file with its modification time under the passing of time,
  the rounds of that thread and the webhooks. A round takes time: the hosts are asked page by page, and the file is
  read, changed and written only after the last answer. Beside the file stands when the last successful round began, when it
  wrote and what the hosts answered in between, which the server does not keep. The results say what the lease is worth: with the
  reconciliation alone it counts from the write, so that the answers behind it are older by up to the length of
  the round, and a webhook renews it without asking anyone.
\<close>

subsection \<open>Time, reconciliations and deliveries\<close>

type_synonym host = "http_request \<Rightarrow> (remote_error, json list) result"

record mirror =
  mi_now :: nat
  mi_file :: fs_file
  mi_round :: "nat option"
  mi_confirmed :: "(nat \<times> nat \<times> host) option"

text \<open>
  The seconds that pass; the beginning of a round; its end, with the answers that were given since it
  began and whether the file can be written; a webhook's action.
\<close>

datatype mirror_event = Pass nat | Ask | Answered host bool | Deliver sync_action bool

definition reconcile_with :: "sync_config \<Rightarrow> host \<Rightarrow> bool \<Rightarrow> string option \<Rightarrow> (remote_error, nat) result \<times> string option" where
  "reconcile_with cfg host io = reconcile_remote host io (c_mapping cfg) (c_github_token cfg) (c_gitlab_token cfg)"

definition mirror_ask :: "mirror \<Rightarrow> mirror" where
  "mirror_ask s = s\<lparr>mi_round := Some (mi_now s)\<rparr>"

text \<open>A failed round leaves the file alone.\<close>

definition mirror_answered :: "sync_config \<Rightarrow> host \<Rightarrow> bool \<Rightarrow> mirror \<Rightarrow> mirror" where
  "mirror_answered cfg host io s =
     (case mi_round s of None \<Rightarrow> s
      | Some began \<Rightarrow>
          (case reconcile_with cfg host io (read_to_string (mi_file s)) of
             (Inr n, Some out) \<Rightarrow>
               s\<lparr>mi_file := Some (mi_now s, out), mi_round := None, mi_confirmed := Some (began, mi_now s, host)\<rparr>
           | _ \<Rightarrow> s\<lparr>mi_round := None\<rparr>))"

definition mirror_deliver :: "sync_action \<Rightarrow> bool \<Rightarrow> mirror \<Rightarrow> mirror" where
  "mirror_deliver a io s =
     (case apply_sync_action io a (read_to_string (mi_file s)) of
        (Inr _, Some out) \<Rightarrow> s\<lparr>mi_file := Some (mi_now s, out)\<rparr>
      | _ \<Rightarrow> s)"

fun mirror_step :: "sync_config \<Rightarrow> mirror_event \<Rightarrow> mirror \<Rightarrow> mirror" where
  "mirror_step cfg (Pass d) s = s\<lparr>mi_now := mi_now s + d\<rparr>"
| "mirror_step cfg Ask s = mirror_ask s"
| "mirror_step cfg (Answered host io) s = mirror_answered cfg host io s"
| "mirror_step cfg (Deliver a io) s = mirror_deliver a io s"

definition mirror_run :: "sync_config \<Rightarrow> mirror_event list \<Rightarrow> mirror \<Rightarrow> mirror" where
  "mirror_run cfg = fold (mirror_step cfg)"

definition mirror_start :: "nat \<Rightarrow> fs_file \<Rightarrow> mirror" where
  "mirror_start now f = \<lparr>mi_now = now, mi_file = f, mi_round = None, mi_confirmed = None\<rparr>"

text \<open>The thread: sleep, then one round, which takes a while and may fail.\<close>

definition sync_loop :: "nat \<Rightarrow> (nat \<times> host \<times> bool) list \<Rightarrow> mirror_event list" where
  "sync_loop interval rounds = concat (map (\<lambda>(d, host, io). [Pass interval, Ask, Pass d, Answered host io]) rounds)"

fun no_delivery :: "mirror_event \<Rightarrow> bool" where
  "no_delivery (Deliver a io) \<longleftrightarrow> False"
| "no_delivery _ \<longleftrightarrow> True"

lemma mirror_run_simps [simp]:
  "mirror_run cfg [] s = s"
  "mirror_run cfg (e # es) s = mirror_run cfg es (mirror_step cfg e s)"
  "mirror_run cfg (es @ es') s = mirror_run cfg es' (mirror_run cfg es s)"
  by (simp_all add: mirror_run_def)

subsection \<open>The file and the hosts' last answers\<close>

definition as_answered :: "sync_config \<Rightarrow> mirror \<Rightarrow> bool" where
  "as_answered cfg s \<longleftrightarrow> (case mi_round s of None \<Rightarrow> True | Some b \<Rightarrow> b \<le> mi_now s) \<and>
     (case mi_confirmed s of None \<Rightarrow> True
      | Some (b, c, host) \<Rightarrow> b \<le> c \<and> c \<le> mi_now s \<and>
          (\<exists>out old io n. mi_file s = Some (c, out) \<and> reconcile_with cfg host io old = (Inr n, Some out)))"

lemma as_answered_step:
  assumes "as_answered cfg s" and "no_delivery e"
  shows "as_answered cfg (mirror_step cfg e s)"
proof (cases e)
  case (Pass d)
  then show ?thesis using assms(1) by (auto simp: as_answered_def split: option.splits)
next
  case Ask
  then show ?thesis using assms(1) by (auto simp: as_answered_def mirror_ask_def split: option.splits)
next
  case (Answered host io)
  then show ?thesis using assms(1)
    by (auto simp: as_answered_def mirror_answered_def split: prod.split sum.split option.split)
next
  case (Deliver a io)
  then show ?thesis using assms(2) by simp
qed

lemma as_answered_run: "as_answered cfg s \<Longrightarrow> list_all no_delivery es \<Longrightarrow> as_answered cfg (mirror_run cfg es s)"
  by (induction es arbitrary: s) (simp_all add: as_answered_step)

lemma answered_grants:
  assumes "reconcile_with cfg host io old = (Inr n, Some out)" and "t \<in> snd ` set (c_mapping cfg)"
    and "hm_has (r_grants (parse out)) u t"
  shows "\<exists>source us. (source, t) \<in> set (c_mapping cfg) \<and> u \<in> set us \<and>
    source_members host (c_github_token cfg) (c_gitlab_token cfg) source = Inr us"
proof -
  from reconcile_written [OF assms(1) [unfolded reconcile_with_def]] obtain d where
    d: "desired_members (source_members host (c_github_token cfg) (c_gitlab_token cfg)) (c_mapping cfg) [] = Inr d"
    and g: "\<And>u t. hm_has (r_grants (parse out)) u t \<longleftrightarrow>
      (case map_of d t of None \<Rightarrow> hm_has (r_grants (parse (case old of None \<Rightarrow> [] | Some c \<Rightarrow> c))) u t | Some us \<Rightarrow> u \<in> set us)"
    by (metis option.inject)
  have "t \<in> fst ` set d" using hm_vals_desired [OF d] assms(2) by simp
  then obtain us where us: "map_of d t = Some us" using map_of_keys [of d t] by auto
  then have "u \<in> set us" and "hm_vals d t = us" using g assms(3) by (simp_all add: hm_vals_Some)
  then show ?thesis using hm_vals_desired [OF d, of u t] by auto
qed

lemma load_rights_grant:
  assumes "hm_has (r_grants (load_rights (Some (c, out)))) u t"
  shows "hm_has (r_grants (parse out)) u t"
  using assms by (auto simp: load_rights_def read_to_string_def parse_Nil hm_has_def rights_default_def split: if_splits)

text \<open>One repository mapped to one tree, on a host that lists one member.\<close>

definition sample_mirror :: sync_config where
  "sample_mirror = \<lparr>c_mapping = [(''github:acme/api'', ''alpha'')], c_github_secret = None, c_gitlab_secret = None,
     c_github_token = Some ''t'', c_gitlab_token = None\<rparr>"

definition alpha_served :: string where
  "alpha_served = unlines [join [tab] [''tree'', ''alpha'', ''h:1'', ''ours''], join [tab] [''grant'', ''bob'', ''alpha'']]"

lemma sample_members:
  "source_members sample_hosts (Some ''t'') None ''github:acme/api'' = Inr [''anna'']"
proof -
  have "is_valid_identifier ''anna''" "\<not> is_valid_identifier ''anna.schmidt''" by code_simp+
  then show ?thesis using listed_members [OF sample_lists] by simp
qed

lemma sample_reconciled:
  "reconcile_with sample_mirror sample_hosts True old =
     (Inr 1, Some (mutate_rights_content (case old of None \<Rightarrow> [] | Some c \<Rightarrow> c) (SetTreeGrants ''alpha'' [''anna''])))"
proof -
  have "is_valid_identifier ''alpha''" "is_valid_identifier ''anna''" by code_simp+
  then show ?thesis
    by (simp add: reconcile_with_def reconcile_remote_def sample_mirror_def sample_members apply_sync_cases)
qed

lemma collect_failed: "\<lbrakk>a < b; fetch a = Inl e\<rbrakk> \<Longrightarrow> collect_pages fetch key [a..<b] us = Inl e"
  by (simp add: upt_conv_Cons)

lemma sample_failed: "reconcile_with sample_mirror (\<lambda>_. Inl NoLogin) io old = (Inl NoLogin, old)"
proof -
  have p: "strip_prefix ''github:'' ''github:acme/api'' = Some ''acme/api''" by code_simp
  have "source_members (\<lambda>_. Inl NoLogin) (Some ''t'') None ''github:acme/api'' = Inl NoLogin"
    unfolding source_members_def p option.case github_members_def by (subst collect_failed) simp_all
  then show ?thesis by (simp add: reconcile_with_def reconcile_remote_def sample_mirror_def)
qed

subsection \<open>The lease without deliveries\<close>

text \<open>
  C22. As long as only reconciliations write it, the lease counts from the last write by a round that succeeded, to the
  second, however many rounds have failed since: the mirror is fresh exactly while that write is no older than
  \<^verbatim>\<open>--sync-max-age\<close>. The code hosts gave the answers behind it between the beginning of that
  round and the write, so whoever is let through to
  a mapped tree has a role for it or was reported by the host of one of its repositories in that round, at most the lease and the length of the
  round ago. The length of the round is not part of the lease.
\<close>

theorem lease_counts_from_the_write:
  assumes "s = mirror_run cfg es (mirror_start start f)" and "list_all no_delivery es" and "mi_confirmed s = Some (began, written, host)"
    and "cf_sync_max_age cf = Some age"
    and "wo_now w = mi_now s" and "wo_rights_file w = mi_file s" and "wo_rights w = load_rights (mi_file s)"
  shows "began \<le> written \<and> written \<le> mi_now s \<and> (mirror_fresh cf w \<longleftrightarrow> mi_now s - written \<le> age) \<and>
    ((t, q) \<in> set (oc_sent (guarded cf w sv rq)) \<and> t_name t \<in> snd ` set (c_mapping cfg) \<longrightarrow>
       mi_now s - began \<le> age + (written - began) \<and> (\<exists>x. identity_of cf w rq = Some x \<and>
         ((\<exists>role\<in>set (roles_for (wo_rights w) (id_subject x) (id_groups x)). hm_has (r_roles (wo_rights w)) role (t_name t)) \<or>
          (\<exists>source us. (source, t_name t) \<in> set (c_mapping cfg) \<and> id_subject x \<in> set us \<and>
             source_members host (c_github_token cfg) (c_gitlab_token cfg) source = Inr us))))"
proof -
  have "as_answered cfg s" unfolding assms(1) by (rule as_answered_run [OF _ assms(2)]) (simp add: as_answered_def mirror_start_def)
  then obtain out old io n where b: "began \<le> written" and c: "written \<le> mi_now s" and w: "mi_file s = Some (written, out)"
    and r: "reconcile_with cfg host io old = (Inr n, Some out)" using assms(3) by (auto simp: as_answered_def)
  have fresh: "mirror_fresh cf w \<longleftrightarrow> mi_now s - written \<le> age"
    using c by (simp add: mirror_fresh_def assms(4-6) is_fresh_def w mtime_of_def)
  have let_in: "\<exists>x. identity_of cf w rq = Some x \<and> (hm_has (r_grants (wo_rights w)) (id_subject x) (t_name t) \<or>
      (\<exists>role\<in>set (roles_for (wo_rights w) (id_subject x) (id_groups x)). hm_has (r_roles (wo_rights w)) role (t_name t)))"
    if sent: "(t, q) \<in> set (oc_sent (guarded cf w sv rq))"
  proof -
    have "may (wo_rights w) u t' \<Longrightarrow> may_with_groups (wo_rights w) u gs t'" for u gs t'
      using may_mono_groups [of "[]" gs] by (simp add: may_def)
    then obtain x where "identity_of cf w rq = Some x" "may_with_groups (wo_rights w) (id_subject x) (id_groups x) (t_name t)"
      using guarded_sent [OF sent] impact_sent [of t q cf w sv rq] mcp_sent [of t q w sv rq] by blast
    then show ?thesis by (auto simp: may_iff)
  qed
  have old: "mi_now s - began \<le> age + (written - began)" if "mi_now s - written \<le> age" using that b c by linarith
  show ?thesis using b c fresh old guarded_sent [of t q cf w sv rq] let_in answered_grants [OF r, of "t_name t"] load_rights_grant [of written out]
    unfolding assms(7) w by blast
qed

text \<open>A host that answers slowly and then not at all: the write carries for the lease, the answers for twenty seconds more.\<close>

definition outage :: "nat \<Rightarrow> mirror" where
  "outage d = mirror_run sample_mirror [Ask, Pass 20, Answered sample_hosts True, Pass 600, Ask, Answered (\<lambda>_. Inl NoLogin) True, Pass d]
     (mirror_start 1000 (Some (5, alpha_served)))"

definition outage_world :: "nat \<Rightarrow> (unit, json) surround" where
  "outage_world d = (sample_world sample_stream)\<lparr>wo_now := mi_now (outage d), wo_rights_file := mi_file (outage d),
     wo_rights := load_rights (mi_file (outage d))\<rparr>"

theorem lease_counts_from_the_write_witness:
  "mirror_fresh (sample_config\<lparr>cf_sync_max_age := Some 900\<rparr>) (outage_world 300) \<and> mi_now (outage 300) - 1000 = 920 \<and>
   \<not> mirror_fresh (sample_config\<lparr>cf_sync_max_age := Some 900\<rparr>) (outage_world 301)"
proof -
  have c: "mi_confirmed (outage d) = Some (1000, 1020, sample_hosts)" and n: "mi_now (outage d) = 1620 + d" for d
    by (simp_all add: outage_def mirror_start_def mirror_ask_def mirror_answered_def sample_reconciled sample_failed)
  have "mirror_fresh (sample_config\<lparr>cf_sync_max_age := Some 900\<rparr>) (outage_world d) \<longleftrightarrow> mi_now (outage d) - 1020 \<le> 900" for d
    using lease_counts_from_the_write [OF outage_def [of d] _ c, where cf = "sample_config\<lparr>cf_sync_max_age := Some 900\<rparr>" and w = "outage_world d"]
    by (simp add: outage_world_def)
  then show ?thesis by (simp add: n)
qed

subsection \<open>The loop keeps the lease\<close>

lemma fresh_pass: "is_fresh now age f \<Longrightarrow> d + age \<le> age' \<Longrightarrow> is_fresh (now + d) age' f"
  by (auto simp: is_fresh_def split: option.splits)

lemma answered_keeps_fresh:
  assumes "is_fresh (mi_now s) age (mi_file s)"
  shows "is_fresh (mi_now (mirror_answered cfg host io s)) age (mi_file (mirror_answered cfg host io s))"
proof -
  have "is_fresh (mi_now s) age (Some (mi_now s, out))" for out by (simp add: is_fresh_def mtime_of_def)
  then show ?thesis using assms by (simp add: mirror_answered_def split: prod.split sum.split option.split)
qed

lemma loop_ages:
  "list_all (\<lambda>(d, host, io). d \<le> longest) rounds \<Longrightarrow> is_fresh (mi_now s) age (mi_file s) \<Longrightarrow>
     is_fresh (mi_now (mirror_run cfg (sync_loop interval rounds) s)) (length rounds * (interval + longest) + age)
       (mi_file (mirror_run cfg (sync_loop interval rounds) s))"
proof (induction rounds arbitrary: s age)
  case (Cons r rounds)
  obtain d host io where r: "r = (d, host, io)" by (cases r) auto
  let ?s = "mirror_run cfg [Pass interval, Ask, Pass d] s"
  have "is_fresh (mi_now ?s) (interval + longest + age) (mi_file ?s)"
    using fresh_pass [OF Cons.prems(2), of "interval + d" "interval + longest + age"] Cons.prems(1) by (simp add: r add.assoc mirror_ask_def)
  from Cons.IH [OF _ answered_keeps_fresh [OF this, of cfg host io]] Cons.prems(1) show ?case
    by (simp add: r sync_loop_def algebra_simps)
qed (simp add: sync_loop_def)

text \<open>
  The two intervals that keep the service up: after a reconciliation that succeeded, up to \<open>k\<close> rounds in a row
  may fail, and the next one be under way, without a request being refused as stale, if
  \<^verbatim>\<open>--sync-max-age\<close> covers \<open>k + 1\<close> times the interval and the longest round. The start-up
  does not compare the two options.
\<close>

theorem lease_outlasts_failures:
  assumes "reconcile_with cfg host io (read_to_string (mi_file s)) = (Inr n, Some out)"
    and "list_all (\<lambda>(d, host, io). d \<le> longest) rounds" and "length rounds \<le> k"
    and "(k + 1) * (interval + longest) \<le> age" and "x \<le> interval + longest"
    and "s' = mirror_run cfg ([Ask, Answered host io] @ sync_loop interval rounds @ [Pass x]) s"
  shows "is_fresh (mi_now s') age (mi_file s')"
proof -
  let ?s1 = "mirror_run cfg [Ask, Answered host io] s"
  have "is_fresh (mi_now ?s1) 0 (mi_file ?s1)" by (simp add: assms(1) mirror_ask_def mirror_answered_def is_fresh_def mtime_of_def)
  note l = fresh_pass [OF loop_ages [OF assms(2) this, of cfg interval], of x age]
  have "length rounds * (interval + longest) \<le> k * (interval + longest)" using assms(3) by (rule mult_le_mono1)
  moreover have "(k + 1) * (interval + longest) = k * (interval + longest) + (interval + longest)" by simp
  ultimately have "x + (length rounds * (interval + longest) + 0) \<le> age" using assms(4,5) by linarith
  from l [OF this] show ?thesis unfolding assms(6) by simp
qed

theorem lease_outlasts_failures_witness:
  "let s = mirror_run sample_mirror ([Ask, Answered sample_hosts True] @
      sync_loop 300 [(10, \<lambda>_. Inl NoLogin, True), (20, \<lambda>_. Inl NoLogin, True)] @ [Pass 320]) (mirror_start 1000 None)
   in is_fresh (mi_now s) 960 (mi_file s)"
  unfolding Let_def
  by (rule lease_outlasts_failures [where longest = 20 and k = 2 and x = 320, OF sample_reconciled _ _ _ _ refl]) simp_all

subsection \<open>Deliveries renew the lease\<close>

text \<open>Deliveries that come just before the lease runs out.\<close>

definition steady_deliveries :: "nat \<Rightarrow> sync_action list \<Rightarrow> mirror_event list" where
  "steady_deliveries age acts = concat (map (\<lambda>a. [Pass age, Deliver a True]) acts)"

text \<open>
  C23. A webhook is taken as proof that no event was missed, which the code says it is not: every delivery that is applied makes
  the mirror fresh for another \<open>age\<close> seconds, whatever tree it is about and although no host has been
  asked. With one delivery per lease the mirror stays fresh for ever while every
  reconciliation fails or none is configured, and the last complete answer gets as old as one likes.
\<close>

theorem delivery_renews_lease:
  assumes "list_all action_valid acts"
    and "s' = mirror_run cfg (steady_deliveries age acts) s" and "acts \<noteq> []"
  shows "mi_now s' = mi_now s + length acts * age \<and> mi_confirmed s' = mi_confirmed s \<and> mtime_of (mi_file s') = Some (mi_now s') \<and>
    (\<forall>x\<le>age. is_fresh (mi_now s' + x) age (mi_file s'))"
proof -
  have one: "apply_sync_action True a g = (Inr (), Some (mutate_rights_content (case g of None \<Rightarrow> [] | Some c \<Rightarrow> c) a))"
    if "action_valid a" for a g
    using that by (simp add: apply_sync_action_def apply_sync_cases)
  have "mi_now (mirror_run cfg (steady_deliveries age acts) s) = mi_now s + length acts * age \<and>
      mi_confirmed (mirror_run cfg (steady_deliveries age acts) s) = mi_confirmed s \<and>
      (acts \<noteq> [] \<longrightarrow> mtime_of (mi_file (mirror_run cfg (steady_deliveries age acts) s)) =
         Some (mi_now (mirror_run cfg (steady_deliveries age acts) s)))"
    using assms(1)
  proof (induction acts arbitrary: s)
    case (Cons a acts)
    have "mirror_run cfg (steady_deliveries age (a # acts)) s =
        mirror_run cfg (steady_deliveries age acts) (mirror_step cfg (Deliver a True) (mirror_step cfg (Pass age) s))"
      by (simp add: steady_deliveries_def del: mirror_step.simps)
    then show ?case using Cons.IH [of "mirror_step cfg (Deliver a True) (mirror_step cfg (Pass age) s)"] Cons.prems
    proof (cases "acts = []")
      case True
      then show ?thesis using Cons.prems by (simp add: one steady_deliveries_def mirror_deliver_def mtime_of_def)
    qed (simp add: one steady_deliveries_def mirror_deliver_def)
  qed (simp add: steady_deliveries_def)
  then show ?thesis using assms(2,3) by (simp add: is_fresh_def)
qed

theorem delivery_renews_lease_witness:
  "let s = mirror_run sample_mirror (steady_deliveries 900 [Grant ''bob'' ''beta'', Revoke ''bob'' ''beta'', Grant ''bob'' ''beta'']) (mirror_start 1000 None)
   in mi_now s = 3700 \<and> mi_confirmed s = None \<and> is_fresh (mi_now s + 900) 900 (mi_file s)"
proof -
  have "list_all action_valid [Grant ''bob'' ''beta'', Revoke ''bob'' ''beta'', Grant ''bob'' ''beta'']" by code_simp
  note r = delivery_renews_lease [OF this refl, where age = 900 and s = "mirror_start 1000 None" and cfg = sample_mirror]
  let ?s = "mirror_run sample_mirror (steady_deliveries 900 [Grant ''bob'' ''beta'', Revoke ''bob'' ''beta'', Grant ''bob'' ''beta'']) (mirror_start 1000 None)"
  have "mi_now ?s = 3700" "mi_confirmed ?s = None" using r by (simp_all add: mirror_start_def)
  moreover have "is_fresh (mi_now ?s + 900) 900 (mi_file ?s)" using r by blast
  ultimately show ?thesis unfolding Let_def by blast
qed

subsection \<open>A delivery during a round\<close>

text \<open>
  A round does not look at what happened while it asked: a revocation that a webhook delivers between the host's answer and the write is
  undone by the write, and the user has the tree again until the next round.
\<close>

theorem round_undoes_revocation:
  assumes "s1 = mirror_run sample_mirror [Ask, Pass d, Deliver (Revoke ''anna'' ''alpha'') True] s"
    and "s2 = mirror_run sample_mirror [Answered sample_hosts True] s1"
  shows "\<not> hm_has (r_grants (load_rights (mi_file s1))) ''anna'' ''alpha'' \<and>
    (\<exists>out. mi_file s2 = Some (mi_now s2, out) \<and> hm_has (r_grants (parse out)) ''anna'' ''alpha'')"
proof -
  have i: "action_valid (Revoke ''anna'' ''alpha'')" "action_valid (SetTreeGrants ''alpha'' [''anna''])" by code_simp+
  let ?p = "mutate_rights_content (case read_to_string (mi_file s) of None \<Rightarrow> [] | Some c \<Rightarrow> c) (Revoke ''anna'' ''alpha'')"
  have one: "mi_file s1 = Some (mi_now s + d, ?p)" "mi_round s1 = Some (mi_now s)"
    using i(1) by (simp_all add: assms(1) mirror_ask_def mirror_deliver_def apply_sync_action_def apply_sync_cases)
  let ?o = "case read_to_string (mi_file s1) of None \<Rightarrow> [] | Some c \<Rightarrow> c"
  have two: "mi_file s2 = Some (mi_now s2, mutate_rights_content ?o (SetTreeGrants ''alpha'' [''anna'']))"
    by (simp add: assms(2) one(2) mirror_answered_def sample_reconciled)
  show ?thesis
    using load_rights_grant [of "mi_now s + d" ?p "''anna''" "''alpha''"] one two mutate_grants [OF i(1)] mutate_grants [OF i(2)] by auto
qed

end
