(* ===== verification/Audit_Lock.thy ===== *)
theory Audit_Lock
  imports Audit_Log
begin

text \<open>
  Writers of one audit log at the same time: the threads and replicas that run
  \<^verbatim>\<open>write_record\<close> of \<^verbatim>\<open>src/audit.rs\<close> on one path. Each takes the
  exclusive lock of the lock file, rotates, reads the last signature, opens the log and appends its line,
  in as many writes as it takes, and gives the lock back; it may fail or die between any two of these steps.
  The theory shows that the lock does what the operation \<open>write_record_locked\<close> assumes of it:
  every interleaving is a sequence of whole operations, so the signed chain is one chain.
\<close>

subsection \<open>One record and its line\<close>

definition line_of :: "(string \<Rightarrow> json option) \<Rightarrow> string option \<Rightarrow> audit_record \<Rightarrow> nat \<Rightarrow> audit_log \<Rightarrow> string \<times> string option" where
  "line_of from_str key r missed fs =
     (let event = format_jsonl r missed in
      case key of
        Some k \<Rightarrow> let previous = (case last_hmac from_str fs of None \<Rightarrow> [] | Some h \<Rightarrow> h);
                     h = hmac_sha256_hex k (previous @ nl # event)
                 in (signed_line previous event h, Some h)
      | None \<Rightarrow> (event, None))"

lemma write_record_locked_line:
  "write_record_locked from_str io key r missed fs =
     (case line_of from_str key r missed (rotate (fst io) fs) of (line, next) \<Rightarrow>
        if snd io then (Inr next, append_line line (rotate (fst io) fs)) else (Inl (), rotate (fst io) fs))"
  by (simp add: write_record_locked_def line_of_def Let_def split: option.split)

definition append_bytes :: "string \<Rightarrow> audit_log \<Rightarrow> audit_log" where
  "append_bytes bs fs = fs\<lparr>al_current := Some ((case al_current fs of None \<Rightarrow> [] | Some s \<Rightarrow> s) @ bs)\<rparr>"

lemma append_bytes_more: "append_bytes cs (append_bytes bs fs) = append_bytes (bs @ cs) fs"
  by (simp add: append_bytes_def)

lemma append_line_bytes: "append_line l fs = append_bytes (l @ [nl]) fs"
  by (simp add: append_line_def append_bytes_def)

text \<open>
  How the writing of a record ended: in full, before the log was open, or with some bytes of the
  line written. The last is what an error or a crash in \<^verbatim>\<open>writeln!\<close> leaves.
\<close>

datatype write_end = Complete | NotOpened | Cut string

fun write_as :: "(string \<Rightarrow> json option) \<Rightarrow> string option \<Rightarrow> audit_record \<times> nat \<Rightarrow> bool \<times> write_end \<Rightarrow> audit_log \<Rightarrow> audit_log" where
  "write_as from_str key (r, missed) (renames, Complete) fs = snd (write_record_locked from_str (renames, True) key r missed fs)"
| "write_as from_str key (r, missed) (renames, NotOpened) fs = snd (write_record_locked from_str (renames, False) key r missed fs)"
| "write_as from_str key (r, missed) (renames, Cut bs) fs = append_bytes bs (rotate renames fs)"

type_synonym op = "nat \<times> bool \<times> write_end"

definition write_ops :: "(string \<Rightarrow> json option) \<Rightarrow> string option \<Rightarrow> (nat \<Rightarrow> audit_record \<times> nat) \<Rightarrow> op list \<Rightarrow> audit_log \<Rightarrow> audit_log" where
  "write_ops from_str key jobs ops fs = fold (\<lambda>(i, how) fs. write_as from_str key (jobs i) how fs) ops fs"

subsection \<open>The steps of a writer\<close>

text \<open>Where a writer is, with what it has computed and, beside it, whether its rename worked.\<close>

datatype writer =
    Outside
  | Locked
  | Rotated bool
  | Composed bool string "string option"
  | Appending bool string string "string option"
  | Unlocking bool write_end "(unit, string option) result"
  | Returned "(unit, string option) result"
  | Dead

fun holding :: "writer \<Rightarrow> bool" where
  "holding Outside \<longleftrightarrow> False"
| "holding (Returned r) \<longleftrightarrow> False"
| "holding Dead \<longleftrightarrow> False"
| "holding _ \<longleftrightarrow> True"

record lock_sys =
  ls_log :: audit_log
  ls_holder :: "nat option"
  ls_writer :: "nat \<Rightarrow> writer"

definition moved :: "nat \<Rightarrow> writer \<Rightarrow> lock_sys \<Rightarrow> lock_sys" where
  "moved i p s = s\<lparr>ls_writer := (ls_writer s)(i := p)\<rparr>"

text \<open>
  \<^verbatim>\<open>flock\<close> on Unix: who holds the lock after it was granted, \<open>None\<close> while the
  call blocks. Elsewhere the code has no lock.
\<close>

definition lock_exclusive :: "nat \<Rightarrow> nat option \<Rightarrow> nat option option" where
  "lock_exclusive i holder = (case holder of None \<Rightarrow> Some (Some i) | Some j \<Rightarrow> None)"

definition unlock :: "nat option \<Rightarrow> nat option" where
  "unlock holder = None"

lemma lock_granted: "lock_exclusive i holder = Some h \<longleftrightarrow> holder = None \<and> h = Some i"
  by (auto simp: lock_exclusive_def split: option.splits)

text \<open>What a writer that dies has done so far.\<close>

fun done_at_death :: "writer \<Rightarrow> bool \<times> write_end" where
  "done_at_death (Rotated renames) = (renames, NotOpened)"
| "done_at_death (Composed renames l next) = (renames, NotOpened)"
| "done_at_death (Appending renames written rest next) = (renames, if rest = [] then Complete else Cut written)"
| "done_at_death (Unlocking renames e res) = (renames, e)"
| "done_at_death _ = (False, NotOpened)"

text \<open>
  A run with the operations that have ended, in order. The lock is the kernel's: it is
  granted to one holder, and given back when it is released, when the release fails
  (the file is closed) and when the holder's process ends.
\<close>

inductive lock_run :: "(string \<Rightarrow> json option) \<Rightarrow> string option \<Rightarrow> (nat \<Rightarrow> audit_record \<times> nat) \<Rightarrow> audit_log \<Rightarrow> op list \<Rightarrow> lock_sys \<Rightarrow> bool"
  for from_str key jobs fs where
  Start: "lock_run from_str key jobs fs [] \<lparr>ls_log = fs, ls_holder = None, ls_writer = (\<lambda>_. Outside)\<rparr>"
| NoLock: "\<lbrakk>lock_run from_str key jobs fs ops s; ls_writer s i = Outside\<rbrakk> \<Longrightarrow>
    lock_run from_str key jobs fs ops (moved i (Returned (Inl ())) s)"
| Acquire: "\<lbrakk>lock_run from_str key jobs fs ops s; ls_writer s i = Outside; lock_exclusive i (ls_holder s) = Some h\<rbrakk> \<Longrightarrow>
    lock_run from_str key jobs fs ops (moved i Locked s\<lparr>ls_holder := h\<rparr>)"
| Rotate: "\<lbrakk>lock_run from_str key jobs fs ops s; ls_writer s i = Locked\<rbrakk> \<Longrightarrow>
    lock_run from_str key jobs fs ops (moved i (Rotated renames) s\<lparr>ls_log := rotate renames (ls_log s)\<rparr>)"
| Compose: "\<lbrakk>lock_run from_str key jobs fs ops s; ls_writer s i = Rotated renames;
     line_of from_str key (fst (jobs i)) (snd (jobs i)) (ls_log s) = (l, next)\<rbrakk> \<Longrightarrow>
    lock_run from_str key jobs fs ops (moved i (Composed renames l next) s)"
| OpenLog: "\<lbrakk>lock_run from_str key jobs fs ops s; ls_writer s i = Composed renames l next\<rbrakk> \<Longrightarrow>
    lock_run from_str key jobs fs ops (moved i (Appending renames [] (l @ [nl]) next) s\<lparr>ls_log := append_bytes [] (ls_log s)\<rparr>)"
| OpenFails: "\<lbrakk>lock_run from_str key jobs fs ops s; ls_writer s i = Composed renames l next\<rbrakk> \<Longrightarrow>
    lock_run from_str key jobs fs ops (moved i (Unlocking renames NotOpened (Inl ())) s)"
| Append: "\<lbrakk>lock_run from_str key jobs fs ops s; ls_writer s i = Appending renames written (bs @ rest) next\<rbrakk> \<Longrightarrow>
    lock_run from_str key jobs fs ops (moved i (Appending renames (written @ bs) rest next) s\<lparr>ls_log := append_bytes bs (ls_log s)\<rparr>)"
| AppendFails: "\<lbrakk>lock_run from_str key jobs fs ops s; ls_writer s i = Appending renames written rest next; rest \<noteq> []\<rbrakk> \<Longrightarrow>
    lock_run from_str key jobs fs ops (moved i (Unlocking renames (Cut written) (Inl ())) s)"
| Flushed: "\<lbrakk>lock_run from_str key jobs fs ops s; ls_writer s i = Appending renames written [] next\<rbrakk> \<Longrightarrow>
    lock_run from_str key jobs fs ops (moved i (Unlocking renames Complete (Inr next)) s)"
| Unlock: "\<lbrakk>lock_run from_str key jobs fs ops s; ls_writer s i = Unlocking renames e res\<rbrakk> \<Longrightarrow>
    lock_run from_str key jobs fs (ops @ [(i, renames, e)]) (moved i (Returned (if ok then res else Inl ())) s\<lparr>ls_holder := unlock (ls_holder s)\<rparr>)"
| Die: "\<lbrakk>lock_run from_str key jobs fs ops s; holding (ls_writer s i)\<rbrakk> \<Longrightarrow>
    lock_run from_str key jobs fs (ops @ [(i, done_at_death (ls_writer s i))]) (moved i Dead s\<lparr>ls_holder := None\<rparr>)"

subsection \<open>Where the log stands\<close>

lemma moved_simps [simp]:
  "ls_log (moved i p s) = ls_log s" "ls_holder (moved i p s) = ls_holder s"
  "ls_writer (moved i p s) j = (if j = i then p else ls_writer s j)"
  by (simp_all add: moved_def)

text \<open>The log while a writer holds the lock, from the log \<open>base\<close> it found.\<close>

fun at_stage :: "(string \<Rightarrow> json option) \<Rightarrow> string option \<Rightarrow> audit_record \<times> nat \<Rightarrow> audit_log \<Rightarrow> audit_log \<Rightarrow> writer \<Rightarrow> bool" where
  "at_stage from_str key job base fs Locked \<longleftrightarrow> fs = base"
| "at_stage from_str key job base fs (Rotated renames) \<longleftrightarrow> fs = rotate renames base"
| "at_stage from_str key job base fs (Composed renames l next) \<longleftrightarrow>
     fs = rotate renames base \<and> line_of from_str key (fst job) (snd job) (rotate renames base) = (l, next)"
| "at_stage from_str key job base fs (Appending renames written rest next) \<longleftrightarrow>
     (\<exists>l. line_of from_str key (fst job) (snd job) (rotate renames base) = (l, next) \<and> written @ rest = l @ [nl] \<and>
        fs = append_bytes written (rotate renames base))"
| "at_stage from_str key job base fs (Unlocking renames e res) \<longleftrightarrow>
     fs = write_as from_str key job (renames, e) base \<and> (is_ok res \<longrightarrow> e = Complete)"
| "at_stage from_str key job base fs _ \<longleftrightarrow> False"

lemma holding_stage: "at_stage from_str key job base fs p \<Longrightarrow> holding p"
  by (cases p) simp_all

definition lock_inv :: "(string \<Rightarrow> json option) \<Rightarrow> string option \<Rightarrow> (nat \<Rightarrow> audit_record \<times> nat) \<Rightarrow> audit_log \<Rightarrow> op list \<Rightarrow> lock_sys \<Rightarrow> bool" where
  "lock_inv from_str key jobs fs ops s \<longleftrightarrow>
     (case ls_holder s of
        None \<Rightarrow> ls_log s = write_ops from_str key jobs ops fs
      | Some i \<Rightarrow> at_stage from_str key (jobs i) (write_ops from_str key jobs ops fs) (ls_log s) (ls_writer s i)) \<and>
     (\<forall>j. holding (ls_writer s j) \<longrightarrow> ls_holder s = Some j)"

definition counted :: "op list \<Rightarrow> lock_sys \<Rightarrow> bool" where
  "counted ops s \<longleftrightarrow> distinct (map fst ops) \<and>
     (\<forall>j. j \<in> fst ` set ops \<longrightarrow> ls_writer s j = Dead \<or> (\<exists>res. ls_writer s j = Returned res)) \<and>
     (\<forall>j h. ls_writer s j = Returned (Inr h) \<longrightarrow> (\<exists>renames. (j, renames, Complete) \<in> set ops))"

lemma write_ops_snoc:
  "write_ops from_str key jobs (ops @ [(i, how)]) fs = write_as from_str key (jobs i) how (write_ops from_str key jobs ops fs)"
  by (simp add: write_ops_def)

lemma write_as_pair:
  "write_as from_str key job (renames, Complete) fs =
     append_bytes (fst (line_of from_str key (fst job) (snd job) (rotate renames fs)) @ [nl]) (rotate renames fs)"
  "write_as from_str key job (renames, NotOpened) fs = rotate renames fs"
  "write_as from_str key job (renames, Cut bs) fs = append_bytes bs (rotate renames fs)"
  by (cases job; simp add: write_record_locked_line append_line_bytes split: prod.split)+

lemma rotate_no: "rotate False fs = fs"
  by (simp add: rotate_def split: option.split)

lemma stage_death: "at_stage from_str key job base fs p \<Longrightarrow> fs = write_as from_str key job (done_at_death p) base"
  by (cases p) (auto simp: write_as_pair rotate_no)

lemma not_holding:
  assumes "lock_inv from_str key jobs fs ops s" and "\<not> holding (ls_writer s i)"
  shows "ls_holder s \<noteq> Some i"
  using assms holding_stage by (fastforce simp: lock_inv_def)

text \<open>A step of the holder that stays within its operation, and one that ends it.\<close>

lemma inv_move:
  assumes "lock_inv from_str key jobs fs ops s" and "ls_writer s i = p" and "holding p"
    and "\<And>base. at_stage from_str key (jobs i) base (ls_log s) p \<Longrightarrow> at_stage from_str key (jobs i) base (ls_log s') p'"
    and "ls_holder s' = ls_holder s" and "\<And>j. ls_writer s' j = (if j = i then p' else ls_writer s j)"
  shows "lock_inv from_str key jobs fs ops s'"
proof -
  have h: "ls_holder s = Some i" using assms(1-3) by (auto simp: lock_inv_def)
  then have "at_stage from_str key (jobs i) (write_ops from_str key jobs ops fs) (ls_log s') p'"
    using assms(1,2,4) by (auto simp: lock_inv_def)
  then show ?thesis using assms(1,5,6) h by (auto simp: lock_inv_def)
qed

lemma inv_end:
  assumes "lock_inv from_str key jobs fs ops s" and "ls_writer s i = p" and "holding p"
    and "\<And>base. at_stage from_str key (jobs i) base (ls_log s) p \<Longrightarrow> ls_log s = write_as from_str key (jobs i) how base"
    and "ls_holder s' = None" and "ls_log s' = ls_log s" and "\<And>j. ls_writer s' j = (if j = i then p' else ls_writer s j)" and "\<not> holding p'"
  shows "lock_inv from_str key jobs fs (ops @ [(i, how)]) s'"
proof -
  have h: "ls_holder s = Some i" using assms(1-3) by (auto simp: lock_inv_def)
  then have "ls_log s = write_as from_str key (jobs i) how (write_ops from_str key jobs ops fs)"
    using assms(1,2,4) by (auto simp: lock_inv_def)
  then show ?thesis using assms(1,5-8) h by (auto simp: lock_inv_def write_ops_snoc)
qed

lemma lock_run_inv: "lock_run from_str key jobs fs ops s \<Longrightarrow> lock_inv from_str key jobs fs ops s"
proof (induction rule: lock_run.induct)
  case Start
  then show ?case by (simp add: lock_inv_def write_ops_def)
next
  case (NoLock ops s i)
  then have "ls_holder s \<noteq> Some i" by (intro not_holding) simp_all
  then show ?case using NoLock by (auto simp: lock_inv_def split: option.splits)
next
  case (Acquire ops s i h)
  then show ?case by (auto simp: lock_inv_def lock_granted)
next
  case (Rotate ops s i renames)
  show ?case by (rule inv_move [OF Rotate(3,2), where p' = "Rotated renames"]) simp_all
next
  case (Compose ops s i renames l next_mac)
  show ?case by (rule inv_move [OF Compose(4,2), where p' = "Composed renames l next_mac"]) (use Compose(3) in simp_all)
next
  case (OpenLog ops s i renames l next_mac)
  show ?case by (rule inv_move [OF OpenLog(3,2), where p' = "Appending renames [] (l @ [nl]) next_mac"]) simp_all
next
  case (OpenFails ops s i renames l next_mac)
  show ?case by (rule inv_move [OF OpenFails(3,2), where p' = "Unlocking renames NotOpened (Inl ())"]) (simp_all add: write_as_pair)
next
  case (Append ops s i renames written bs rest next_mac)
  show ?case by (rule inv_move [OF Append(3,2), where p' = "Appending renames (written @ bs) rest next_mac"])
    (auto simp: append_bytes_more)
next
  case (AppendFails ops s i renames written rest next_mac)
  show ?case by (rule inv_move [OF AppendFails(4,2), where p' = "Unlocking renames (Cut written) (Inl ())"]) (auto simp: write_as_pair)
next
  case (Flushed ops s i renames written next_mac)
  show ?case by (rule inv_move [OF Flushed(3,2), where p' = "Unlocking renames Complete (Inr next_mac)"]) (auto simp: write_as_pair)
next
  case (Unlock ops s i renames e res ok)
  show ?case by (rule inv_end [OF Unlock(3,2), where p' = "Returned (if ok then res else Inl ())"]) (simp_all add: unlock_def)
next
  case (Die ops s i)
  show ?case by (rule inv_end [OF Die(3) refl Die(2), where p' = Dead]) (simp_all add: stage_death)
qed

lemma unlocks_honestly:
  assumes "lock_run from_str key jobs fs ops s" and "ls_writer s i = Unlocking renames e (Inr h)"
  shows "e = Complete"
proof -
  have "ls_holder s = Some i" using lock_run_inv [OF assms(1)] assms(2) by (simp add: lock_inv_def)
  then have "at_stage from_str key (jobs i) (write_ops from_str key jobs ops fs) (ls_log s) (Unlocking renames e (Inr h))"
    using lock_run_inv [OF assms(1)] assms(2) by (simp add: lock_inv_def)
  then show ?thesis by simp
qed

lemma counted_fields [simp]:
  "counted ops (s\<lparr>ls_log := fs\<rparr>) = counted ops s" "counted ops (s\<lparr>ls_holder := h\<rparr>) = counted ops s"
  by (simp_all add: counted_def)

lemma counted_moved:
  assumes "counted ops s" and "ls_writer s i \<noteq> Dead" and "\<forall>res. ls_writer s i \<noteq> Returned res" and "\<forall>h. p \<noteq> Returned (Inr h)"
  shows "counted ops (moved i p s)"
  using assms by (auto simp: counted_def)

lemma counted_end:
  assumes "counted ops s" and "ls_writer s i = p" and "p \<noteq> Dead" and "\<And>res. p \<noteq> Returned res"
    and "\<And>j. ls_writer s' j = (if j = i then p' else ls_writer s j)" and "p' = Dead \<or> (\<exists>res. p' = Returned res)"
    and "\<And>h. p' = Returned (Inr h) \<Longrightarrow> e = Complete"
  shows "counted (ops @ [(i, renames, e)]) s'"
  using assms by (auto simp: counted_def; metis)

lemma lock_run_counted: "lock_run from_str key jobs fs ops s \<Longrightarrow> counted ops s"
proof (induction rule: lock_run.induct)
  case Start
  then show ?case by (simp add: counted_def)
next
  case (Unlock ops s i renames e res ok)
  show ?case by (rule counted_end [OF Unlock(3,2), where p' = "Returned (if ok then res else Inl ())"])
    (use unlocks_honestly [OF Unlock(1)] Unlock(2) in \<open>auto split: if_splits\<close>)
next
  case (Die ops s i)
  obtain renames e where d: "done_at_death (ls_writer s i) = (renames, e)" by (cases "done_at_death (ls_writer s i)")
  show ?case unfolding d by (rule counted_end [OF Die(3) refl, where p' = Dead]) (use Die(2) in auto)
qed (simp_all add: counted_moved)

text \<open>The signed lines of operations that were all written in full.\<close>

definition record_of :: "(nat \<Rightarrow> audit_record \<times> nat) \<Rightarrow> op \<Rightarrow> bool \<times> audit_record \<times> nat" where
  "record_of jobs p = (fst (snd p), jobs (fst p))"

lemma write_ops_complete:
  "\<forall>p\<in>set ops. snd (snd p) = Complete \<Longrightarrow>
     write_ops from_str (Some key) jobs ops fs = signed_writes from_str key (map (record_of jobs) ops) fs"
proof (induction ops arbitrary: fs)
  case (Cons p ops)
  obtain i renames e where p: "p = (i, renames, e)" by (cases p)
  obtain r m where j: "jobs i = (r, m)" by (cases "jobs i")
  show ?case using Cons by (simp add: p j write_ops_def record_of_def)
qed (simp add: write_ops_def)

text \<open>
  A record cut short takes the next one with it: the log is left without a line end, and the
  next writer, whose record is reported as written, puts its line behind the torn one. What a reader finds is
  one line that is neither.
\<close>

lemma cut_record_swallows_next:
  assumes "al_current fs = Some (unlines written)" and "list_all (\<lambda>l. nl \<notin> set l) written" and "nl \<notin> set (bs @ line)"
    and "line_of from_str key r m (append_bytes bs fs) = (line, next)"
  shows "\<exists>s. al_current (write_as from_str key (r, m) (False, Complete) (write_as from_str key job (False, Cut bs) fs)) = Some s \<and>
    lines s = map strip_cr (written @ [bs @ line])"
proof -
  have cut: "write_as from_str key job (False, Cut bs) fs = append_bytes bs fs" by (simp add: write_as_pair rotate_no)
  have "al_current (write_as from_str key (r, m) (False, Complete) (append_bytes bs fs)) = Some (unlines (written @ [bs @ line]))"
    using assms(1,4) by (simp add: write_as_pair rotate_no append_bytes_def unlines_append)
  moreover have "lines (unlines (written @ [bs @ line])) = map strip_cr (written @ [bs @ line])"
    by (rule lines_unlines) (use assms(2,3) in \<open>auto simp: list_all_iff\<close>)
  ultimately show ?thesis unfolding cut by blast
qed

text \<open>
  C27. The lock makes each record's writing one operation. Whenever no writer holds the lock, whatever the interleaving of
  writers of any process and wherever some failed or died, the log is what the operations make of it one
  after another in the order in which the lock was given back, each writer's at most once, and every writer that was
  told its record is written has one, in full. So replicas that share a log
  write one signed chain: when no write was cut short, verification accepts it with the number of
  records, or, after a second rotation, misses only the rotated beginning.
\<close>

theorem lock_makes_one_chain:
  assumes "lock_run from_str key jobs fs ops s" and "ls_holder s = None"
  shows "ls_log s = write_ops from_str key jobs ops fs \<and> distinct (map fst ops) \<and>
    (\<forall>i h. ls_writer s i = Returned (Inr h) \<longrightarrow> (\<exists>renames. (i, renames, Complete) \<in> set ops)) \<and>
    (\<forall>k. key = Some k \<and> fs = empty_log \<and> 32 \<le> length k \<and> ops \<noteq> [] \<and>
       (\<forall>p\<in>set ops. snd (snd p) = Complete \<and> parses_signed from_str (fst (jobs (fst p))) (snd (jobs (fst p)))) \<longrightarrow>
       (\<exists>m < length ops.
          map (line_entry from_str) (log_lines (ls_log s)) =
            map Some (drop m (chain (hmac_sha256_hex k) [] (map (\<lambda>p. format_jsonl (fst (jobs (fst p))) (snd (jobs (fst p)))) ops))) \<and>
          verify from_str k (ls_log s) = (if m = 0 then Inr (length ops) else Inl (Discontinuity 1))))"
proof -
  have log: "ls_log s = write_ops from_str key jobs ops fs" using lock_run_inv [OF assms(1)] assms(2) by (simp add: lock_inv_def)
  have "\<exists>m < length ops.
      map (line_entry from_str) (log_lines (ls_log s)) =
        map Some (drop m (chain (hmac_sha256_hex k) [] (map (\<lambda>p. format_jsonl (fst (jobs (fst p))) (snd (jobs (fst p)))) ops))) \<and>
      verify from_str k (ls_log s) = (if m = 0 then Inr (length ops) else Inl (Discontinuity 1))"
    if "key = Some k" "fs = empty_log" "32 \<le> length k" "ops \<noteq> []"
      "\<forall>p\<in>set ops. snd (snd p) = Complete \<and> parses_signed from_str (fst (jobs (fst p))) (snd (jobs (fst p)))" for k
  proof -
    have ops: "write_ops from_str key jobs ops fs = signed_writes from_str k (map (record_of jobs) ops) empty_log"
      unfolding that(1,2) by (rule write_ops_complete) (use that(5) in blast)
    have events: "map event_of (map (record_of jobs) ops) = map (\<lambda>p. format_jsonl (fst (jobs (fst p))) (snd (jobs (fst p)))) ops"
      by (simp add: event_of_def record_of_def)
    have parses: "\<forall>w\<in>set (map (record_of jobs) ops). parses_signed from_str (fst (snd w)) (snd (snd w))"
      using that(5) by (simp add: record_of_def)
    have "map (record_of jobs) ops \<noteq> []" using that(4) by simp
    from writes_verify [OF that(3) this parses] show ?thesis unfolding log ops events length_map .
  qed
  then show ?thesis using log lock_run_counted [OF assms(1)] unfolding counted_def by blast
qed

lemma one_after_another:
  assumes "lock_run from_str key jobs fs ops s" and "ls_holder s = None" and "ls_writer s i = Outside"
  shows "\<exists>s' h. lock_run from_str key jobs fs (ops @ [(i, renames, Complete)]) s' \<and> ls_holder s' = None \<and>
    ls_writer s' = (ls_writer s)(i := Returned (Inr h))"
proof -
  let ?log = "rotate renames (ls_log s)"
  obtain l next_mac where l: "line_of from_str key (fst (jobs i)) (snd (jobs i)) ?log = (l, next_mac)"
    by (cases "line_of from_str key (fst (jobs i)) (snd (jobs i)) ?log")
  have "lock_exclusive i (ls_holder s) = Some (Some i)" by (simp add: lock_granted assms(2))
  note r1 = Acquire [OF assms(1,3) this]
  note r2 = Rotate [OF r1, of i renames, simplified]
  note r3 = Compose [OF r2, of i renames l next_mac, simplified, OF l]
  note r4 = OpenLog [OF r3, of i renames l next_mac, simplified]
  note r5 = Append [OF r4, of i renames "[]" "l @ [nl]" "[]" next_mac, simplified]
  note r6 = Flushed [OF r5, of i renames "l @ [nl]" next_mac, simplified]
  note r7 = Unlock [OF r6, of i renames Complete "Inr next_mac" True, simplified unlock_def, simplified]
  show ?thesis by (rule exI, rule exI [of _ next_mac], rule conjI [OF r7]) (simp add: moved_def)
qed

theorem lock_makes_one_chain_witness:
  "\<exists>s. lock_run sample_parser (Some (replicate 32 (CHR ''k''))) (\<lambda>_. (sample_record, 0)) empty_log [(1, True, Complete), (0, True, Complete)] s \<and>
     verify sample_parser (replicate 32 (CHR ''k'')) (ls_log s) \<in> {Inr 2, Inl (Discontinuity 1)}"
proof -
  let ?key = "replicate 32 (CHR ''k'')"
  let ?run = "lock_run sample_parser (Some ?key) (\<lambda>_. (sample_record, 0)) empty_log"
  obtain s1 h1 where s1: "?run ([] @ [(1, True, Complete)]) s1" "ls_holder s1 = None" "ls_writer s1 = (\<lambda>_. Outside)(1 := Returned (Inr h1))"
    using one_after_another [OF lock_run.Start, where i = 1 and from_str = sample_parser and key = "Some ?key" and
        jobs = "\<lambda>_. (sample_record, 0)" and fs = empty_log and renames = True] by auto
  have "ls_writer s1 0 = Outside" by (simp add: s1(3))
  from one_after_another [OF s1(1,2) this, where renames = True] obtain s2 where
    s2: "?run [(1, True, Complete), (0, True, Complete)] s2" "ls_holder s2 = None" by auto
  have "\<exists>m. verify sample_parser ?key (ls_log s2) = (if m = (0::nat) then Inr (length [(1::nat, True, Complete), (0, True, Complete)]) else Inl (Discontinuity 1))"
    using lock_makes_one_chain [OF s2, THEN conjunct2, THEN conjunct2, THEN conjunct2, rule_format, of ?key] sample_parses by fastforce
  then show ?thesis using s2(1) by (auto split: if_splits)
qed

end
