(* ===== verification/Spec2Isabelle.thy ===== *)
theory Spec2Isabelle
  imports Rights_Edit Rights_Report Rights_Sync Sync Sha256 Security Rate_Limit Hot_Reload Auth_Tokens Oidc
    Policy Cross_Repo Audit_Log Proxy Http_Replies Server Server_Safety Server_Audit Server_Run
    Admission Backend_Tls Audit_Export Startup Rights_Update Mirror_Lease Audit_Lock
begin

text \<open>
  \<^verbatim>\<open>glasir-control\<close> is one address in front of many code-analysis servers, the trees. It identifies
  the caller of a request, decides from a rights file which trees, tools and workspaces the caller may
  use, forwards what is allowed with the tree's own credential, and keeps an audit log. Administrators
  change the rights file by proposals that a second one approves; code hosts change it by webhooks
  and by reconciliation. This library models the Rust sources under \<^verbatim>\<open>src/\<close> and proves what
  the parts promise, alone and together.

  \<^bold>\<open>Ground.\<close> \<open>Ctl_Prelude\<close> has the result type, the hash maps and the shared rule
  collections. \<open>Rust_Text\<close> and \<open>Rust_Num\<close> are the string and number operations of the standard
  library: a string is its UTF-8 bytes, integers keep the bound of their type. \<open>Json\<close> has
  the values of the JSON library and their accessors.

  \<^bold>\<open>The policy\<close> (\<^verbatim>\<open>src/rights.rs\<close>). \<open>Rights\<close>: the parser and every decision;
  decisions are statements about the lines of the file. \<open>Rights_Edit\<close>: what a tenant administrator may
  submit, and that an accepted edit changes nothing outside the tenant (locale \<open>confined_edit\<close>).
  \<open>Rights_Report\<close>: the access review and the validator, each against a specification.
  \<open>Hot_Reload\<close>: the cache of a file that changes while requests run, as the locale
  \<open>hot_reload\<close>, interpreted for the rights file here, the token file in \<open>Auth_Tokens\<close> and the key set in
  \<open>Oidc\<close>. It compares modification times, of which nothing is assumed: a change with a new time is honoured, one
  that keeps the time is not seen.

  \<^bold>\<open>Callers\<close> (\<^verbatim>\<open>src/auth.rs\<close>, \<^verbatim>\<open>src/security.rs\<close>). \<open>Sha256\<close>: the hash as the
  code computes it, equal to the definition of FIPS 180-4, and the HMAC on it. \<open>Auth_Tokens\<close>: the
  token file, identification and its validator. \<open>Oidc\<close>: JWT identities, tied to the claims of the
  token and the key it names, under what the library documents (\<open>jwt_contract\<close>), and the console sign-on.
  \<open>Security\<close>: comparison, decoding and the checks of names and headers. \<open>Rate_Limit\<close>: the
  token bucket (locale \<open>token_bucket\<close>); its levels are reals where the code has \<^verbatim>\<open>f64\<close>.

  \<^bold>\<open>Changes of the policy.\<close> \<open>Rights_Sync\<close> and \<open>Sync\<close> (\<^verbatim>\<open>src/sync.rs\<close>): the
  rewriting of the file for one action, webhooks, member lists page by page, reconciliation against the lists the hosts serve
  (\<open>github_serves\<close>, \<open>gitlab_serves\<close>), the repository mapping. \<open>Policy\<close> (\<^verbatim>\<open>src/policy.rs\<close>): proposals as a state machine whose
  steps may fail half-way, with four eyes as its invariant. \<open>Rights_Update\<close>: the same writes as
  system calls of threads that run at once, on names, inodes and handles; the file is whole while no
  temporary file is shared, the calls are atomic while none overlap, and otherwise updates are lost or
  mixed, as two explicit interleavings show. \<open>Mirror_Lease\<close>: the reconciliation thread and the
  webhooks over time, a round taking time from its first question to its write, and what the age of the rights
  file says of the hosts' last answers.

  \<^bold>\<open>Traffic.\<close> \<open>Proxy\<close> (\<^verbatim>\<open>src/proxy.rs\<close>): reading a request from chunks within
  its bounds, routing, the head sent to a tree. \<open>Http_Replies\<close>: every answer the server writes,
  byte by byte. \<open>Cross_Repo\<close> (\<^verbatim>\<open>src/crossrepo.rs\<close>): which calls of one tree reach which
  routes of another. \<open>Audit_Log\<close> (\<^verbatim>\<open>src/audit.rs\<close>): records, the signed chain with its
  rotation (locale \<open>keyed_mac\<close>), verification, and the queue with its writer. \<open>Backend_Tls\<close>
  (\<^verbatim>\<open>src/backend_tls.rs\<close>): certificates, keys, the reading of an answer to the end of its TLS stream and
  the request to a remote audit ingest. \<open>Audit_Lock\<close>: the writers of one log in
  several threads and processes, step by step under the lock; they refine \<open>write_record_locked\<close>.

  \<^bold>\<open>The server\<close> (\<^verbatim>\<open>src/main.rs\<close>). \<open>Startup\<close>: options, commands, configuration, the
  refusals to start. \<open>Admission\<close>: the two accept loops as step relations over a 64-bit counter that
  other threads decrement and that may be read stale (locale \<open>gate\<close>, interpreted for both), and the handler
  of the audit ingest. \<open>Server\<close>: one request from the rate limiter to the answer, every endpoint
  included; an \<open>outcome\<close> lists the answer, the requests sent to trees, the audit record and
  the new store. \<open>Server_Safety\<close> and \<open>Server_Run\<close> put the parts together: who is contacted,
  who changes the policy, and that over every run a change of the policy has a code host or two
  administrators behind it. \<open>Server_Audit\<close>: whoever reaches a tree or changes the policy has a record in
  the writer's queue, or one counted as dropped when the queue is full; code hosts and a review that panics excepted. \<open>Audit_Export\<close> takes a record from the writer of one machine
  through the request writer, the request reader and the signature check into the log of another, and shows that it is
  counted as failed there, for want of a close notification.

  \<^bold>\<open>Kinds of facts.\<close> Each theory first translates the code in its order, then has the lemmas of its operations,
  then its properties. A property carries the number of its claim and is followed
  by a witness at a concrete input where it has hypotheses. Errors are values of sum types, so every early return
  is a branch. A panic is the answer \<open>Panicked\<close>.

  \<^bold>\<open>Bounds and termination.\<close> No definition uses fuel. Loops over a stream or over the pages of a member
  list are recursive functions with a measure: the bytes left, and the pages up to the code's own limit of 1000
  (\<open>collect_pages\<close>). Sizes are the code's constants: 64 connections, lines of 8 KiB,
  fewer than 100 headers, bodies of 1 MiB, replies of 32 MiB, log segments of 10 MiB, a queue of 2048 records.

  \<^bold>\<open>Parameters.\<close> What is not in the repository is an argument: the JSON reader and printer, the JWT and TLS
  libraries, the PEM reader, the answers of trees and code hosts, the clock, the file system's successes
  and failures, and whether a TLS stream ends with a close notification. A hypothesis on one of them is named in the property that uses it.

  \<^bold>\<open>Not modelled.\<close> The browser console under \<^verbatim>\<open>assets/\<close> (static files), the text of
  \<^verbatim>\<open>--help\<close> and of messages on the terminal, timeouts of sockets, file permissions,
  a thread that cannot be started (the process ends), and rates that are no real numbers. The
  \<^verbatim>\<open>f64\<close> rounding of the rate limiter is not modelled either. \<open>Server\<close> and \<open>Server_Run\<close> take a request
  as one step; which of its writes may interleave, and with what result, is in \<open>Rights_Update\<close>,
  \<open>Policy\<close> and \<open>Audit_Lock\<close>. There a read of a file is one step, and what survives a power failure
  (the code does not sync files) is left open.
\<close>

end
